(* ===== verification/Prelude.thy ===== *)
theory Prelude
  imports Main "HOL-Library.Word" "HOL-Library.Sublist"
begin

section \<open>Prelude: the Rust vocabulary the components share\<close>

text \<open>
  What every component of the Hamlet uses of Rust and its standard library: the
  \<open>Result\<close> enum, \<open>str\<close> methods (\<open>trim\<close>, \<open>split\<close>, \<open>strip_suffix\<close>, \<open>find\<close>, \<open>rfind\<close>,
  \<open>split_once\<close>, \<open>parse\<close>), decimal and hexadecimal formatting, 64-bit signed
  arithmetic with its wrap-around, big-endian bytes, and \<open>std::path\<close> on Unix paths.

  A Rust \<open>char\<close> is modelled by an HOL \<open>char\<close>, that is a code point below 256, and a
  Rust string by the list of its characters; indices found by \<open>find\<close>/\<open>rfind\<close> are used
  by the source only to cut the string at that place, so character positions serve
  as well as byte positions.

  Named collections: \<open>str_simps\<close> (rewriting of string operations), \<open>inv_intros\<close>
  (preservation lemmas of component invariants).
\<close>

named_theorems str_simps \<open>rewriting of Rust string operations\<close>
named_theorems inv_intros \<open>preservation of component invariants\<close>

subsection \<open>Results\<close>

datatype ('a, 'e) result = Ok 'a | Err 'e

type_synonym 'a res = "('a, string) result"

fun is_ok :: "('a, 'e) result \<Rightarrow> bool" where
  "is_ok (Ok _) = True"
| "is_ok (Err _) = False"

fun res_ok :: "('a, 'e) result \<Rightarrow> 'a option" where
  "res_ok (Ok x) = Some x"
| "res_ok (Err _) = None"

fun ok_or :: "'a option \<Rightarrow> 'e \<Rightarrow> ('a, 'e) result" where
  "ok_or (Some x) e = Ok x"
| "ok_or None e = Err e"

fun map_err :: "('e \<Rightarrow> 'f) \<Rightarrow> ('a, 'e) result \<Rightarrow> ('a, 'f) result" where
  "map_err f (Ok x) = Ok x"
| "map_err f (Err e) = Err (f e)"

fun unwrap_or :: "'a option \<Rightarrow> 'a \<Rightarrow> 'a" where
  "unwrap_or (Some x) d = x"
| "unwrap_or None d = d"

lemma is_ok_iff: "is_ok r \<longleftrightarrow> (\<exists>x. r = Ok x)"
  by (cases r) auto

lemma ok_or_Ok_iff [simp]: "ok_or x e = Ok y \<longleftrightarrow> x = Some y"
  by (cases x) auto

lemma ok_or_Err_iff [simp]: "ok_or x e = Err e' \<longleftrightarrow> x = None \<and> e' = e"
  by (cases x) auto

lemma map_err_Ok_iff [simp]: "map_err f r = Ok y \<longleftrightarrow> r = Ok y"
  by (cases r) auto

lemma map_err_Err_iff [simp]: "map_err f r = Err e' \<longleftrightarrow> (\<exists>e. r = Err e \<and> e' = f e)"
  by (cases r) auto

subsection \<open>Characters and white space\<close>

type_synonym byte = "8 word"

definition chr_code :: "char \<Rightarrow> nat" where
  "chr_code c = (of_char c :: nat)"

text \<open>\<open>char::is_whitespace\<close> on code points below 256 (the Unicode \<open>White_Space\<close> property).\<close>

definition is_whitespace :: "char \<Rightarrow> bool" where
  "is_whitespace c \<longleftrightarrow>
     (let n = chr_code c in (9 \<le> n \<and> n \<le> 13) \<or> n = 32 \<or> n = 133 \<or> n = 160)"

definition is_digit :: "char \<Rightarrow> bool" where
  "is_digit c \<longleftrightarrow> (48 \<le> chr_code c \<and> chr_code c \<le> 57)"

definition digit_val :: "char \<Rightarrow> nat" where
  "digit_val c = chr_code c - 48"

definition ascii_lower :: "char \<Rightarrow> char" where
  "ascii_lower c = (if 65 \<le> chr_code c \<and> chr_code c \<le> 90 then char_of (chr_code c + 32) else c)"

definition eq_ignore_ascii_case :: "string \<Rightarrow> string \<Rightarrow> bool" where
  "eq_ignore_ascii_case a b \<longleftrightarrow> map ascii_lower a = map ascii_lower b"

subsection \<open>String slices\<close>

definition trim_end_by :: "(char \<Rightarrow> bool) \<Rightarrow> string \<Rightarrow> string" where
  "trim_end_by p s = rev (dropWhile p (rev s))"

definition trim :: "string \<Rightarrow> string" where
  "trim s = trim_end_by is_whitespace (dropWhile is_whitespace s)"

definition trim_end_matches :: "char \<Rightarrow> string \<Rightarrow> string" where
  "trim_end_matches c s = trim_end_by (\<lambda>x. x = c) s"

definition starts_with :: "string \<Rightarrow> string \<Rightarrow> bool" where
  "starts_with s p \<longleftrightarrow> take (length p) s = p"

definition ends_with :: "string \<Rightarrow> string \<Rightarrow> bool" where
  "ends_with s p \<longleftrightarrow> length p \<le> length s \<and> drop (length s - length p) s = p"

definition strip_suffix :: "string \<Rightarrow> string \<Rightarrow> string option" where
  "strip_suffix s p = (if ends_with s p then Some (take (length s - length p) s) else None)"

text \<open>\<open>str::split(char)\<close>: never empty, one piece per separator plus one.\<close>

fun split_on :: "char \<Rightarrow> string \<Rightarrow> string list" where
  "split_on c [] = [[]]"
| "split_on c (x # xs) =
     (if x = c then [] # split_on c xs
      else (case split_on c xs of [] \<Rightarrow> [[x]] | y # ys \<Rightarrow> (x # y) # ys))"

text \<open>\<open>str::find(char)\<close> and \<open>str::rfind(char)\<close>: first and last position.\<close>

fun find_char :: "char \<Rightarrow> string \<Rightarrow> nat option" where
  "find_char c [] = None"
| "find_char c (x # xs) = (if x = c then Some 0 else map_option Suc (find_char c xs))"

fun rfind_char :: "char \<Rightarrow> string \<Rightarrow> nat option" where
  "rfind_char c [] = None"
| "rfind_char c (x # xs) =
     (case rfind_char c xs of Some i \<Rightarrow> Some (Suc i) | None \<Rightarrow> if x = c then Some 0 else None)"

text \<open>\<open>str::split_once(&str)\<close> at the first occurrence, \<open>str::rsplit_once(char)\<close> at the last.\<close>

fun split_once :: "string \<Rightarrow> string \<Rightarrow> (string \<times> string) option" where
  "split_once p [] = (if p = [] then Some ([], []) else None)"
| "split_once p (x # xs) =
     (if starts_with (x # xs) p then Some ([], drop (length p) (x # xs))
      else map_option (\<lambda>(a, b). (x # a, b)) (split_once p xs))"

definition rsplit_once :: "char \<Rightarrow> string \<Rightarrow> (string \<times> string) option" where
  "rsplit_once c s = map_option (\<lambda>i. (take i s, drop (Suc i) s)) (rfind_char c s)"

text \<open>\<open>str::replacen(from, to, 1)\<close>.\<close>

definition replacen_1 :: "string \<Rightarrow> string \<Rightarrow> string \<Rightarrow> string" where
  "replacen_1 s p r = (case split_once p s of Some (a, b) \<Rightarrow> a @ r @ b | None \<Rightarrow> s)"

subsection \<open>Facts about string slices\<close>

lemma trim_end_by_append [str_simps]:
  "\<not> p x \<Longrightarrow> trim_end_by p (s @ [x]) = s @ [x]"
  by (simp add: trim_end_by_def)

lemma trim_end_by_Nil [simp]: "trim_end_by p [] = []"
  by (simp add: trim_end_by_def)

lemma trim_end_by_decomp: "\<exists>t. s = trim_end_by p s @ t \<and> (\<forall>x\<in>set t. p x)"
proof -
  have "rev s = takeWhile p (rev s) @ dropWhile p (rev s)" by simp
  then have "s = trim_end_by p s @ rev (takeWhile p (rev s))"
    unfolding trim_end_by_def by (metis rev_append rev_rev_ident)
  moreover have "\<forall>x\<in>set (rev (takeWhile p (rev s))). p x"
    by (auto dest: set_takeWhileD)
  ultimately show ?thesis by blast
qed

lemma trim_end_by_last: "trim_end_by p s \<noteq> [] \<Longrightarrow> \<not> p (last (trim_end_by p s))"
  unfolding trim_end_by_def by (metis Nil_is_rev_conv hd_dropWhile last_rev)

lemma trim_end_by_id: "s = [] \<or> \<not> p (last s) \<Longrightarrow> trim_end_by p s = s"
  by (cases s rule: rev_cases) (auto simp: trim_end_by_def)

lemma trim_end_by_idem [simp]: "trim_end_by p (trim_end_by p s) = trim_end_by p s"
  using trim_end_by_last trim_end_by_id by blast

lemma starts_with_iff: "starts_with s p \<longleftrightarrow> (\<exists>t. s = p @ t)"
  unfolding starts_with_def by (metis append_eq_conv_conj append_take_drop_id)

lemma ends_with_iff: "ends_with s p \<longleftrightarrow> (\<exists>t. s = t @ p)"
proof
  assume "ends_with s p"
  then have "s = take (length s - length p) s @ p"
    unfolding ends_with_def by (metis append_take_drop_id)
  then show "\<exists>t. s = t @ p" ..
qed (auto simp: ends_with_def)

lemma ends_with_append [simp, str_simps]: "ends_with (s @ p) p"
  by (auto simp: ends_with_iff)

lemma strip_suffix_Some_iff: "strip_suffix s p = Some t \<longleftrightarrow> s = t @ p"
  by (auto simp: strip_suffix_def ends_with_iff)

lemma strip_suffix_append [simp, str_simps]: "strip_suffix (s @ p) p = Some s"
  by (simp add: strip_suffix_Some_iff)

lemma find_char_Some_iff:
  "find_char c s = Some i \<longleftrightarrow> i < length s \<and> s ! i = c \<and> c \<notin> set (take i s)"
proof (induction s arbitrary: i)
  case (Cons x xs)
  show ?case by (cases i) (auto simp: Cons.IH)
qed simp

lemma find_char_None_iff: "find_char c s = None \<longleftrightarrow> c \<notin> set s"
  by (induction s) auto

lemma find_char_append: "c \<notin> set a \<Longrightarrow> find_char c (a @ c # b) = Some (length a)"
  by (induction a) auto

lemma rfind_char_None_iff: "rfind_char c s = None \<longleftrightarrow> c \<notin> set s"
  by (induction s) (auto split: option.splits)

lemma rfind_char_append: "c \<notin> set b \<Longrightarrow> rfind_char c (a @ c # b) = Some (length a)"
proof (induction a)
  case Nil
  then show ?case by (simp add: rfind_char_None_iff [THEN iffD2])
qed simp

lemma rsplit_once_append [str_simps]: "c \<notin> set b \<Longrightarrow> rsplit_once c (a @ c # b) = Some (a, b)"
  by (simp add: rsplit_once_def rfind_char_append)

lemma rsplit_once_None_iff: "rsplit_once c s = None \<longleftrightarrow> c \<notin> set s"
  by (simp add: rsplit_once_def rfind_char_None_iff)

lemma rsplit_once_SomeD: "rsplit_once c s = Some (a, b) \<Longrightarrow> s = a @ c # b \<and> c \<notin> set b"
proof -
  assume "rsplit_once c s = Some (a, b)"
  then obtain i where i: "rfind_char c s = Some i" and ab: "a = take i s" "b = drop (Suc i) s"
    by (auto simp: rsplit_once_def)
  then have "c \<in> set s" using rfind_char_None_iff [of c s] by auto
  then obtain u v where s: "s = u @ c # v" "c \<notin> set v" by (metis split_list_last)
  with i have "i = length u" using rfind_char_append by force
  with ab s show ?thesis by simp
qed

lemma split_once_append [str_simps]:
  assumes "p \<noteq> []" and "hd p \<notin> set a"
  shows "split_once p (a @ p @ b) = Some (a, b)"
  using assms(2)
proof (induction a)
  case Nil
  from assms(1) obtain x xs where "p = x # xs" by (cases p) auto
  then show ?case by (simp add: starts_with_def)
next
  case (Cons x xs)
  from assms(1) Cons.prems have "\<not> starts_with ((x # xs) @ p @ b) p"
    by (cases p) (auto simp: starts_with_def)
  with Cons show ?case by simp
qed

lemma split_once_SomeD: "split_once p s = Some (a, b) \<Longrightarrow> s = a @ p @ b"
proof (induction s arbitrary: a)
  case (Cons x xs)
  show ?case
  proof (cases "starts_with (x # xs) p")
    case True
    then show ?thesis using Cons.prems by (auto simp: starts_with_iff)
  next
    case False
    then show ?thesis using Cons by auto
  qed
qed (auto split: if_splits)

lemma replacen_1_prefix: "p \<noteq> [] \<Longrightarrow> replacen_1 (p @ s) p r = r @ s"
  using split_once_append [of p "[]" s] by (simp add: replacen_1_def)

lemma split_on_nonempty [simp]: "split_on c s \<noteq> []"
  by (induction s) (auto split: list.splits)

lemma split_on_pieces: "t \<in> set (split_on c s) \<Longrightarrow> c \<notin> set t"
proof (induction s arbitrary: t)
  case (Cons x xs)
  show ?case
  proof (cases "split_on c xs")
    case (Cons y ys)
    then show ?thesis using Cons.IH Cons.prems by (auto split: if_splits)
  qed simp
qed simp

subsection \<open>Decimal numbers\<close>

text \<open>
  \<open>u16::from_str\<close>, \<open>u32::from_str\<close>: an optional leading plus sign, then one or more
  ASCII digits whose value fits the type; anything else is an error.
\<close>

definition digits_val :: "string \<Rightarrow> nat" where
  "digits_val s = foldl (\<lambda>a c. 10 * a + digit_val c) 0 s"

definition parse_uint :: "nat \<Rightarrow> string \<Rightarrow> nat option" where
  "parse_uint w s =
     (let ds = (case s of [] \<Rightarrow> [] | x # xs \<Rightarrow> if x = CHR ''+'' then xs else s)
      in if ds \<noteq> [] \<and> list_all is_digit ds \<and> digits_val ds < 2 ^ w
         then Some (digits_val ds) else None)"

definition parse_u16 :: "string \<Rightarrow> 16 word option" where
  "parse_u16 s = map_option of_nat (parse_uint 16 s)"

definition parse_u32 :: "string \<Rightarrow> 32 word option" where
  "parse_u32 s = map_option of_nat (parse_uint 32 s)"

definition digit_char :: "nat \<Rightarrow> char" where
  "digit_char n = char_of (48 + n)"

fun show_nat :: "nat \<Rightarrow> string" where
  "show_nat n = (if n < 10 then [digit_char n] else show_nat (n div 10) @ [digit_char (n mod 10)])"

declare show_nat.simps [simp del]

definition show_u16 :: "16 word \<Rightarrow> string" where
  "show_u16 w = show_nat (unat w)"

definition show_u32 :: "32 word \<Rightarrow> string" where
  "show_u32 w = show_nat (unat w)"

lemma chr_code_digit_char: "n < 10 \<Longrightarrow> chr_code (digit_char n) = 48 + n"
  by (simp add: chr_code_def digit_char_def)

lemma digit_char_facts: "n < 10 \<Longrightarrow> is_digit (digit_char n) \<and> digit_val (digit_char n) = n"
  by (simp add: is_digit_def digit_val_def chr_code_digit_char)

lemma digits_val_snoc: "digits_val (s @ [c]) = 10 * digits_val s + digit_val c"
  by (simp add: digits_val_def)

lemma show_nat_digits:
  "show_nat n \<noteq> [] \<and> list_all is_digit (show_nat n) \<and> digits_val (show_nat n) = n"
proof (induction n rule: show_nat.induct)
  case (1 n)
  show ?case
  proof (cases "n < 10")
    case True
    then show ?thesis
      by (simp add: show_nat.simps [of n] digit_char_facts digits_val_def)
  next
    case False
    with 1 show ?thesis
      by (simp add: show_nat.simps [of n] digit_char_facts digits_val_snoc)
  qed
qed

lemma show_nat_set: "c \<in> set (show_nat n) \<Longrightarrow> is_digit c"
  using show_nat_digits [of n] by (auto simp: list_all_iff)

lemma not_digit [simp]:
  "\<not> is_digit CHR ''+''" "\<not> is_digit CHR '':''" "\<not> is_digit CHR ''/''"
  by (simp_all add: is_digit_def chr_code_def)

lemma parse_show_nat: "n < 2 ^ w \<Longrightarrow> parse_uint w (show_nat n) = Some n"
proof -
  assume n: "n < 2 ^ w"
  obtain x xs where s: "show_nat n = x # xs"
    using show_nat_digits [of n] by (cases "show_nat n") auto
  then have "x \<noteq> CHR ''+''"
    using show_nat_set [of x n] by auto
  with s n show_nat_digits [of n] show ?thesis by (simp add: parse_uint_def)
qed

lemma parse_show_u16 [simp]: "parse_u16 (show_u16 w) = Some w"
proof -
  have "unat w < 2 ^ 16" using unsigned_less [of w] by simp
  then show ?thesis by (simp add: parse_u16_def show_u16_def parse_show_nat)
qed

lemma parse_uint_bound: "parse_uint w s = Some n \<Longrightarrow> n < 2 ^ w"
  by (auto simp: parse_uint_def Let_def split: list.splits if_splits)

subsection \<open>Hexadecimal\<close>

definition hex_digit :: "nat \<Rightarrow> char" where
  "hex_digit n = (if n < 10 then char_of (48 + n) else char_of (87 + n))"

definition hex_val :: "char \<Rightarrow> nat option" where
  "hex_val c = (let n = chr_code c in
     if 48 \<le> n \<and> n \<le> 57 then Some (n - 48)
     else if 97 \<le> n \<and> n \<le> 102 then Some (n - 87) else None)"

lemma hex_val_digit: "n < 16 \<Longrightarrow> hex_val (hex_digit n) = Some n"
  by (auto simp: hex_val_def hex_digit_def chr_code_def Let_def)

subsection \<open>Signed 64-bit integers and big-endian bytes\<close>

text \<open>
  An \<open>i64\<close> is an \<open>int\<close> in range; \<open>wrap_i64\<close> is both the cast \<open>as i64\<close> and the result of
  an overflowing release-mode addition (a debug build panics there instead).
\<close>

definition wrap_i64 :: "int \<Rightarrow> int" where
  "wrap_i64 x = (x + 2 ^ 63) mod 2 ^ 64 - 2 ^ 63"

definition i64_add :: "int \<Rightarrow> int \<Rightarrow> int" where
  "i64_add a b = wrap_i64 (a + b)"

lemma wrap_i64_id: "- (2 ^ 63) \<le> x \<Longrightarrow> x < 2 ^ 63 \<Longrightarrow> wrap_i64 x = x"
  by (simp add: wrap_i64_def)

lemma wrap_i64_range: "- (2 ^ 63) \<le> wrap_i64 x \<and> wrap_i64 x < 2 ^ 63"
  by (simp add: wrap_i64_def pos_mod_bound [of "2 ^ 64" "x + 2 ^ 63"] diff_less_eq)

definition to_be_bytes :: "64 word \<Rightarrow> byte list" where
  "to_be_bytes w = map (\<lambda>i. ucast (drop_bit (8 * (7 - i)) w)) [0..<8]"

lemma length_to_be_bytes [simp]: "length (to_be_bytes w) = 8"
  by (simp add: to_be_bytes_def)

subsection \<open>Unix paths\<close>

text \<open>
  \<open>std::path::PathBuf\<close> as its string: \<open>join\<close> (an absolute argument replaces the whole
  path), \<open>is_absolute\<close>, and \<open>parent\<close> for paths without \<open>.\<close> components.
\<close>

definition is_absolute :: "string \<Rightarrow> bool" where
  "is_absolute p \<longleftrightarrow> starts_with p ''/''"

definition path_join :: "string \<Rightarrow> string \<Rightarrow> string" where
  "path_join a b =
     (if is_absolute b then b
      else if a = [] \<or> ends_with a ''/'' then a @ b
      else a @ ''/'' @ b)"

definition path_parent :: "string \<Rightarrow> string option" where
  "path_parent p =
     (let s = trim_end_matches CHR ''/'' p in
      if s = [] then None
      else case rsplit_once CHR ''/'' s of
             None \<Rightarrow> Some []
           | Some (a, _) \<Rightarrow>
               (let d = trim_end_matches CHR ''/'' a in Some (if d = [] then ''/'' else d)))"

lemma path_parent_join:
  assumes "d \<noteq> []" "last d \<noteq> CHR ''/''" and "f \<noteq> []" "CHR ''/'' \<notin> set f"
  shows "path_parent (path_join d f) = Some d"
proof -
  from assms(2) have d: "\<not> ends_with d ''/''" by (auto simp: ends_with_iff)
  from assms(3,4) have "\<not> is_absolute f"
    by (cases f) (auto simp: is_absolute_def starts_with_def)
  with d assms(1) have j: "path_join d f = (d @ ''/'') @ f" by (simp add: path_join_def)
  from assms(3,4) have "last f \<noteq> CHR ''/''" using last_in_set by metis
  then have t: "trim_end_matches CHR ''/'' ((d @ ''/'') @ f) = (d @ ''/'') @ f"
    using assms(3) unfolding trim_end_matches_def by (intro trim_end_by_id) simp
  have td: "trim_end_matches CHR ''/'' d = d"
    using assms(1,2) unfolding trim_end_matches_def by (intro trim_end_by_id) simp
  have "rsplit_once CHR ''/'' ((d @ ''/'') @ f) = Some (d, f)"
    using rsplit_once_append [OF assms(4), of d] by simp
  with j t td assms(1) show ?thesis by (simp add: path_parent_def Let_def)
qed

subsection \<open>The file system\<close>

text \<open>
  Files as a map from path to content. A write either replaces the content or fails with an
  I/O error, given by the environment together with what the failed write left at the path
  (a truncated file, a partial one, or none).
\<close>

type_synonym files = "string \<rightharpoonup> string"
type_synonym io_faults = "string \<Rightarrow> (string \<times> string option) option"

definition fs_write :: "io_faults \<Rightarrow> string \<Rightarrow> string \<Rightarrow> files \<Rightarrow> unit res \<times> files" where
  "fs_write faults p c fs =
     (case faults p of
        None \<Rightarrow> (Ok (), fs(p \<mapsto> c))
      | Some (e, left) \<Rightarrow> (Err e, fs(p := left)))"

lemma fs_write_other: "q \<noteq> p \<Longrightarrow> snd (fs_write faults p c fs) q = fs q"
  by (simp add: fs_write_def split: option.splits)

lemma fs_write_ok: "fst (fs_write faults p c fs) = Ok () \<Longrightarrow> snd (fs_write faults p c fs) p = Some c"
  by (simp add: fs_write_def split: option.splits prod.splits)

subsection \<open>Lines\<close>

definition nl :: string where
  "nl = [CHR 0x0A]"

text \<open>A single quote, for messages that quote a value.\<close>

definition sq :: string where
  "sq = [CHR 0x27]"

definition lines_of :: "string \<Rightarrow> string list" where
  "lines_of s = split_on (CHR 0x0A) s"

lemma split_on_append: "c \<notin> set a \<Longrightarrow> split_on c (a @ c # b) = a # split_on c b"
  by (induction a) auto

lemma split_on_none: "c \<notin> set a \<Longrightarrow> split_on c a = [a]"
  by (induction a) auto

lemma lines_of_nl [str_simps]: "CHR 0x0A \<notin> set a \<Longrightarrow> lines_of (a @ nl @ b) = a # lines_of b"
  by (simp add: lines_of_def nl_def split_on_append)

lemma lines_of_Nil [str_simps]: "lines_of [] = [[]]"
  by (simp add: lines_of_def)

lemma nl_not_digit: "\<not> is_digit (CHR 0x0A)"
  by (simp add: is_digit_def chr_code_def)

lemma nl_notin_show_nat [simp]: "CHR 0x0A \<notin> set (show_nat n)"
  using show_nat_set nl_not_digit by blast

subsection \<open>JSON values\<close>

text \<open>
  \<open>serde_json::Value\<close>, with integers for numbers (no component reads a number) and an object
  as the list of its members; \<open>get\<close> finds a member by name.
\<close>

datatype json =
    JNull
  | JBool bool
  | JNum int
  | JStr string
  | JArr "json list"
  | JObj "(string \<times> json) list"

fun as_object :: "json \<Rightarrow> (string \<times> json) list option" where
  "as_object (JObj ms) = Some ms"
| "as_object _ = None"

fun as_str :: "json \<Rightarrow> string option" where
  "as_str (JStr s) = Some s"
| "as_str _ = None"

fun as_bool :: "json \<Rightarrow> bool option" where
  "as_bool (JBool b) = Some b"
| "as_bool _ = None"

definition json_get :: "string \<Rightarrow> (string \<times> json) list \<Rightarrow> json option" where
  "json_get k ms = map_of ms k"

definition member_str :: "string \<Rightarrow> (string \<times> json) list \<Rightarrow> string option" where
  "member_str k ms = Option.bind (json_get k ms) as_str"

end
