(* ===== verification/Key_Management.thy ===== *)
theory Key_Management
  imports Prelude
begin

section \<open>Broadcast keys (\<open>src/services/beacon_management/key_management.rs\<close>)\<close>

text \<open>
  The table \<open>broadcast_keys\<close> is the list of its rows; the four SQL statements of the source
  are functions on it, with the primary key on \<open>key_id\<close> (\<open>migrations/0004\<close>) enforced by
  the insert. A statement can also fail in the driver: \<open>faults\<close> gives the error of the
  statements that do. The clock, the random bytes and HMAC-SHA256 are arguments.

  The locale \<open>key_store\<close> states what the manager relies on of its table and carries the
  invariant proof; it is interpreted on the table below.
\<close>

subsection \<open>Data\<close>

record broadcast_key =
  bk_key_id :: "byte list"
  bk_key_material :: "byte list"
  bk_rotates_at :: int
  bk_expires_at :: int

record key_row =
  kr_key_id :: "byte list"
  kr_key_material :: "byte list"
  kr_created_at :: int
  kr_rotates_at :: int
  kr_expires_at :: int
  kr_is_active :: int

type_synonym key_table = "key_row list"

record key_management =
  km_rotation_interval :: nat
  km_key_expiry :: nat

datatype key_stmt = SelectActive | RetireActive | InsertKey | DeleteExpired

type_synonym key_faults = "key_stmt \<Rightarrow> string option"

subsection \<open>The SQL statements\<close>

text \<open>
  \<open>SELECT .. WHERE is_active = 1 AND rotates_at > ? ORDER BY rotates_at DESC LIMIT 1\<close>: a row
  of greatest \<open>rotates_at\<close> among the candidates.
\<close>

fun latest :: "key_row list \<Rightarrow> key_row option" where
  "latest [] = None"
| "latest (r # rs) =
     (case latest rs of
        None \<Rightarrow> Some r
      | Some m \<Rightarrow> Some (if kr_rotates_at m \<le> kr_rotates_at r then r else m))"

definition select_active :: "int \<Rightarrow> key_table \<Rightarrow> key_row option" where
  "select_active now t = latest (filter (\<lambda>r. kr_is_active r = 1 \<and> now < kr_rotates_at r) t)"

definition retire_active :: "key_table \<Rightarrow> key_table" where
  "retire_active t = map (\<lambda>r. if kr_is_active r = 1 then r\<lparr>kr_is_active := 0\<rparr> else r) t"

definition insert_key :: "string \<Rightarrow> key_row \<Rightarrow> key_table \<Rightarrow> unit res \<times> key_table" where
  "insert_key unique_error r t =
     (if kr_key_id r \<in> kr_key_id ` set t then (Err unique_error, t) else (Ok (), t @ [r]))"

definition delete_expired :: "int \<Rightarrow> key_table \<Rightarrow> key_table" where
  "delete_expired now t = filter (\<lambda>r. \<not> kr_expires_at r \<le> now) t"

subsection \<open>Helpers\<close>

text \<open>
  \<open>SystemTime::now().duration_since(UNIX_EPOCH)\<close> in whole seconds; a clock before the epoch
  reads as 0, and the \<open>u64\<close> of seconds is cast to \<open>i64\<close>.
\<close>

definition unix_now :: "int \<Rightarrow> int" where
  "unix_now system_secs = wrap_i64 (max 0 system_secs)"

fun hex_byte :: "byte \<Rightarrow> string" where
  "hex_byte b = [hex_digit (unat b div 16), hex_digit (unat b mod 16)]"

definition hex_encode :: "byte list \<Rightarrow> string" where
  "hex_encode bs = concat (map hex_byte bs)"

definition build_key :: "byte list \<Rightarrow> byte list \<Rightarrow> int \<Rightarrow> int \<Rightarrow> broadcast_key res" where
  "build_key key_id_bytes key_material_bytes rotates_at expires_at =
     (if length key_id_bytes \<noteq> 4
      then Err (''Corrupt broadcast_keys row: key_id is '' @ show_nat (length key_id_bytes)
                @ '' bytes, expected 4'')
      else if length key_material_bytes \<noteq> 16
      then Err (''Corrupt broadcast_keys row: key_material is '' @ show_nat (length key_material_bytes)
                @ '' bytes, expected 16'')
      else Ok \<lparr>bk_key_id = key_id_bytes, bk_key_material = key_material_bytes,
               bk_rotates_at = rotates_at, bk_expires_at = expires_at\<rparr>)"

subsection \<open>Operations\<close>

definition key_management_new :: "nat \<Rightarrow> nat \<Rightarrow> key_management" where
  "key_management_new rotation_interval key_expiry =
     \<lparr>km_rotation_interval = rotation_interval, km_key_expiry = key_expiry\<rparr>"

text \<open>The inputs of one call: clock reading of \<open>rotate_key\<close>, random bytes, driver errors.\<close>

record rotate_env =
  re_now :: int
  re_key_material :: "byte list"
  re_key_id :: "byte list"
  re_faults :: key_faults
  re_unique_error :: string

definition rotate_key ::
  "key_management \<Rightarrow> rotate_env \<Rightarrow> key_table \<Rightarrow> broadcast_key res \<times> key_table" where
  "rotate_key km env t =
     (let now = re_now env;
          rotates_at = i64_add now (wrap_i64 (int (km_rotation_interval km)));
          expires_at = i64_add now (wrap_i64 (int (km_key_expiry km)));
          key_material = re_key_material env;
          key_id = re_key_id env in
      case re_faults env RetireActive of
        Some e \<Rightarrow> (Err (''Failed to retire active broadcast keys: '' @ e), t)
      | None \<Rightarrow>
          (let t1 = retire_active t in
           case re_faults env InsertKey of
             Some e \<Rightarrow> (Err (''Failed to insert new broadcast key: '' @ e), t1)
           | None \<Rightarrow>
               (case insert_key (re_unique_error env)
                       \<lparr>kr_key_id = key_id, kr_key_material = key_material, kr_created_at = now,
                        kr_rotates_at = rotates_at, kr_expires_at = expires_at, kr_is_active = 1\<rparr> t1 of
                  (Err e, t2) \<Rightarrow> (Err (''Failed to insert new broadcast key: '' @ e), t2)
                | (Ok _, t2) \<Rightarrow>
                    (Ok \<lparr>bk_key_id = key_id, bk_key_material = key_material,
                         bk_rotates_at = rotates_at, bk_expires_at = expires_at\<rparr>, t2))))"

definition get_or_rotate_key ::
  "key_management \<Rightarrow> int \<Rightarrow> rotate_env \<Rightarrow> key_table \<Rightarrow> broadcast_key res \<times> key_table" where
  "get_or_rotate_key km now env t =
     (case re_faults env SelectActive of
        Some e \<Rightarrow> (Err (''Failed to query broadcast keys: '' @ e), t)
      | None \<Rightarrow>
          (case select_active now t of
             Some r \<Rightarrow> (build_key (kr_key_id r) (kr_key_material r) (kr_rotates_at r) (kr_expires_at r), t)
           | None \<Rightarrow> rotate_key km env t))"

definition sweep_expired :: "int \<Rightarrow> key_faults \<Rightarrow> key_table \<Rightarrow> nat res \<times> key_table" where
  "sweep_expired now faults t =
     (case faults DeleteExpired of
        Some e \<Rightarrow> (Err (''Failed to sweep expired broadcast keys: '' @ e), t)
      | None \<Rightarrow> (let t' = delete_expired now t in (Ok (length t - length t'), t')))"

definition token_slot :: "key_management \<Rightarrow> int \<Rightarrow> 64 word" where
  "token_slot km now = (word_of_int now :: 64 word) div of_nat (max (km_rotation_interval km) 1)"

definition generate_token ::
  "(byte list \<Rightarrow> byte list \<Rightarrow> byte list) \<Rightarrow> key_management \<Rightarrow> int \<Rightarrow> broadcast_key \<Rightarrow> byte list" where
  "generate_token hmac km now key =
     take 4 (hmac (bk_key_material key) (to_be_bytes (token_slot km now)))"

definition ota_fields ::
  "(byte list \<Rightarrow> byte list \<Rightarrow> byte list) \<Rightarrow> key_management \<Rightarrow> int \<Rightarrow> broadcast_key \<Rightarrow>
     string \<times> string" where
  "ota_fields hmac km now key =
     (hex_encode (bk_key_id key), hex_encode (generate_token hmac km now key))"

subsection \<open>Facts about the table\<close>

definition active_rows :: "key_table \<Rightarrow> key_row list" where
  "active_rows t = filter (\<lambda>r. kr_is_active r = 1) t"

lemma latest_None_iff [simp]: "latest rs = None \<longleftrightarrow> rs = []"
  by (cases rs) (auto split: option.splits)

lemma latest_SomeD: "latest rs = Some m \<Longrightarrow> m \<in> set rs \<and> (\<forall>r\<in>set rs. kr_rotates_at r \<le> kr_rotates_at m)"
proof (induction rs arbitrary: m)
  case (Cons r rs)
  show ?case
  proof (cases "latest rs")
    case None
    then show ?thesis using Cons.prems by simp
  next
    case (Some m')
    then show ?thesis using Cons.IH [OF Some] Cons.prems by (auto split: if_splits)
  qed
qed simp

lemma select_active_SomeD:
  "select_active now t = Some r \<Longrightarrow>
     r \<in> set t \<and> kr_is_active r = 1 \<and> now < kr_rotates_at r \<and>
     (\<forall>q\<in>set t. kr_is_active q = 1 \<longrightarrow> kr_rotates_at q \<le> kr_rotates_at r)"
  unfolding select_active_def by (drule latest_SomeD) force

lemma select_active_None_iff:
  "select_active now t = None \<longleftrightarrow> (\<forall>r\<in>set t. kr_is_active r = 1 \<longrightarrow> kr_rotates_at r \<le> now)"
  by (auto simp: select_active_def filter_empty_conv not_less)

lemma active_rows_retire [simp]: "active_rows (retire_active t) = []"
  by (auto simp: active_rows_def retire_active_def filter_empty_conv)

lemma key_ids_retire [simp]: "map kr_key_id (retire_active t) = map kr_key_id t"
  by (auto simp: retire_active_def)

lemma length_retire [simp]: "length (retire_active t) = length t"
  by (simp add: retire_active_def)

lemma active_rows_append [simp]: "active_rows (t @ u) = active_rows t @ active_rows u"
  by (simp add: active_rows_def)

lemma active_rows_delete: "set (active_rows (delete_expired now t)) \<subseteq> set (active_rows t)"
  by (auto simp: active_rows_def delete_expired_def)

lemma active_rows_delete_eq:
  "active_rows (delete_expired now t) = filter (\<lambda>r. \<not> kr_expires_at r \<le> now) (active_rows t)"
  by (simp add: active_rows_def delete_expired_def conj_commute)

lemma length_active_delete: "length (active_rows (delete_expired now t)) \<le> length (active_rows t)"
  by (simp add: active_rows_delete_eq)

subsection \<open>The store's interface\<close>

text \<open>
  What the manager relies on of its store: retiring leaves nothing active, adding an active
  key makes it active or changes nothing, sweeping never activates anything. From these laws
  alone a rotation followed by any number of sweeps has at most one active key.
\<close>

locale key_store =
  fixes active :: "'t \<Rightarrow> 'k list"
    and is_act :: "'k \<Rightarrow> bool"
    and retire :: "'t \<Rightarrow> 't"
    and add :: "'k \<Rightarrow> 't \<Rightarrow> unit res \<times> 't"
    and sweep :: "int \<Rightarrow> 't \<Rightarrow> 't"
  assumes active_retire: "active (retire t) = []"
    and add_ok: "is_act k \<Longrightarrow> add k t = (Ok u, t') \<Longrightarrow> active t' = active t @ [k]"
    and add_err: "add k t = (Err e, t') \<Longrightarrow> t' = t"
    and active_sweep: "\<exists>p. active (sweep now t) = filter p (active t)"
begin

definition at_most_one :: "'t \<Rightarrow> bool" where
  "at_most_one t \<longleftrightarrow> length (active t) \<le> 1"

lemma at_most_one_rotate: "is_act k \<Longrightarrow> at_most_one (snd (add k (retire t)))"
proof -
  assume k: "is_act k"
  obtain r t' where a: "add k (retire t) = (r, t')" by (meson surj_pair)
  show ?thesis
  proof (cases r)
    case (Ok u)
    then show ?thesis using a add_ok [OF k, of "retire t" u t'] by (simp add: at_most_one_def active_retire)
  next
    case (Err e)
    then show ?thesis using a add_err [of k "retire t" e t'] by (simp add: at_most_one_def active_retire)
  qed
qed

lemma at_most_one_retire: "at_most_one (retire t)"
  by (simp add: at_most_one_def active_retire)

lemma rotate_active:
  "is_act k \<Longrightarrow> add k (retire t) = (Ok u, t') \<Longrightarrow> active t' = [k]"
  using add_ok [of k "retire t" u t'] by (simp add: active_retire)

lemma at_most_one_sweep: "at_most_one t \<Longrightarrow> at_most_one (sweep now t)"
  using active_sweep [of now t] by (auto simp: at_most_one_def intro: order_trans [OF length_filter_le])

end

interpretation keys: key_store active_rows "\<lambda>r. kr_is_active r = 1" retire_active
  "insert_key unique_error" delete_expired for unique_error
proof unfold_locales
  show "active_rows (retire_active t) = []" for t by simp
  show "active_rows t' = active_rows t @ [k]"
    if "kr_is_active k = 1" "insert_key unique_error k t = (Ok u, t')" for k t u t'
    using that by (auto simp: insert_key_def active_rows_def split: if_splits)
  show "t' = t" if "insert_key unique_error k t = (Err e, t')" for k t e t'
    using that by (auto simp: insert_key_def split: if_splits)
  show "\<exists>p. active_rows (delete_expired now t) = filter p (active_rows t)" for now t
    using active_rows_delete_eq by blast
qed

subsection \<open>The table invariant\<close>

definition row_wf :: "key_management \<Rightarrow> key_row \<Rightarrow> bool" where
  "row_wf km r \<longleftrightarrow> length (kr_key_id r) = 4 \<and> length (kr_key_material r) = 16 \<and>
     kr_rotates_at r = i64_add (kr_created_at r) (wrap_i64 (int (km_rotation_interval km))) \<and>
     kr_expires_at r = i64_add (kr_created_at r) (wrap_i64 (int (km_key_expiry km)))"

definition key_wf :: "key_management \<Rightarrow> key_table \<Rightarrow> bool" where
  "key_wf km t \<longleftrightarrow> distinct (map kr_key_id t) \<and> length (active_rows t) \<le> 1 \<and> list_all (row_wf km) t"

text \<open>The random arrays have the sizes their Rust types say.\<close>

definition env_ok :: "rotate_env \<Rightarrow> bool" where
  "env_ok env \<longleftrightarrow> length (re_key_id env) = 4 \<and> length (re_key_material env) = 16"

definition new_row :: "key_management \<Rightarrow> rotate_env \<Rightarrow> key_row" where
  "new_row km env =
     \<lparr>kr_key_id = re_key_id env, kr_key_material = re_key_material env, kr_created_at = re_now env,
      kr_rotates_at = i64_add (re_now env) (wrap_i64 (int (km_rotation_interval km))),
      kr_expires_at = i64_add (re_now env) (wrap_i64 (int (km_key_expiry km))), kr_is_active = 1\<rparr>"

definition key_of_row :: "key_row \<Rightarrow> broadcast_key" where
  "key_of_row r = \<lparr>bk_key_id = kr_key_id r, bk_key_material = kr_key_material r,
     bk_rotates_at = kr_rotates_at r, bk_expires_at = kr_expires_at r\<rparr>"

lemma rotate_key_cases:
  obtains (retire_failed) e where "rotate_key km env t = (Err e, t)"
  | (insert_failed) e where "rotate_key km env t = (Err e, retire_active t)"
  | (rotated) "re_key_id env \<notin> kr_key_id ` set t"
      "insert_key (re_unique_error env) (new_row km env) (retire_active t) =
         (Ok (), retire_active t @ [new_row km env])"
      "rotate_key km env t = (Ok (key_of_row (new_row km env)), retire_active t @ [new_row km env])"
proof -
  have img: "kr_key_id ` set (retire_active t) = kr_key_id ` set t"
    by (metis key_ids_retire set_map)
  show ?thesis
    using retire_failed insert_failed rotated
    by (cases "re_faults env RetireActive"; cases "re_faults env InsertKey";
        cases "re_key_id env \<in> kr_key_id ` set t")
      (auto simp: rotate_key_def Let_def insert_key_def new_row_def key_of_row_def img)
qed

lemma row_wf_inactive: "row_wf km r \<Longrightarrow> row_wf km (r\<lparr>kr_is_active := a\<rparr>)"
  by (simp add: row_wf_def)

lemma key_wf_retire: "key_wf km t \<Longrightarrow> key_wf km (retire_active t)"
proof -
  assume wf: "key_wf km t"
  then have "list_all (row_wf km) (retire_active t)"
    by (auto simp: key_wf_def list_all_iff retire_active_def row_wf_inactive)
  with wf show ?thesis by (simp add: key_wf_def)
qed

lemma key_wf_rotate_key [inv_intros]:
  assumes "key_wf km t" and "env_ok env"
  shows "key_wf km (snd (rotate_key km env t))"
proof (cases rule: rotate_key_cases [of km env t])
  case rotated
  have "length (active_rows (retire_active t @ [new_row km env])) \<le> 1"
    using keys.at_most_one_rotate [of "new_row km env" "re_unique_error env" t] rotated(2)
    by (simp add: keys.at_most_one_def new_row_def)
  moreover have "row_wf km (new_row km env)"
    using assms(2) by (simp add: row_wf_def new_row_def env_ok_def)
  moreover have "key_wf km (retire_active t)" using assms(1) by (rule key_wf_retire)
  moreover have "kr_key_id ` set (retire_active t) = kr_key_id ` set t"
    by (metis key_ids_retire set_map)
  ultimately show ?thesis using rotated by (simp add: key_wf_def new_row_def)
qed (use assms key_wf_retire in auto)

lemma key_wf_get_or_rotate [inv_intros]:
  "key_wf km t \<Longrightarrow> env_ok env \<Longrightarrow> key_wf km (snd (get_or_rotate_key km now env t))"
  by (simp add: get_or_rotate_key_def key_wf_rotate_key split: option.splits)

lemma key_wf_sweep [inv_intros]: "key_wf km t \<Longrightarrow> key_wf km (snd (sweep_expired now faults t))"
  using length_active_delete [of now t]
  by (auto simp: key_wf_def sweep_expired_def delete_expired_def Let_def list_all_iff
      distinct_map_filter split: option.splits)

datatype key_event =
    GetOrRotate int rotate_env
  | Sweep int key_faults

fun key_step :: "key_management \<Rightarrow> key_event \<Rightarrow> key_table \<Rightarrow> key_table" where
  "key_step km (GetOrRotate now env) t = snd (get_or_rotate_key km now env t)"
| "key_step km (Sweep now faults) t = snd (sweep_expired now faults t)"

fun event_ok :: "key_event \<Rightarrow> bool" where
  "event_ok (GetOrRotate now env) = env_ok env"
| "event_ok (Sweep now faults) = True"

lemma key_wf_step [inv_intros]: "key_wf km t \<Longrightarrow> event_ok ev \<Longrightarrow> key_wf km (key_step km ev t)"
  by (cases ev) (auto intro: inv_intros)

subsection \<open>Times and retention\<close>

text \<open>The clock is far enough from the end of the \<open>i64\<close> range that no deadline wraps.\<close>

definition clock_ok :: "key_management \<Rightarrow> int \<Rightarrow> bool" where
  "clock_ok km now \<longleftrightarrow> 0 \<le> now \<and> now + int (km_rotation_interval km) < 2 ^ 63
     \<and> now + int (km_key_expiry km) < 2 ^ 63"

lemma i64_add_interval:
  assumes "0 \<le> now" and "now + int n < 2 ^ 63"
  shows "i64_add now (wrap_i64 (int n)) = now + int n"
proof -
  have "wrap_i64 (int n) = int n" using assms by (intro wrap_i64_id) auto
  then show ?thesis unfolding i64_add_def using assms by (simp add: wrap_i64_id)
qed

lemma row_times:
  assumes "row_wf km r" and "clock_ok km (kr_created_at r)"
  shows "kr_rotates_at r = kr_created_at r + int (km_rotation_interval km)"
    and "kr_expires_at r = kr_created_at r + int (km_key_expiry km)"
  using assms by (simp_all add: row_wf_def clock_ok_def i64_add_interval)

lemma new_row_times:
  assumes "clock_ok km (re_now env)"
  shows "kr_rotates_at (new_row km env) = re_now env + int (km_rotation_interval km)"
    and "kr_expires_at (new_row km env) = re_now env + int (km_key_expiry km)"
  using assms by (simp_all add: new_row_def clock_ok_def i64_add_interval)

lemma active_rows_single:
  assumes "key_wf km t" and "r \<in> set t" and "kr_is_active r = 1"
  shows "active_rows t = [r]"
proof -
  have "r \<in> set (active_rows t)" using assms by (simp add: active_rows_def)
  moreover have "length (active_rows t) \<le> 1" using assms by (simp add: key_wf_def)
  ultimately show ?thesis by (cases "active_rows t") auto
qed

lemma select_active_single:
  assumes "active_rows t = [r]" and "now < kr_rotates_at r"
  shows "select_active now t = Some r"
proof -
  have "filter (\<lambda>r. kr_is_active r = 1 \<and> now < kr_rotates_at r) t
      = filter (\<lambda>r. now < kr_rotates_at r) (active_rows t)"
    by (simp add: active_rows_def conj_commute)
  with assms show ?thesis by (simp add: select_active_def)
qed

lemma build_key_row: "row_wf km r \<Longrightarrow>
  build_key (kr_key_id r) (kr_key_material r) (kr_rotates_at r) (kr_expires_at r) = Ok (key_of_row r)"
  by (simp add: build_key_def key_of_row_def row_wf_def)

text \<open>Whatever key a call hands out, it is the one active row of the table it leaves.\<close>

lemma get_or_rotate_active:
  assumes "key_wf km t" and "env_ok env" and "get_or_rotate_key km now env t = (Ok k, t')"
  obtains (kept) r where "t' = t" "active_rows t' = [r]" "k = key_of_row r" "now < kr_rotates_at r"
  | (rotated) "t' = retire_active t @ [new_row km env]" "active_rows t' = [new_row km env]"
      "k = key_of_row (new_row km env)"
proof (cases "select_active now t")
  case (Some r)
  then have r: "r \<in> set t" "kr_is_active r = 1" "now < kr_rotates_at r"
    using select_active_SomeD by blast+
  then have "row_wf km r" using assms(1) by (auto simp: key_wf_def list_all_iff)
  with Some assms(3) have "k = key_of_row r" "t' = t"
    by (auto simp: get_or_rotate_key_def build_key_row split: option.splits)
  with r assms(1) show ?thesis using kept active_rows_single by blast
next
  case None
  with assms(3) have rot: "rotate_key km env t = (Ok k, t')"
    by (auto simp: get_or_rotate_key_def split: option.splits)
  show ?thesis
  proof (cases rule: rotate_key_cases [of km env t])
    case rotated
    then have "t' = retire_active t @ [new_row km env]" "k = key_of_row (new_row km env)"
      using rot by auto
    moreover have "active_rows (retire_active t @ [new_row km env]) = [new_row km env]"
      using keys.rotate_active [OF _ rotated(2)] by (simp add: new_row_def)
    ultimately show ?thesis using that(2) by simp
  qed (use rot in auto)
qed

lemma sweep_keeps_active:
  assumes "active_rows t = [r]" and "now < kr_expires_at r"
  shows "active_rows (snd (sweep_expired now faults t)) = [r]"
  using assms by (auto simp: sweep_expired_def Let_def active_rows_delete_eq split: option.splits)

lemma get_again:
  assumes "key_wf km t" and "active_rows t = [r]" and "now < kr_rotates_at r"
    and "re_faults env SelectActive = None"
  shows "get_or_rotate_key km now env t = (Ok (key_of_row r), t)"
proof -
  have "r \<in> set t" using assms(2) filter_is_subset [of "\<lambda>r. kr_is_active r = 1" t] by (simp add: active_rows_def)
  then have "row_wf km r" using assms(1) by (auto simp: key_wf_def list_all_iff)
  with assms show ?thesis
    by (simp add: get_or_rotate_key_def select_active_single build_key_row)
qed

subsection \<open>Tokens and hexadecimal\<close>

lemma unat_token_slot:
  assumes "0 \<le> now" and "now < 2 ^ 63" and "km_rotation_interval km < 2 ^ 32"
  shows "unat (token_slot km now) = nat now div max (km_rotation_interval km) 1"
proof -
  have "unat (word_of_int now :: 64 word) = nat now"
    using assms(1,2) by (simp add: unsigned_of_int take_bit_int_eq_self)
  moreover have "unat (of_nat (max (km_rotation_interval km) 1) :: 64 word) = max (km_rotation_interval km) 1"
    using assms(3) by (simp add: unsigned_of_nat take_bit_nat_eq_self)
  ultimately show ?thesis unfolding token_slot_def by (simp add: unat_div)
qed

fun hex_decode :: "string \<Rightarrow> byte list option" where
  "hex_decode [] = Some []"
| "hex_decode [c] = None"
| "hex_decode (a # b # s) =
     (case (hex_val a, hex_val b, hex_decode s) of
        (Some x, Some y, Some bs) \<Rightarrow> Some (of_nat (16 * x + y) # bs)
      | _ \<Rightarrow> None)"

lemma hex_encode_Cons: "hex_encode (b # bs) = hex_digit (unat b div 16) # hex_digit (unat b mod 16) # hex_encode bs"
  by (simp add: hex_encode_def)

lemma byte_nibbles: "unat (b :: byte) div 16 < 16" "unat b mod 16 < 16"
proof -
  have "unat b < 256" using unsigned_less [of b, where 'a = nat] by simp
  then show "unat b div 16 < 16" by simp
qed simp

lemma hex_decode_encode: "hex_decode (hex_encode bs) = Some bs"
proof (induction bs)
  case Nil
  then show ?case by (simp add: hex_encode_def)
next
  case (Cons b bs)
  have "16 * (unat b div 16) + unat b mod 16 = unat b" by simp
  then have "(of_nat (16 * (unat b div 16) + unat b mod 16) :: byte) = b"
    by (simp only: of_nat_unat ucast_id)
  with Cons show ?case by (simp only: hex_encode_Cons hex_decode.simps hex_val_digit byte_nibbles) simp
qed

lemma length_hex_encode: "length (hex_encode bs) = 2 * length bs"
  by (induction bs) (simp_all add: hex_encode_def)

lemma hex_encode_chars: "c \<in> set (hex_encode bs) \<Longrightarrow> \<exists>y. hex_val c = Some y"
  by (induction bs) (auto simp: hex_encode_def hex_val_digit byte_nibbles)

subsection \<open>Properties\<close>

text \<open>A concrete manager and concrete calls, for the witnesses.\<close>

definition ex_km :: key_management where
  "ex_km = key_management_new 120 240"

definition ex_env :: "int \<Rightarrow> byte \<Rightarrow> rotate_env" where
  "ex_env now b = \<lparr>re_now = now, re_key_material = replicate 16 b, re_key_id = replicate 4 b,
     re_faults = (\<lambda>_. None), re_unique_error = ''UNIQUE constraint failed''\<rparr>"

lemmas ex_simps = ex_km_def ex_env_def key_management_new_def env_ok_def key_wf_def row_wf_def
  clock_ok_def active_rows_def get_or_rotate_key_def rotate_key_def retire_active_def insert_key_def
  select_active_def sweep_expired_def delete_expired_def key_of_row_def build_key_def Let_def
  i64_add_def wrap_i64_def list_all_iff

text \<open>C8: from an empty table, after any sequence of key requests and sweeps, with any clock
  readings and any database failures in between, the table has distinct key identifiers, at
  most one active key, and only rows of the right shape.\<close>

theorem key_table_invariant:
  assumes "list_all event_ok evs"
  shows "key_wf km (fold (key_step km) evs [])"
proof -
  have "key_wf km (fold (key_step km) evs t)" if "key_wf km t" for t
    using assms that by (induction evs arbitrary: t) (auto intro: inv_intros)
  then show ?thesis by (simp add: key_wf_def active_rows_def)
qed

theorem key_table_invariant_witness:
  "key_wf ex_km (fold (key_step ex_km)
     [GetOrRotate 1000 (ex_env 1000 1), Sweep 1000 (\<lambda>_. None), GetOrRotate 1120 (ex_env 1120 2)] [])"
  by (rule key_table_invariant) (simp add: ex_env_def env_ok_def)



text \<open>C24: the key stays the same until its deadline. When retired keys outlive the rotation
  interval, as the configuration asks, a key returned once is returned again by every later
  request before its \<open>rotates_at\<close>, a sweep in between notwithstanding, and the request leaves
  the table alone.\<close>

theorem key_stable:
  assumes "key_wf km t" and "env_ok env" and "get_or_rotate_key km now env t = (Ok k, t')"
    and "\<forall>r\<in>set t'. clock_ok km (kr_created_at r)"
    and "km_rotation_interval km < km_key_expiry km"
    and "sweep_time < bk_rotates_at k" and "later < bk_rotates_at k"
    and "re_faults env' SelectActive = None"
  shows "get_or_rotate_key km later env' (snd (sweep_expired sweep_time faults t'))
    = (Ok k, snd (sweep_expired sweep_time faults t'))"
proof -
  have wf': "key_wf km t'" using key_wf_get_or_rotate [OF assms(1,2), of now] assms(3) by simp
  obtain r where r: "active_rows t' = [r]" "k = key_of_row r"
    using assms(1,2,3) by (cases rule: get_or_rotate_active) auto
  then have mem: "r \<in> set t'" using filter_is_subset [of "\<lambda>r. kr_is_active r = 1" t'] by (simp add: active_rows_def)
  then have "row_wf km r" "clock_ok km (kr_created_at r)"
    using wf' assms(4) by (auto simp: key_wf_def list_all_iff)
  then have "kr_rotates_at r < kr_expires_at r" using row_times [of km r] assms(5) by simp
  moreover have "bk_rotates_at k = kr_rotates_at r" using r by (simp add: key_of_row_def)
  ultimately have "active_rows (snd (sweep_expired sweep_time faults t')) = [r]"
    using r assms(6) by (intro sweep_keeps_active) auto
  then show ?thesis
    using get_again [OF key_wf_sweep [OF wf']] r assms(7,8) by (simp add: key_of_row_def)
qed

theorem key_stable_witness:
  "\<exists>k t'. get_or_rotate_key ex_km 1000 (ex_env 1000 7) [] = (Ok k, t') \<and>
     get_or_rotate_key ex_km 1119 (ex_env 1119 9) (snd (sweep_expired 1060 (\<lambda>_. None) t'))
       = (Ok k, snd (sweep_expired 1060 (\<lambda>_. None) t'))"
proof -
  obtain k t' where g: "get_or_rotate_key ex_km 1000 (ex_env 1000 7) [] = (Ok k, t')"
    by (simp add: ex_simps)
  have "get_or_rotate_key ex_km 1119 (ex_env 1119 9) (snd (sweep_expired 1060 (\<lambda>_. None) t'))
       = (Ok k, snd (sweep_expired 1060 (\<lambda>_. None) t'))"
    by (rule key_stable [OF _ _ g]) (use g in \<open>auto simp: ex_simps\<close>)
  with g show ?thesis by blast
qed

text \<open>How long a key is kept. A sweep \<open>d\<close> seconds after a key's rotation deadline deletes
  it exactly when \<open>d\<close> is at least the difference of the two intervals: the expiry counts from
  the key's creation, so a retired key survives its rotation by the difference only, not by
  \<open>key_expiry\<close>.\<close>

theorem key_retention:
  assumes "row_wf km r" and "clock_ok km (kr_created_at r)" and "r \<in> set t" and "faults DeleteExpired = None"
  shows "r \<in> set (snd (sweep_expired (kr_rotates_at r + d) faults t)) \<longleftrightarrow>
    d < int (km_key_expiry km) - int (km_rotation_interval km)"
  using assms row_times [OF assms(1,2)]
  by (auto simp: sweep_expired_def delete_expired_def Let_def)

theorem key_retention_witness:
  "\<exists>r. kr_rotates_at r = 1120 \<and> r \<in> set (snd (sweep_expired (1120 + 119) (\<lambda>_. None) [r]))
     \<and> r \<notin> set (snd (sweep_expired (1120 + 120) (\<lambda>_. None) [r]))"
proof -
  let ?r = "new_row ex_km (ex_env 1000 7)"
  have h: "row_wf ex_km ?r" "clock_ok ex_km (kr_created_at ?r)" "kr_rotates_at ?r = 1120"
    by (simp_all add: new_row_def ex_simps)
  show ?thesis
    using key_retention [OF h(1,2), of "[?r]" "\<lambda>_. None" 119]
      key_retention [OF h(1,2), of "[?r]" "\<lambda>_. None" 120] h(3)
    by (intro exI [of _ ?r]) (simp add: ex_km_def key_management_new_def)
qed

text \<open>A configured expiry of zero, which the code accepts, makes the sweep of the same
  cycle delete the key that was just generated: the cycle broadcasts a key that is no longer
  stored anywhere.\<close>

theorem zero_expiry_deletes_fresh_key:
  assumes "km_key_expiry km = 0" and "clock_ok km (re_now env)" and "re_now env \<le> sweep_time"
    and "rotate_key km env t = (Ok k, t')" and "faults DeleteExpired = None"
  shows "bk_key_id k \<notin> kr_key_id ` set (snd (sweep_expired sweep_time faults t'))"
proof (cases rule: rotate_key_cases [of km env t])
  case rotated
  then have "t' = retire_active t @ [new_row km env]" "bk_key_id k = re_key_id env"
    using assms(4) by (auto simp: key_of_row_def new_row_def)
  moreover have "kr_key_id ` set (retire_active t) = kr_key_id ` set t"
    by (metis key_ids_retire set_map)
  ultimately show ?thesis
    using rotated(1) new_row_times(2) [OF assms(2)] assms(1,3,5)
    by (auto simp: sweep_expired_def delete_expired_def Let_def)
qed (use assms(4) in auto)

theorem zero_expiry_deletes_fresh_key_witness:
  "\<exists>k t'. rotate_key (key_management_new 120 0) (ex_env 1000 7) [] = (Ok k, t') \<and>
     bk_key_id k \<notin> kr_key_id ` set (snd (sweep_expired 1000 (\<lambda>_. None) t'))"
proof -
  obtain k t' where g: "rotate_key (key_management_new 120 0) (ex_env 1000 7) [] = (Ok k, t')"
    by (simp add: ex_simps)
  have "bk_key_id k \<notin> kr_key_id ` set (snd (sweep_expired 1000 (\<lambda>_. None) t'))"
    by (rule zero_expiry_deletes_fresh_key [OF _ _ _ g]) (simp_all add: ex_simps)
  with g show ?thesis by blast
qed

text \<open>The over-the-air fields. With an HMAC of 32 bytes, both \<open>kid\<close> and \<open>tok\<close> are 8
  lowercase hexadecimal characters, and \<open>kid\<close> decodes to the key's identifier: no two keys
  share a \<open>kid\<close>.\<close>

theorem ota_fields_shape:
  assumes "\<And>a b. length (hmac a b) = 32" and "length (bk_key_id key) = 4"
  shows "(case ota_fields hmac km now key of (kid, tok) \<Rightarrow>
    length kid = 8 \<and> length tok = 8 \<and> list_all (\<lambda>c. hex_val c \<noteq> None) (kid @ tok)
    \<and> hex_decode kid = Some (bk_key_id key) \<and> hex_decode tok = Some (generate_token hmac km now key))"
  using assms
  by (auto simp: ota_fields_def generate_token_def length_hex_encode hex_decode_encode list_all_iff
      dest: hex_encode_chars)

theorem ota_fields_shape_witness:
  "case ota_fields (\<lambda>k m. replicate 32 5) ex_km 1000 (key_of_row (new_row ex_km (ex_env 1000 7)))
     of (kid, tok) \<Rightarrow> length kid = 8 \<and> length tok = 8"
  using ota_fields_shape [of "\<lambda>k m. replicate 32 5" "key_of_row (new_row ex_km (ex_env 1000 7))" ex_km 1000]
  by (auto simp: key_of_row_def new_row_def ex_env_def split: prod.splits)

text \<open>Clock drift. Two clocks at most one rotation interval apart compute token slots that
  differ by at most one, so a beacon that accepts the neighbouring slots accepts the token.\<close>

theorem slot_drift:
  assumes "0 \<le> t1" and "t1 < 2 ^ 63" and "0 \<le> t2" and "t2 < 2 ^ 63"
    and "km_rotation_interval km < 2 ^ 32"
    and "\<bar>t1 - t2\<bar> \<le> int (max (km_rotation_interval km) 1)"
  shows "\<bar>int (unat (token_slot km t1)) - int (unat (token_slot km t2))\<bar> \<le> 1"
proof -
  define n where "n = max (km_rotation_interval km) 1"
  have n: "0 < n" by (simp add: n_def)
  have near: "int (a div n) - int (b div n) \<le> 1" if "int a - int b \<le> int n" for a b
  proof -
    have "a \<le> b + n" using that by linarith
    then have "a div n \<le> (b + n) div n" by (rule div_le_mono)
    also have "(b + n) div n = b div n + 1" using n by (simp add: div_add_self2)
    finally show ?thesis by linarith
  qed
  have "\<bar>int (nat t1 div n) - int (nat t2 div n)\<bar> \<le> 1"
    using near [of "nat t1" "nat t2"] near [of "nat t2" "nat t1"] assms(1,3,6)
    by (simp add: n_def abs_le_iff)
  then show ?thesis using assms by (simp add: unat_token_slot n_def)
qed

theorem slot_drift_witness:
  "\<bar>int (unat (token_slot ex_km 1319)) - int (unat (token_slot ex_km 1320))\<bar> \<le> 1"
  by (rule slot_drift) (simp_all add: ex_km_def key_management_new_def)

end
