(* ===== verification/Supervisor.thy ===== *)
theory Supervisor
  imports Prelude
begin

section \<open>The supervisor (\<open>src/supervisor.rs\<close>, \<open>src/services/mod.rs\<close>)\<close>

text \<open>
  The supervisor owns every managed service, keeps a status per service and processes
  commands one at a time. A \<open>Box<dyn ManagedService>\<close> is a service state \<open>'s\<close> together
  with the method table \<open>managed_service\<close> of its type; each method takes, besides the
  state, a value \<open>'e\<close> with the outcomes of the external calls (binding a port, spawning a
  process, reading a file) it makes during that invocation.

  The locale \<open>managed_laws\<close> is the contract the supervisor relies on; \<open>one_shot\<close> extends
  it with the behaviour of the services that give away a channel end on their first start.
  Both are interpreted on the Hamlet's services in the theories that define them.
\<close>

subsection \<open>Identifiers, statuses, commands\<close>

datatype service_id = Gateway | Mosquitto | MqttClient | CloudGateway | GatewayMqttClient

fun debug_service_id :: "service_id \<Rightarrow> string" where
  "debug_service_id Gateway = ''Gateway''"
| "debug_service_id Mosquitto = ''Mosquitto''"
| "debug_service_id MqttClient = ''MqttClient''"
| "debug_service_id CloudGateway = ''CloudGateway''"
| "debug_service_id GatewayMqttClient = ''GatewayMqttClient''"

datatype service_status =
    Unavailable
  | Stopped
  | Starting
  | Running "32 word"
  | Failed string

datatype supervisor_command =
    Start service_id
  | Stop service_id
  | Restart service_id
  | Status

datatype supervisor_reply =
    Done "unit res"
  | Statuses "service_id \<rightharpoonup> service_status"

record ('e, 's) managed_service =
  svc_start :: "'e \<Rightarrow> 's \<Rightarrow> 32 word res \<times> 's"
  svc_stop :: "'e \<Rightarrow> 's \<Rightarrow> unit res \<times> 's"
  svc_is_running :: "'e \<Rightarrow> 's \<Rightarrow> bool \<times> 's"

record 's supervisor =
  services :: "service_id \<rightharpoonup> 's"
  statuses :: "service_id \<rightharpoonup> service_status"
  channel_buffer :: nat

subsection \<open>Operations\<close>

definition supervisor_new :: "'s supervisor" where
  "supervisor_new = \<lparr>services = Map.empty, statuses = Map.empty, channel_buffer = 32\<rparr>"

definition register :: "service_id \<Rightarrow> 's \<Rightarrow> bool \<Rightarrow> 's supervisor \<Rightarrow> 's supervisor" where
  "register sid svc available sv =
     (let initial_status = (if available then Stopped else Unavailable) in
      sv\<lparr>statuses := (statuses sv)(sid \<mapsto> initial_status),
          services := (services sv)(sid \<mapsto> svc)\<rparr>)"

definition handle_start ::
  "('e, 's) managed_service \<Rightarrow> 'e \<Rightarrow> service_id \<Rightarrow> 's supervisor \<Rightarrow> unit res \<times> 's supervisor" where
  "handle_start vt e sid sv =
     (case statuses sv sid of
        Some Unavailable \<Rightarrow> (Err (debug_service_id sid @ '' is not installed on this system''), sv)
      | Some (Running _) \<Rightarrow> (Err (debug_service_id sid @ '' is already running''), sv)
      | Some Starting \<Rightarrow> (Err (debug_service_id sid @ '' is already starting''), sv)
      | None \<Rightarrow> (Err (debug_service_id sid @ '' is not registered''), sv)
      | Some _ \<Rightarrow>
          (let sv1 = sv\<lparr>statuses := (statuses sv)(sid \<mapsto> Starting)\<rparr> in
           case services sv1 sid of
             None \<Rightarrow> (Err (debug_service_id sid @ '' not registered''), sv1)
           | Some svc \<Rightarrow>
               (case svc_start vt e svc of
                  (Ok pid, svc') \<Rightarrow>
                    (Ok (), sv1\<lparr>services := (services sv1)(sid \<mapsto> svc'),
                                 statuses := (statuses sv1)(sid \<mapsto> Running pid)\<rparr>)
                | (Err er, svc') \<Rightarrow>
                    (Err er, sv1\<lparr>services := (services sv1)(sid \<mapsto> svc'),
                                  statuses := (statuses sv1)(sid \<mapsto> Failed er)\<rparr>))))"

definition handle_stop ::
  "('e, 's) managed_service \<Rightarrow> 'e \<Rightarrow> service_id \<Rightarrow> 's supervisor \<Rightarrow> unit res \<times> 's supervisor" where
  "handle_stop vt e sid sv =
     (case statuses sv sid of
        Some Stopped \<Rightarrow> (Err (debug_service_id sid @ '' is already stopped''), sv)
      | Some Unavailable \<Rightarrow> (Err (debug_service_id sid @ '' is not available''), sv)
      | _ \<Rightarrow>
          (case services sv sid of
             None \<Rightarrow> (Err (debug_service_id sid @ '' not registered''), sv)
           | Some svc \<Rightarrow>
               (case svc_stop vt e svc of
                  (Ok _, svc') \<Rightarrow>
                    (Ok (), sv\<lparr>services := (services sv)(sid \<mapsto> svc'),
                                statuses := (statuses sv)(sid \<mapsto> Stopped)\<rparr>)
                | (Err er, svc') \<Rightarrow>
                    (Err er, sv\<lparr>services := (services sv)(sid \<mapsto> svc')\<rparr>))))"

definition handle_restart ::
  "('e, 's) managed_service \<Rightarrow> 'e \<Rightarrow> 'e \<Rightarrow> service_id \<Rightarrow> 's supervisor \<Rightarrow>
     unit res \<times> 's supervisor" where
  "handle_restart vt e1 e2 sid sv =
     (let sv1 = (case statuses sv sid of
                    Some (Running _) \<Rightarrow> snd (handle_stop vt e1 sid sv)
                  | _ \<Rightarrow> sv)
      in handle_start vt e2 sid sv1)"

fun handle_command ::
  "('e, 's) managed_service \<Rightarrow> 'e \<times> 'e \<Rightarrow> supervisor_command \<Rightarrow> 's supervisor \<Rightarrow>
     supervisor_reply \<times> 's supervisor" where
  "handle_command vt (e1, e2) (Start sid) sv =
     (let (r, sv') = handle_start vt e1 sid sv in (Done r, sv'))"
| "handle_command vt (e1, e2) (Stop sid) sv =
     (let (r, sv') = handle_stop vt e1 sid sv in (Done r, sv'))"
| "handle_command vt (e1, e2) (Restart sid) sv =
     (let (r, sv') = handle_restart vt e1 e2 sid sv in (Done r, sv'))"
| "handle_command vt (e1, e2) Status sv = (Statuses (statuses sv), sv)"

text \<open>The receive loop of \<open>spawn\<close>: commands in queue order, one reply each.\<close>

fun supervisor_loop ::
  "('e, 's) managed_service \<Rightarrow> (('e \<times> 'e) \<times> supervisor_command) list \<Rightarrow> 's supervisor \<Rightarrow>
     supervisor_reply list \<times> 's supervisor" where
  "supervisor_loop vt [] sv = ([], sv)"
| "supervisor_loop vt ((e, cmd) # cmds) sv =
     (let (r, sv1) = handle_command vt e cmd sv;
          (rs, sv2) = supervisor_loop vt cmds sv1
      in (r # rs, sv2))"

text \<open>
  When every handle is gone the loop ends and each service is stopped once, in the
  iteration order of the \<open>services\<close> map (any order; the argument); statuses are not
  updated any more.
\<close>

fun shutdown_services ::
  "('e, 's) managed_service \<Rightarrow> (service_id \<times> 'e) list \<Rightarrow> 's supervisor \<Rightarrow> 's supervisor" where
  "shutdown_services vt [] sv = sv"
| "shutdown_services vt ((sid, e) # rest) sv =
     shutdown_services vt rest
       (case services sv sid of
          None \<Rightarrow> sv
        | Some svc \<Rightarrow> sv\<lparr>services := (services sv)(sid \<mapsto> snd (svc_stop vt e svc))\<rparr>)"

definition spawn ::
  "('e, 's) managed_service \<Rightarrow> (('e \<times> 'e) \<times> supervisor_command) list \<Rightarrow> (service_id \<times> 'e) list \<Rightarrow>
     's supervisor \<Rightarrow> supervisor_reply list \<times> 's supervisor" where
  "spawn vt cmds order sv =
     (let (rs, sv') = supervisor_loop vt cmds sv in (rs, shutdown_services vt order sv'))"

text \<open>
  A handle sends the command (\<open>sent\<close> is false when the channel is closed) and awaits the
  reply (\<open>None\<close> when the supervisor dropped it).
\<close>

definition await_reply :: "bool \<Rightarrow> 'r option \<Rightarrow> 'r res" where
  "await_reply sent reply =
     (if \<not> sent then Err ''supervisor channel closed''
      else ok_or reply ''supervisor dropped reply'')"

definition start_service :: "bool \<Rightarrow> unit res option \<Rightarrow> unit res" where
  "start_service sent reply =
     (case await_reply sent reply of Err e \<Rightarrow> Err e | Ok r \<Rightarrow> r)"

definition stop_service :: "bool \<Rightarrow> unit res option \<Rightarrow> unit res" where
  "stop_service sent reply =
     (case await_reply sent reply of Err e \<Rightarrow> Err e | Ok r \<Rightarrow> r)"

definition restart_service :: "bool \<Rightarrow> unit res option \<Rightarrow> unit res" where
  "restart_service sent reply =
     (case await_reply sent reply of Err e \<Rightarrow> Err e | Ok r \<Rightarrow> r)"

definition get_status ::
  "bool \<Rightarrow> (service_id \<rightharpoonup> service_status) option \<Rightarrow> (service_id \<rightharpoonup> service_status) res" where
  "get_status sent reply = await_reply sent reply"

subsection \<open>Well-formedness: what every command keeps, whatever the services do\<close>

text \<open>
  Between two commands the two maps have the same keys and no service is left in the
  transient status \<open>Starting\<close>.
\<close>

definition sup_wf :: "'s supervisor \<Rightarrow> bool" where
  "sup_wf sv \<longleftrightarrow> dom (services sv) = dom (statuses sv) \<and> Starting \<notin> ran (statuses sv)"

lemmas handler_splits =
  option.splits service_status.splits result.splits prod.splits if_splits

lemma sup_wf_new: "sup_wf supervisor_new"
  by (simp add: sup_wf_def supervisor_new_def)

lemma ran_upd_subset: "ran (m(k \<mapsto> v)) \<subseteq> insert v (ran m)"
  by (auto simp: ran_def)

lemma sup_wf_update:
  assumes "sup_wf sv" and "v \<noteq> Starting"
  shows "sup_wf (sv\<lparr>services := (services sv)(sid \<mapsto> s), statuses := (statuses sv)(sid \<mapsto> v)\<rparr>)"
  using assms ran_upd_subset [of "statuses sv" sid v] by (auto simp: sup_wf_def)

lemma sup_wf_services:
  assumes "sup_wf sv" and "sid \<in> dom (services sv)"
  shows "sup_wf (sv\<lparr>services := (services sv)(sid \<mapsto> s)\<rparr>)"
  using assms by (auto simp: sup_wf_def insert_absorb)

lemma sup_wf_register [inv_intros]: "sup_wf sv \<Longrightarrow> sup_wf (register sid svc available sv)"
  using ran_upd_subset [of "statuses sv" sid "if available then Stopped else Unavailable"]
  by (auto simp: register_def sup_wf_def Let_def split: if_splits)

lemma sup_wf_registered:
  "sup_wf sv \<Longrightarrow> statuses sv sid = Some st \<Longrightarrow> \<exists>svc. services sv sid = Some svc"
  by (auto simp: sup_wf_def dom_def set_eq_iff)

lemma sup_wf_None_iff: "sup_wf sv \<Longrightarrow> services sv sid = None \<longleftrightarrow> statuses sv sid = None"
  by (simp add: sup_wf_def) (metis domIff)

text \<open>What a start does, by cases: refused with nothing changed, or the service was asked.\<close>

lemma handle_start_cases:
  assumes "sup_wf sv"
  obtains (refused) msg where
      "\<forall>st. statuses sv sid = Some st \<longrightarrow> st = Unavailable \<or> (\<exists>p. st = Running p)"
      "handle_start vt e sid sv = (Err (debug_service_id sid @ msg), sv)"
  | (started) svc pid svc' where
      "statuses sv sid = Some Stopped \<or> (\<exists>r. statuses sv sid = Some (Failed r))"
      "services sv sid = Some svc" "svc_start vt e svc = (Ok pid, svc')"
      "handle_start vt e sid sv =
         (Ok (), sv\<lparr>services := (services sv)(sid \<mapsto> svc'),
                     statuses := (statuses sv)(sid \<mapsto> Running pid)\<rparr>)"
  | (failed) svc er svc' where
      "statuses sv sid = Some Stopped \<or> (\<exists>r. statuses sv sid = Some (Failed r))"
      "services sv sid = Some svc" "svc_start vt e svc = (Err er, svc')"
      "handle_start vt e sid sv =
         (Err er, sv\<lparr>services := (services sv)(sid \<mapsto> svc'),
                      statuses := (statuses sv)(sid \<mapsto> Failed er)\<rparr>)"
proof (cases "statuses sv sid = Some Stopped \<or> (\<exists>r. statuses sv sid = Some (Failed r))")
  case True
  then obtain svc where svc: "services sv sid = Some svc"
    using assms sup_wf_registered by blast
  obtain r svc' where "svc_start vt e svc = (r, svc')" by (meson surj_pair)
  with True svc show ?thesis
    using started failed by (cases r) (auto simp: handle_start_def Let_def)
next
  case False
  have ns: "statuses sv sid \<noteq> Some Starting" using assms by (auto simp: sup_wf_def ran_def)
  show ?thesis
  proof (cases "statuses sv sid")
    case None
    then show ?thesis using refused by (auto simp: handle_start_def)
  next
    case (Some st)
    with False ns show ?thesis using refused by (cases st) (auto simp: handle_start_def)
  qed
qed

lemma handle_stop_cases:
  assumes "sup_wf sv"
  obtains (refused) msg where
      "\<forall>st. statuses sv sid = Some st \<longrightarrow> st = Unavailable \<or> st = Stopped"
      "handle_stop vt e sid sv = (Err (debug_service_id sid @ msg), sv)"
  | (stopped) svc svc' where
      "(\<exists>p. statuses sv sid = Some (Running p)) \<or> (\<exists>r. statuses sv sid = Some (Failed r))"
      "services sv sid = Some svc" "svc_stop vt e svc = (Ok (), svc')"
      "handle_stop vt e sid sv =
         (Ok (), sv\<lparr>services := (services sv)(sid \<mapsto> svc'),
                     statuses := (statuses sv)(sid \<mapsto> Stopped)\<rparr>)"
  | (failed) svc er svc' where
      "(\<exists>p. statuses sv sid = Some (Running p)) \<or> (\<exists>r. statuses sv sid = Some (Failed r))"
      "services sv sid = Some svc" "svc_stop vt e svc = (Err er, svc')"
      "handle_stop vt e sid sv = (Err er, sv\<lparr>services := (services sv)(sid \<mapsto> svc')\<rparr>)"
proof (cases "(\<exists>p. statuses sv sid = Some (Running p)) \<or> (\<exists>r. statuses sv sid = Some (Failed r))")
  case True
  then obtain svc where svc: "services sv sid = Some svc"
    using assms sup_wf_registered by blast
  obtain r svc' where "svc_stop vt e svc = (r, svc')" by (meson surj_pair)
  with True svc show ?thesis
    using stopped failed by (cases r) (auto simp: handle_stop_def)
next
  case False
  have ns: "statuses sv sid \<noteq> Some Starting" using assms by (auto simp: sup_wf_def ran_def)
  show ?thesis
  proof (cases "statuses sv sid")
    case None
    then have "services sv sid = None" using assms by (simp add: sup_wf_None_iff)
    with None show ?thesis using refused by (auto simp: handle_stop_def)
  next
    case (Some st)
    with False ns show ?thesis using refused by (cases st) (auto simp: handle_stop_def)
  qed
qed

lemma sup_wf_handle_start [inv_intros]:
  "sup_wf sv \<Longrightarrow> sup_wf (snd (handle_start vt e sid sv))"
  by (cases rule: handle_start_cases [of sv sid vt e]) (auto intro: sup_wf_update)

lemma sup_wf_handle_stop [inv_intros]:
  "sup_wf sv \<Longrightarrow> sup_wf (snd (handle_stop vt e sid sv))"
  by (cases rule: handle_stop_cases [of sv sid vt e]) (auto intro: sup_wf_update sup_wf_services)

lemma sup_wf_handle_restart [inv_intros]:
  "sup_wf sv \<Longrightarrow> sup_wf (snd (handle_restart vt e1 e2 sid sv))"
  by (auto simp: handle_restart_def Let_def split: option.splits service_status.splits
      intro!: inv_intros)

lemma handle_command_snd:
  "snd (handle_command vt (e1, e2) cmd sv) =
     (case cmd of
        Start sid \<Rightarrow> snd (handle_start vt e1 sid sv)
      | Stop sid \<Rightarrow> snd (handle_stop vt e1 sid sv)
      | Restart sid \<Rightarrow> snd (handle_restart vt e1 e2 sid sv)
      | Status \<Rightarrow> sv)"
  by (cases cmd) (auto split: prod.splits)

declare handle_command.simps [simp del]

lemma sup_wf_handle_command [inv_intros]:
  "sup_wf sv \<Longrightarrow> sup_wf (snd (handle_command vt e cmd sv))"
  by (cases e) (auto simp: handle_command_snd split: supervisor_command.splits intro: inv_intros)

lemma supervisor_loop_Cons_snd:
  "snd (supervisor_loop vt ((e, cmd) # cmds) sv) =
     snd (supervisor_loop vt cmds (snd (handle_command vt e cmd sv)))"
  by (auto split: prod.splits)

text \<open>Lifting a one-command invariant to whole runs, used by every invariant below.\<close>

lemma supervisor_loop_induct:
  assumes "P sv"
    and "\<And>e cmd s. P s \<Longrightarrow> (e, cmd) \<in> set cmds \<Longrightarrow> P (snd (handle_command vt e cmd s))"
  shows "P (snd (supervisor_loop vt cmds sv))"
  using assms
proof (induction cmds arbitrary: sv)
  case (Cons ec cmds)
  obtain e cmd where ec: "ec = (e, cmd)" by (cases ec)
  have "P (snd (handle_command vt e cmd sv))" using Cons.prems ec by auto
  then have "P (snd (supervisor_loop vt cmds (snd (handle_command vt e cmd sv))))"
    using Cons.prems(2) by (intro Cons.IH) auto
  then show ?case by (simp only: ec supervisor_loop_Cons_snd)
qed simp

lemma handle_start_dom:
  assumes "sup_wf sv"
  shows "dom (services (snd (handle_start vt e sid sv))) = dom (services sv)"
  using assms by (cases rule: handle_start_cases [of sv sid vt e]) (auto simp: insert_absorb domI)

lemma handle_stop_dom:
  assumes "sup_wf sv"
  shows "dom (services (snd (handle_stop vt e sid sv))) = dom (services sv)"
  using assms by (cases rule: handle_stop_cases [of sv sid vt e]) (auto simp: insert_absorb domI)

lemma handle_command_dom:
  assumes "sup_wf sv"
  shows "dom (services (snd (handle_command vt e cmd sv))) = dom (services sv)"
  using assms
  by (cases e; cases cmd)
    (simp_all add: handle_command_snd handle_restart_def Let_def handle_start_dom handle_stop_dom
      sup_wf_handle_stop split: option.split service_status.split)

lemma supervisor_loop_dom:
  assumes "sup_wf sv"
  shows "dom (services (snd (supervisor_loop vt cmds sv))) = dom (services sv)"
proof -
  have "sup_wf (snd (supervisor_loop vt cmds sv)) \<and>
      dom (services (snd (supervisor_loop vt cmds sv))) = dom (services sv)"
    by (rule supervisor_loop_induct) (use assms in \<open>auto simp: handle_command_dom sup_wf_handle_command\<close>)
  then show ?thesis ..
qed

subsection \<open>Isolation of services\<close>

fun target :: "supervisor_command \<Rightarrow> service_id option" where
  "target (Start sid) = Some sid"
| "target (Stop sid) = Some sid"
| "target (Restart sid) = Some sid"
| "target Status = None"

definition view :: "service_id \<Rightarrow> 's supervisor \<Rightarrow> 's option \<times> service_status option" where
  "view sid sv = (services sv sid, statuses sv sid)"

lemma view_handle_start: "sid \<noteq> sid' \<Longrightarrow> view sid (snd (handle_start vt e sid' sv)) = view sid sv"
  by (auto simp: view_def handle_start_def Let_def split: handler_splits)

lemma view_handle_stop: "sid \<noteq> sid' \<Longrightarrow> view sid (snd (handle_stop vt e sid' sv)) = view sid sv"
  by (auto simp: view_def handle_stop_def split: handler_splits)

lemma view_handle_command:
  "target cmd \<noteq> Some sid \<Longrightarrow> view sid (snd (handle_command vt e cmd sv)) = view sid sv"
  by (cases e; cases cmd)
    (auto simp: handle_command_snd handle_restart_def Let_def view_handle_start view_handle_stop
      split: option.splits service_status.splits)

lemma unavailable_handle_command:
  assumes "sup_wf sv" and "statuses sv sid = Some Unavailable"
  shows "view sid (snd (handle_command vt e cmd sv)) = view sid sv"
proof (cases "target cmd = Some sid")
  case True
  with assms show ?thesis
    by (cases e; cases cmd)
      (auto simp: handle_command_snd handle_restart_def handle_start_def handle_stop_def)
next
  case False
  then show ?thesis by (rule view_handle_command)
qed

lemma unavailable_loop:
  assumes "sup_wf sv" and "statuses sv sid = Some Unavailable"
  shows "sup_wf (snd (supervisor_loop vt cmds sv)) \<and> view sid (snd (supervisor_loop vt cmds sv)) = view sid sv"
proof (rule supervisor_loop_induct [where P = "\<lambda>s. sup_wf s \<and> view sid s = view sid sv"])
  fix e cmd s
  assume s: "sup_wf s \<and> view sid s = view sid sv"
  then have "statuses s sid = Some Unavailable" using assms(2) by (simp add: view_def)
  with s show "sup_wf (snd (handle_command vt e cmd s)) \<and> view sid (snd (handle_command vt e cmd s)) = view sid sv"
    by (simp add: unavailable_handle_command sup_wf_handle_command)
qed (simp add: assms(1))

subsection \<open>The contract of a managed service\<close>

text \<open>
  \<open>up s\<close>: the service holds the handle of a running task or process; \<open>ok s\<close>: its own
  invariant. The laws are what the five \<open>impl ManagedService\<close> blocks promise: a start that
  succeeds leaves the service up, a start of a service that is up is refused and changes
  nothing, a stop of a service that is up succeeds, a stop that succeeds leaves it down and
  a stop that fails changes nothing.
\<close>

locale managed_laws =
  fixes vt :: "('e, 's) managed_service"
    and up :: "'s \<Rightarrow> bool"
    and ok :: "'s \<Rightarrow> bool"
  assumes start_ok: "ok s \<Longrightarrow> svc_start vt e s = (Ok pid, s') \<Longrightarrow> up s'"
    and start_up: "ok s \<Longrightarrow> up s \<Longrightarrow> \<exists>er. svc_start vt e s = (Err er, s)"
    and stop_up: "ok s \<Longrightarrow> up s \<Longrightarrow> \<exists>s'. svc_stop vt e s = (Ok (), s')"
    and stop_ok: "ok s \<Longrightarrow> svc_stop vt e s = (Ok (), s') \<Longrightarrow> \<not> up s'"
    and stop_err: "ok s \<Longrightarrow> svc_stop vt e s = (Err er, s') \<Longrightarrow> s' = s"
    and ok_start: "ok s \<Longrightarrow> ok (snd (svc_start vt e s))"
    and ok_stop: "ok s \<Longrightarrow> ok (snd (svc_stop vt e s))"
begin

definition svc_agrees :: "'s \<Rightarrow> service_status \<Rightarrow> bool" where
  "svc_agrees s st \<longleftrightarrow> ok s \<and> (\<forall>p. st = Running p \<longrightarrow> up s) \<and> (st = Stopped \<longrightarrow> \<not> up s)"

definition sup_agrees :: "'s supervisor \<Rightarrow> bool" where
  "sup_agrees sv \<longleftrightarrow> sup_wf sv \<and>
     (\<forall>sid s st. services sv sid = Some s \<longrightarrow> statuses sv sid = Some st \<longrightarrow> svc_agrees s st)"

lemma sup_agrees_ok:
  assumes "sup_agrees sv" and "services sv sid = Some s"
  shows "ok s"
proof -
  obtain st where "statuses sv sid = Some st"
    using assms sup_wf_None_iff [of sv sid] by (cases "statuses sv sid") (auto simp: sup_agrees_def)
  with assms show ?thesis by (auto simp: sup_agrees_def svc_agrees_def)
qed

lemma sup_agrees_update:
  assumes "sup_agrees sv" and "svc_agrees s st" and "st \<noteq> Starting"
  shows "sup_agrees (sv\<lparr>services := (services sv)(sid \<mapsto> s), statuses := (statuses sv)(sid \<mapsto> st)\<rparr>)"
  using assms by (auto simp: sup_agrees_def sup_wf_update)

lemma sup_agrees_start: "sup_agrees sv \<Longrightarrow> sup_agrees (snd (handle_start vt e sid sv))"
proof -
  assume a: "sup_agrees sv"
  then have wf: "sup_wf sv" by (simp add: sup_agrees_def)
  from wf show ?thesis
  proof (cases rule: handle_start_cases [of sv sid vt e])
    case (started svc pid svc')
    then have "svc_agrees svc' (Running pid)"
      using a sup_agrees_ok [of sv sid svc] start_ok [of svc e pid svc'] ok_start [of svc e]
      by (simp add: svc_agrees_def)
    with started a show ?thesis by (simp add: sup_agrees_update)
  next
    case (failed svc er svc')
    then have "svc_agrees svc' (Failed er)"
      using a sup_agrees_ok [of sv sid svc] ok_start [of svc e] by (simp add: svc_agrees_def)
    with failed a show ?thesis by (simp add: sup_agrees_update)
  qed (use a in simp)
qed

lemma sup_agrees_stop: "sup_agrees sv \<Longrightarrow> sup_agrees (snd (handle_stop vt e sid sv))"
proof -
  assume a: "sup_agrees sv"
  then have wf: "sup_wf sv" by (simp add: sup_agrees_def)
  from wf show ?thesis
  proof (cases rule: handle_stop_cases [of sv sid vt e])
    case (stopped svc svc')
    then have "svc_agrees svc' Stopped"
      using a sup_agrees_ok [of sv sid svc] stop_ok [of svc e svc'] ok_stop [of svc e]
      by (simp add: svc_agrees_def)
    with stopped a show ?thesis by (simp add: sup_agrees_update)
  next
    case (failed svc er svc')
    then have "svc' = svc" using a sup_agrees_ok stop_err by blast
    with failed a show ?thesis by (simp add: fun_upd_idem)
  qed (use a in simp)
qed

lemma sup_agrees_command: "sup_agrees sv \<Longrightarrow> sup_agrees (snd (handle_command vt e cmd sv))"
  by (cases e) (auto simp: handle_command_snd handle_restart_def Let_def sup_agrees_start sup_agrees_stop
      split: supervisor_command.splits option.splits service_status.splits)

lemma sup_agrees_loop: "sup_agrees sv \<Longrightarrow> sup_agrees (snd (supervisor_loop vt cmds sv))"
  by (rule supervisor_loop_induct) (auto intro: sup_agrees_command)

lemma sup_agrees_register:
  "sup_agrees sv \<Longrightarrow> ok s \<Longrightarrow> \<not> up s \<Longrightarrow> sup_agrees (register sid s available sv)"
  by (auto simp: sup_agrees_def sup_wf_register) (auto simp: register_def svc_agrees_def Let_def split: if_splits)

text \<open>Restarting a running service always gets past the stop: it is the start of a stopped one.\<close>

lemma restart_running:
  assumes "sup_agrees sv" and "statuses sv sid = Some (Running pid)"
  obtains svc svc' where "services sv sid = Some svc" "svc_stop vt e1 svc = (Ok (), svc')" "\<not> up svc'"
    "handle_restart vt e1 e2 sid sv =
       handle_start vt e2 sid
         (sv\<lparr>services := (services sv)(sid \<mapsto> svc'), statuses := (statuses sv)(sid \<mapsto> Stopped)\<rparr>)"
proof -
  from assms have wf: "sup_wf sv" by (simp add: sup_agrees_def)
  then obtain svc where svc: "services sv sid = Some svc"
    using assms sup_wf_registered by blast
  then have "ok svc" "up svc" using assms by (auto simp: sup_agrees_def svc_agrees_def)
  then obtain svc' where s': "svc_stop vt e1 svc = (Ok (), svc')" "\<not> up svc'"
    using stop_up stop_ok by blast
  then show ?thesis
    using that [OF svc s'] svc assms(2) by (simp add: handle_restart_def handle_stop_def)
qed

lemma stop_down: "ok s \<Longrightarrow> \<not> up (snd (svc_stop vt e s))"
proof (cases "svc_stop vt e s")
  case (Pair r s')
  moreover assume "ok s"
  ultimately show ?thesis using stop_ok [of s e s'] stop_err [of s e _ s'] stop_up [of s e]
    by (cases r) auto
qed

lemma shutdown_down:
  assumes "\<And>sid s. services sv sid = Some s \<Longrightarrow> ok s \<and> (sid \<in> fst ` set order \<or> \<not> up s)"
    and "services (shutdown_services vt order sv) sid = Some s"
  shows "\<not> up s"
  using assms
proof (induction order arbitrary: sv)
  case (Cons oe order)
  obtain sid' e where oe: "oe = (sid', e)" by (cases oe)
  define sv1 where "sv1 = (case services sv sid' of None \<Rightarrow> sv
      | Some svc \<Rightarrow> sv\<lparr>services := (services sv)(sid' \<mapsto> snd (svc_stop vt e svc))\<rparr>)"
  have "services (shutdown_services vt order sv1) sid = Some s"
    using Cons.prems(2) by (simp add: oe sv1_def)
  moreover have "ok t \<and> (i \<in> fst ` set order \<or> \<not> up t)" if "services sv1 i = Some t" for i t
    using that Cons.prems(1) [of i] Cons.prems(1) [of sid'] ok_stop stop_down oe
    by (auto simp: sv1_def split: option.splits if_splits)
  ultimately show ?case by (intro Cons.IH) auto
qed auto

end

text \<open>
  A service is one-shot when a start takes away something (\<open>spent\<close>) that no stop puts
  back: from then on every start fails. \<open>one\<close> tells these services from the others that the
  same supervisor manages.
\<close>

locale one_shot = managed_laws vt up ok
  for vt :: "('e, 's) managed_service" and up :: "'s \<Rightarrow> bool" and ok :: "'s \<Rightarrow> bool" +
  fixes spent :: "'s \<Rightarrow> bool"
    and one :: "'s \<Rightarrow> bool"
  assumes start_spends: "ok s \<Longrightarrow> one s \<Longrightarrow> svc_start vt e s = (Ok pid, s') \<Longrightarrow> spent s'"
    and spent_start: "ok s \<Longrightarrow> spent s \<Longrightarrow> \<exists>er. fst (svc_start vt e s) = Err er"
    and spent_kept_start: "ok s \<Longrightarrow> spent s \<Longrightarrow> spent (snd (svc_start vt e s))"
    and spent_kept_stop: "ok s \<Longrightarrow> spent s \<Longrightarrow> spent (snd (svc_stop vt e s))"
begin

definition spent_at :: "service_id \<Rightarrow> 's supervisor \<Rightarrow> bool" where
  "spent_at sid sv \<longleftrightarrow> sup_agrees sv \<and> (\<exists>s. services sv sid = Some s \<and> spent s)"

lemma spent_handle_start:
  assumes "spent_at sid sv"
  shows "\<exists>er. fst (handle_start vt e sid sv) = Err er"
    and "spent_at sid (snd (handle_start vt e sid' sv))"
proof -
  from assms have a: "sup_agrees sv" and wf: "sup_wf sv" by (auto simp: spent_at_def sup_agrees_def)
  from assms obtain s where s: "services sv sid = Some s" "spent s" "ok s"
    using sup_agrees_ok by (auto simp: spent_at_def)
  from wf show "\<exists>er. fst (handle_start vt e sid sv) = Err er"
  proof (cases rule: handle_start_cases [of sv sid vt e])
    case (started svc pid svc')
    then have "fst (svc_start vt e s) = Ok pid" using s by simp
    then show ?thesis using spent_start [OF s(3,2), of e] by auto
  qed auto
  have "\<exists>t. services (snd (handle_start vt e sid' sv)) sid = Some t \<and> spent t"
    using wf
  proof (cases rule: handle_start_cases [of sv sid' vt e])
    case (started svc pid svc')
    then show ?thesis using s spent_kept_start [of s e] by (cases "sid' = sid") auto
  next
    case (failed svc er svc')
    then show ?thesis using s spent_kept_start [of s e] by (cases "sid' = sid") auto
  qed (use s in auto)
  with a show "spent_at sid (snd (handle_start vt e sid' sv))"
    by (simp add: spent_at_def sup_agrees_start)
qed

lemma spent_handle_stop: "spent_at sid sv \<Longrightarrow> spent_at sid (snd (handle_stop vt e sid' sv))"
proof -
  assume sp: "spent_at sid sv"
  then have a: "sup_agrees sv" and wf: "sup_wf sv" by (auto simp: spent_at_def sup_agrees_def)
  from sp obtain s where s: "services sv sid = Some s" "spent s" "ok s"
    using sup_agrees_ok by (auto simp: spent_at_def)
  have "\<exists>t. services (snd (handle_stop vt e sid' sv)) sid = Some t \<and> spent t"
    using wf
  proof (cases rule: handle_stop_cases [of sv sid' vt e])
    case (stopped svc svc')
    then show ?thesis using s spent_kept_stop [of s e] by (cases "sid' = sid") auto
  next
    case (failed svc er svc')
    then show ?thesis using s spent_kept_stop [of s e] by (cases "sid' = sid") auto
  qed (use s in auto)
  with a show ?thesis by (simp add: spent_at_def sup_agrees_stop)
qed

lemma spent_handle_restart:
  assumes "spent_at sid sv"
  shows "\<exists>er. fst (handle_restart vt e1 e2 sid sv) = Err er"
proof -
  have "spent_at sid (snd (handle_stop vt e1 sid sv))" using assms by (rule spent_handle_stop)
  then have "\<exists>er. fst (handle_start vt e2 sid (snd (handle_stop vt e1 sid sv))) = Err er"
    by (rule spent_handle_start(1))
  moreover have "\<exists>er. fst (handle_start vt e2 sid sv) = Err er"
    using assms by (rule spent_handle_start(1))
  ultimately show ?thesis
    by (simp add: handle_restart_def split: option.splits service_status.splits)
qed

lemma spent_command: "spent_at sid sv \<Longrightarrow> spent_at sid (snd (handle_command vt e cmd sv))"
  by (cases e) (auto simp: handle_command_snd handle_restart_def Let_def spent_handle_start(2) spent_handle_stop
      split: supervisor_command.splits option.splits service_status.splits)

lemma spent_loop: "spent_at sid sv \<Longrightarrow> spent_at sid (snd (supervisor_loop vt cmds sv))"
  by (rule supervisor_loop_induct) (auto intro: spent_command)

lemma started_spent:
  assumes "sup_agrees sv" and "handle_start vt e sid sv = (Ok (), sv')"
    and "services sv sid = Some s" and "one s"
  shows "spent_at sid sv'"
proof -
  from assms(1) have wf: "sup_wf sv" by (simp add: sup_agrees_def)
  have ag: "sup_agrees sv'" using assms sup_agrees_start by (metis snd_conv)
  from wf show ?thesis
  proof (cases rule: handle_start_cases [of sv sid vt e])
    case (started svc pid svc')
    then have "spent svc'" using assms sup_agrees_ok [of sv sid svc] start_spends [of svc e pid svc'] by simp
    with started assms(2) ag show ?thesis by (auto simp: spent_at_def)
  qed (use assms(2) in auto)
qed

text \<open>After one successful start, whatever commands follow, no start or restart succeeds again.\<close>

lemma never_again:
  assumes "sup_agrees sv" and "handle_start vt e sid sv = (Ok (), sv1)"
    and "services sv sid = Some s" and "one s" and "sv2 = snd (supervisor_loop vt cmds sv1)"
  shows "\<exists>er. fst (handle_start vt e' sid sv2) = Err er"
    and "\<exists>er. fst (handle_restart vt e' e'' sid sv2) = Err er"
proof -
  have "spent_at sid sv2" using assms started_spent spent_loop by blast
  then show "\<exists>er. fst (handle_start vt e' sid sv2) = Err er"
    and "\<exists>er. fst (handle_restart vt e' e'' sid sv2) = Err er"
    by (rule spent_handle_start(1), rule spent_handle_restart)
qed

end

end
