(* ===== verification/Config.thy ===== *)
theory Config
  imports Prelude
begin

section \<open>Configuration (\<open>src/config.rs\<close>)\<close>

text \<open>
  The configuration records and their constructors from the environment. The environment is
  a map from variable names to values, defined where \<open>std::env::var\<close> returns \<open>Ok\<close>.
  Parsing of IP addresses (\<open>std::net::IpAddr\<close>) is an argument, \<open>parse_ip\<close>.
\<close>

type_synonym environ = "string \<rightharpoonup> string"

definition env_or :: "environ \<Rightarrow> string \<Rightarrow> string \<Rightarrow> string" where
  "env_or env name dflt = unwrap_or (env name) dflt"

definition flag_true :: "string \<Rightarrow> bool" where
  "flag_true s \<longleftrightarrow> eq_ignore_ascii_case (trim s) ''true''"

subsection \<open>The MQTT client\<close>

datatype mqtt_tls_mode = TlsNone | ServerOnly | Mutual

record mqtt_client_config =
  mc_client_id :: string
  mc_host :: string
  mc_port :: "16 word"
  mc_tls_mode :: mqtt_tls_mode
  mc_cafile :: "string option"
  mc_certfile :: "string option"
  mc_keyfile :: "string option"
  mc_username :: string
  mc_password :: string

definition mqtt_client_from_env :: "environ \<Rightarrow> string \<Rightarrow> mqtt_client_config" where
  "mqtt_client_from_env env config_dir =
     (let mutual = flag_true (env_or env ''MQTT_TLS_ENABLED'' ''false'') in
      \<lparr>mc_client_id = env_or env ''MQTT_CLIENT_ID'' ''hamlet'',
       mc_host = ''localhost'',
       mc_port = (if mutual
                  then unwrap_or (parse_u16 (env_or env ''MQTTS_PORT'' ''8883'')) 8883
                  else unwrap_or (parse_u16 (env_or env ''MQTT_PORT'' ''1883'')) 1883),
       mc_tls_mode = (if mutual then Mutual else TlsNone),
       mc_cafile = Some (path_join config_dir (env_or env ''MQTT_CAFILE'' ''certs/ca.crt'')),
       mc_certfile = Some (path_join config_dir (env_or env ''MQTT_CLIENT_CERTFILE'' ''certs/client.crt'')),
       mc_keyfile = Some (path_join config_dir (env_or env ''MQTT_CLIENT_KEYFILE'' ''certs/client.key'')),
       mc_username = env_or env ''MQTT_USERNAME'' ''placenet'',
       mc_password = env_or env ''MQTT_PASSWORD'' ''changeme''\<rparr>)"

subsection \<open>The MQTT broker\<close>

record 'ip mqtt_brokerage_config =
  mb_port :: "16 word"
  mb_client_id :: string
  mb_config_file :: string
  mb_password_file :: string
  mb_username :: string
  mb_password :: string
  mb_tls_enabled :: bool
  mb_mqtts_port :: "16 word"
  mb_cafile :: string
  mb_certfile :: string
  mb_keyfile :: string
  mb_san_ips :: "'ip list"
  mb_san_hostnames :: "string list"

definition mqtt_brokerage_from_env ::
  "(string \<Rightarrow> 'ip option) \<Rightarrow> environ \<Rightarrow> string \<Rightarrow> 'ip mqtt_brokerage_config" where
  "mqtt_brokerage_from_env parse_ip env config_dir =
     \<lparr>mb_port = unwrap_or (parse_u16 (env_or env ''MQTT_PORT'' ''1883'')) 1883,
      mb_client_id = env_or env ''MQTT_CLIENT_ID'' ''hamlet'',
      mb_config_file = path_join config_dir ''mosquitto.conf'',
      mb_password_file = path_join config_dir ''passwd'',
      mb_username = env_or env ''MQTT_USERNAME'' ''placenet'',
      mb_password = env_or env ''MQTT_PASSWORD'' ''changeme'',
      mb_tls_enabled = flag_true (env_or env ''MQTT_TLS_ENABLED'' ''true''),
      mb_mqtts_port = unwrap_or (parse_u16 (env_or env ''MQTTS_PORT'' ''8883'')) 8883,
      mb_cafile = path_join config_dir (env_or env ''MQTT_CAFILE'' ''certs/ca.crt''),
      mb_certfile = path_join config_dir (env_or env ''MQTT_CERTFILE'' ''certs/broker.crt''),
      mb_keyfile = path_join config_dir (env_or env ''MQTT_KEYFILE'' ''certs/broker.key''),
      mb_san_ips = List.map_filter (\<lambda>s. parse_ip (trim s))
                     (split_on CHR '','' (env_or env ''BROKER_SAN_IPS'' [])),
      mb_san_hostnames = filter (\<lambda>s. s \<noteq> [] \<and> s \<noteq> ''localhost'')
                     (map trim (split_on CHR '','' (env_or env ''BROKER_SAN_HOSTNAMES'' [])))\<rparr>"

text \<open>The text \<open>write_config\<close> assembles, and the write itself.\<close>

definition render_config :: "'ip mqtt_brokerage_config \<Rightarrow> string" where
  "render_config c =
     ''# Auto-generated by hamlet'' @ nl @
     ''persistence false'' @ nl @
     ''log_dest stderr'' @ nl @ nl @
     (if mb_tls_enabled c
      then ''listener '' @ show_u16 (mb_mqtts_port c) @ nl @
           ''protocol mqtt'' @ nl @
           ''cafile '' @ mb_cafile c @ nl @
           ''certfile '' @ mb_certfile c @ nl @
           ''keyfile '' @ mb_keyfile c @ nl @
           ''tls_version tlsv1.2'' @ nl @
           ''require_certificate true'' @ nl @
           ''use_identity_as_username true'' @ nl
      else ''listener '' @ show_u16 (mb_port c) @ nl @
           ''allow_anonymous false'' @ nl @
           ''password_file '' @ mb_password_file c @ nl)"

definition write_config ::
  "(string \<Rightarrow> unit res) \<Rightarrow> io_faults \<Rightarrow> 'ip mqtt_brokerage_config \<Rightarrow> files \<Rightarrow> unit res \<times> files" where
  "write_config create_dir_all faults c fs =
     (case path_parent (mb_config_file c) of
        None \<Rightarrow> (Err ''config_file has no parent directory'', fs)
      | Some config_dir \<Rightarrow>
          (case create_dir_all config_dir of
             Err e \<Rightarrow> (Err (''Failed to create config dir: '' @ e), fs)
           | Ok _ \<Rightarrow>
               (case fs_write faults (mb_config_file c) (render_config c) fs of
                  (Err e, fs') \<Rightarrow> (Err (''Failed to write mosquitto.conf: '' @ e), fs')
                | (Ok _, fs') \<Rightarrow> (Ok (), fs'))))"

subsection \<open>The other sections\<close>

record http_config =
  hc_host :: string
  hc_port :: "16 word"
  hc_tls_enabled :: bool
  hc_upstream_port :: "16 word"

definition http_from_env :: "environ \<Rightarrow> http_config" where
  "http_from_env env =
     \<lparr>hc_host = env_or env ''HTTP_HOST'' ''0.0.0.0'',
      hc_port = unwrap_or (parse_u16 (env_or env ''HTTP_PORT'' ''8080'')) 8080,
      hc_tls_enabled = flag_true (env_or env ''HTTP_TLS_ENABLED'' ''true''),
      hc_upstream_port = unwrap_or (parse_u16 (env_or env ''HTTP_UPSTREAM_PORT'' ''3000'')) 3000\<rparr>"

record beacon_management_config =
  bm_use_jitter :: bool
  bm_broadcast_interval :: "16 word"
  bm_key_rotation_interval :: "32 word"
  bm_key_expiry :: "32 word"

definition beacon_management_from_env :: "environ \<Rightarrow> beacon_management_config" where
  "beacon_management_from_env env =
     \<lparr>bm_use_jitter = flag_true (env_or env ''USE_NETWORK_JITTER'' ''false''),
      bm_broadcast_interval =
        unwrap_or (parse_u16 (trim (env_or env ''BROADCAST_INTERVAL'' ''60''))) 60,
      bm_key_rotation_interval =
        unwrap_or (parse_u32 (trim (env_or env ''KEY_ROTATION_INTERVAL'' ''3600''))) 3600,
      bm_key_expiry = unwrap_or (parse_u32 (trim (env_or env ''KEY_EXPIRY'' ''7200''))) 7200\<rparr>"

record gateway_registration_config =
  gr_server_url :: string
  gr_gateway_url :: "string option"
  gr_username :: string
  gr_password :: string
  gr_broker_cafile :: "string option"
  gr_broker_tls :: bool

definition gateway_registration_from_env :: "environ \<Rightarrow> gateway_registration_config" where
  "gateway_registration_from_env env =
     \<lparr>gr_server_url = env_or env ''PLACENET_SERVER_URL'' ''http://localhost:8080'',
      gr_gateway_url = env ''PLACENET_GATEWAY_URL'',
      gr_username = env_or env ''PLACENET_GATEWAY_USERNAME'' [],
      gr_password = env_or env ''PLACENET_GATEWAY_PASSWORD'' [],
      gr_broker_cafile = env ''PLACENET_GATEWAY_MQTT_CAFILE'',
      gr_broker_tls = unwrap_or (map_option flag_true (env ''PLACENET_GATEWAY_MQTT_TLS'')) True\<rparr>"

record 'ip config =
  cf_mqtt_brokerage :: "'ip mqtt_brokerage_config"
  cf_mqtt_client :: mqtt_client_config
  cf_http :: http_config
  cf_gateway_registration :: gateway_registration_config
  cf_beacon_management :: beacon_management_config
  cf_config_dir :: string

definition config_from_env :: "(string \<Rightarrow> 'ip option) \<Rightarrow> string \<Rightarrow> environ \<Rightarrow> 'ip config" where
  "config_from_env parse_ip current_dir env =
     (let config_dir_raw = env_or env ''PLACENET_CONFIG_DIR'' ''config'';
          config_dir = (if is_absolute config_dir_raw then config_dir_raw
                        else path_join current_dir config_dir_raw) in
      \<lparr>cf_mqtt_brokerage = mqtt_brokerage_from_env parse_ip env config_dir,
       cf_mqtt_client = mqtt_client_from_env env config_dir,
       cf_http = http_from_env env,
       cf_gateway_registration = gateway_registration_from_env env,
       cf_beacon_management = beacon_management_from_env env,
       cf_config_dir = config_dir\<rparr>)"

lemmas config_defs =
  mqtt_client_from_env_def mqtt_brokerage_from_env_def http_from_env_def
  beacon_management_from_env_def gateway_registration_from_env_def config_from_env_def

subsection \<open>The broker configuration file\<close>

text \<open>The port the broker really listens on.\<close>

definition listener_port :: "'ip mqtt_brokerage_config \<Rightarrow> 16 word" where
  "listener_port c = (if mb_tls_enabled c then mb_mqtts_port c else mb_port c)"

definition paths_one_line :: "'ip mqtt_brokerage_config \<Rightarrow> bool" where
  "paths_one_line c \<longleftrightarrow>
     list_all (\<lambda>p. CHR 0x0A \<notin> set p) [mb_cafile c, mb_certfile c, mb_keyfile c, mb_password_file c]"

lemma nl_notin_show_u16 [simp]: "CHR 0x0A \<notin> set (show_u16 w)"
  by (simp add: show_u16_def)

lemma lines_of_nl2 [str_simps]:
  "CHR 0x0A \<notin> set a \<Longrightarrow> CHR 0x0A \<notin> set b \<Longrightarrow> lines_of (a @ b @ nl @ d) = (a @ b) # lines_of d"
  using lines_of_nl [of "a @ b" d] by simp

lemma lines_of_nl0 [str_simps]: "lines_of (nl @ b) = [] # lines_of b"
  using lines_of_nl [of "[]" b] by simp

lemma lines_of_nl_end [str_simps]: "CHR 0x0A \<notin> set a \<Longrightarrow> lines_of (a @ nl) = [a, []]"
  using lines_of_nl [of a "[]"] by (simp add: lines_of_Nil)

lemma lines_of_nl2_end [str_simps]:
  "CHR 0x0A \<notin> set a \<Longrightarrow> CHR 0x0A \<notin> set b \<Longrightarrow> lines_of (a @ b @ nl) = [a @ b, []]"
  using lines_of_nl_end [of "a @ b"] by simp

lemma lines_render_config:
  assumes "paths_one_line c"
  shows "lines_of (render_config c) =
    [''# Auto-generated by hamlet'', ''persistence false'', ''log_dest stderr'', []] @
    (if mb_tls_enabled c
     then [''listener '' @ show_u16 (mb_mqtts_port c), ''protocol mqtt'', ''cafile '' @ mb_cafile c,
           ''certfile '' @ mb_certfile c, ''keyfile '' @ mb_keyfile c, ''tls_version tlsv1.2'',
           ''require_certificate true'', ''use_identity_as_username true'', []]
     else [''listener '' @ show_u16 (mb_port c), ''allow_anonymous false'',
           ''password_file '' @ mb_password_file c, []])"
  using assms unfolding render_config_def paths_one_line_def by (simp add: str_simps del: append_Cons)

end
