(* ===== verification/Mqtt_Client.thy ===== *)
theory Mqtt_Client
  imports Supervisor Config
begin

section \<open>The local MQTT client (\<open>src/services/mqtt_client/\<close>)\<close>

text \<open>
  The handle other components use, the managed service with its one-time channel ends, the
  option builder shared with the cloud gateway link, and the two tasks: the event loop and
  the command task. The \<open>rumqttc\<close> client, the TLS root store and file reads are arguments;
  a channel end held in an \<open>Option\<close> is an optional channel name.
\<close>

subsection \<open>Messages and commands\<close>

datatype qos = AtMostOnce | AtLeastOnce | ExactlyOnce

record mqtt_message =
  mm_topic :: string
  mm_payload :: "byte list"

record topic_subscription =
  ts_topic :: string
  ts_qos :: qos

datatype mqtt_command =
    Subscribe string qos
  | Unsubscribe string
  | Publish string qos "byte list"

type_synonym chan = nat

subsection \<open>The handle\<close>

text \<open>
  A call queues the command and waits for the reply of the command task; \<open>sent\<close> is false when
  the channel is closed, \<open>reply\<close> is \<open>None\<close> when the task dropped it.
\<close>

definition handle_call :: "bool \<Rightarrow> unit res option \<Rightarrow> unit res" where
  "handle_call sent reply =
     (if \<not> sent then Err ''mqtt client channel closed''
      else case reply of None \<Rightarrow> Err ''mqtt client dropped reply'' | Some r \<Rightarrow> r)"

text \<open>\<open>subscribe_all\<close>: in order, stopping at the first error; also the calls it made.\<close>

fun subscribe_all ::
  "(string \<Rightarrow> qos \<Rightarrow> unit res) \<Rightarrow> topic_subscription list \<Rightarrow> unit res \<times> (string \<times> qos) list" where
  "subscribe_all subscribe [] = (Ok (), [])"
| "subscribe_all subscribe (sub # subs) =
     (case subscribe (ts_topic sub) (ts_qos sub) of
        Err e \<Rightarrow> (Err e, [(ts_topic sub, ts_qos sub)])
      | Ok _ \<Rightarrow>
          (let (r, calls) = subscribe_all subscribe subs in (r, (ts_topic sub, ts_qos sub) # calls)))"

definition required_subscriptions :: "topic_subscription list" where
  "required_subscriptions =
     [\<lparr>ts_topic = ''registration'', ts_qos = AtLeastOnce\<rparr>,
      \<lparr>ts_topic = ''key-bridge'', ts_qos = AtLeastOnce\<rparr>]"

subsection \<open>Connection options\<close>

datatype 'cert root_store = PinnedRoots "'cert list" | WebpkiRoots

datatype 'cert transport =
    Tcp
  | TlsServerAuth "'cert root_store"
  | TlsMutual "byte list" "byte list" "byte list"

record 'cert mqtt_options =
  mo_client_id :: string
  mo_host :: string
  mo_port :: "16 word"
  mo_keep_alive_secs :: nat
  mo_transport :: "'cert transport"
  mo_credentials :: "(string \<times> string) option"

text \<open>
  The outcomes of the external calls: reading a file, splitting a PEM file into certificates
  (each may fail to parse), adding one to the root store.
\<close>

record 'cert tls_env =
  te_read :: "string \<Rightarrow> byte list res"
  te_pem_certs :: "byte list \<Rightarrow> 'cert res list"
  te_add :: "'cert \<Rightarrow> unit res"

fun add_roots :: "('cert \<Rightarrow> unit res) \<Rightarrow> 'cert res list \<Rightarrow> 'cert list \<Rightarrow> 'cert list res" where
  "add_roots add [] roots = Ok roots"
| "add_roots add (Err e # cs) roots = Err (''Failed to parse gateway CA: '' @ e)"
| "add_roots add (Ok c # cs) roots =
     (case add c of
        Err e \<Rightarrow> Err (''Failed to add gateway CA: '' @ e)
      | Ok _ \<Rightarrow> add_roots add cs (roots @ [c]))"

definition build_server_tls :: "'cert tls_env \<Rightarrow> string option \<Rightarrow> 'cert root_store res" where
  "build_server_tls te cafile =
     (case cafile of
        Some f \<Rightarrow>
          (case te_read te f of
             Err e \<Rightarrow> Err (''Failed to read gateway CA '' @ sq @ f @ sq @ '': '' @ e)
           | Ok pem \<Rightarrow>
               (case add_roots (te_add te) (te_pem_certs te pem) [] of
                  Err e \<Rightarrow> Err e
                | Ok roots \<Rightarrow> Ok (PinnedRoots roots)))
      | None \<Rightarrow> Ok WebpkiRoots)"

definition read_labelled :: "'cert tls_env \<Rightarrow> string \<Rightarrow> string \<Rightarrow> byte list res" where
  "read_labelled te label f =
     map_err (\<lambda>e. ''Failed to read '' @ label @ '' '' @ sq @ f @ sq @ '': '' @ e) (te_read te f)"

definition build_mqtt_opts :: "'cert tls_env \<Rightarrow> mqtt_client_config \<Rightarrow> 'cert mqtt_options res" where
  "build_mqtt_opts te c =
     (let opts = \<lparr>mo_client_id = mc_client_id c, mo_host = mc_host c, mo_port = mc_port c,
                  mo_keep_alive_secs = 30, mo_transport = Tcp, mo_credentials = None\<rparr>;
          creds = Some (mc_username c, mc_password c) in
      case mc_tls_mode c of
        TlsNone \<Rightarrow> Ok (opts\<lparr>mo_credentials := creds\<rparr>)
      | ServerOnly \<Rightarrow>
          (case build_server_tls te (mc_cafile c) of
             Err e \<Rightarrow> Err e
           | Ok roots \<Rightarrow> Ok (opts\<lparr>mo_transport := TlsServerAuth roots, mo_credentials := creds\<rparr>))
      | Mutual \<Rightarrow>
          (case mc_cafile c of None \<Rightarrow> Err ''Mutual TLS requires a CA file'' | Some cafile \<Rightarrow>
           case mc_certfile c of None \<Rightarrow> Err ''Mutual TLS requires a client cert'' | Some certfile \<Rightarrow>
           case mc_keyfile c of None \<Rightarrow> Err ''Mutual TLS requires a client key'' | Some keyfile \<Rightarrow>
           case read_labelled te ''CA cert'' cafile of Err e \<Rightarrow> Err e | Ok ca \<Rightarrow>
           case read_labelled te ''client cert'' certfile of Err e \<Rightarrow> Err e | Ok cert \<Rightarrow>
           case read_labelled te ''client key'' keyfile of Err e \<Rightarrow> Err e | Ok key \<Rightarrow>
             Ok (opts\<lparr>mo_transport := TlsMutual ca cert key\<rparr>)))"

subsection \<open>The managed service\<close>

record mqtt_client_service =
  ms_config :: mqtt_client_config
  ms_cmd_rx :: "chan option"
  ms_shutdown_tx :: "chan option"
  ms_cmd_shutdown_tx :: "chan option"
  ms_out_rx :: "chan option"
  ms_connected_tx :: "chan option"

definition mqtt_client_new :: "mqtt_client_config \<Rightarrow> chan \<Rightarrow> chan \<Rightarrow> chan \<Rightarrow> mqtt_client_service" where
  "mqtt_client_new config cmd_rx out_rx connected_tx =
     \<lparr>ms_config = config, ms_cmd_rx = Some cmd_rx, ms_shutdown_tx = None, ms_cmd_shutdown_tx = None,
      ms_out_rx = Some out_rx, ms_connected_tx = Some connected_tx\<rparr>"

definition take_channels ::
  "mqtt_client_service \<Rightarrow> (chan \<times> chan \<times> chan) res \<times> mqtt_client_service" where
  "take_channels s =
     (case ms_cmd_rx s of
        None \<Rightarrow> (Err ''MqttClientService command receiver already consumed'', s)
      | Some cmd_rx \<Rightarrow>
          (let s1 = s\<lparr>ms_cmd_rx := None\<rparr> in
           case ms_out_rx s1 of
             None \<Rightarrow> (Err ''MqttClientService outbound receiver already consumed'', s1)
           | Some out_rx \<Rightarrow>
               (let s2 = s1\<lparr>ms_out_rx := None\<rparr> in
                case ms_connected_tx s2 of
                  None \<Rightarrow> (Err ''MqttClientService connected sender already consumed'', s2)
                | Some connected_tx \<Rightarrow>
                    (Ok (cmd_rx, out_rx, connected_tx), s2\<lparr>ms_connected_tx := None\<rparr>))))"

record 'cert client_env =
  ce_tls :: "'cert tls_env"
  ce_shutdown :: chan
  ce_cmd_shutdown :: chan

definition mqtt_client_start ::
  "'cert client_env \<Rightarrow> mqtt_client_service \<Rightarrow> 32 word res \<times> mqtt_client_service" where
  "mqtt_client_start env s =
     (if ms_shutdown_tx s \<noteq> None then (Err ''MqttClientService is already running'', s)
      else case take_channels s of
        (Err e, s1) \<Rightarrow> (Err e, s1)
      | (Ok _, s1) \<Rightarrow>
          (case build_mqtt_opts (ce_tls env) (ms_config s1) of
             Err e \<Rightarrow> (Err e, s1)
           | Ok opts \<Rightarrow> (Ok 0, s1\<lparr>ms_shutdown_tx := Some (ce_shutdown env),
                                  ms_cmd_shutdown_tx := Some (ce_cmd_shutdown env)\<rparr>)))"

definition mqtt_client_stop :: "'e \<Rightarrow> mqtt_client_service \<Rightarrow> unit res \<times> mqtt_client_service" where
  "mqtt_client_stop env s =
     (case ms_shutdown_tx s of
        Some _ \<Rightarrow> (Ok (), s\<lparr>ms_shutdown_tx := None, ms_cmd_shutdown_tx := None\<rparr>)
      | None \<Rightarrow> (Err ''MqttClientService is not running'', s))"

definition mqtt_client_is_running :: "'e \<Rightarrow> mqtt_client_service \<Rightarrow> bool \<times> mqtt_client_service" where
  "mqtt_client_is_running env s = (ms_shutdown_tx s \<noteq> None, s)"

definition mqtt_client_vt :: "('cert client_env, mqtt_client_service) managed_service" where
  "mqtt_client_vt = \<lparr>svc_start = mqtt_client_start, svc_stop = mqtt_client_stop,
     svc_is_running = mqtt_client_is_running\<rparr>"

definition client_up :: "mqtt_client_service \<Rightarrow> bool" where
  "client_up s \<longleftrightarrow> ms_shutdown_tx s \<noteq> None"

definition client_spent :: "mqtt_client_service \<Rightarrow> bool" where
  "client_spent s \<longleftrightarrow> ms_cmd_rx s = None"

lemmas client_svc_defs = mqtt_client_vt_def mqtt_client_start_def mqtt_client_stop_def take_channels_def
  client_up_def client_spent_def

interpretation mqtt_client: one_shot
  "mqtt_client_vt :: ('cert client_env, mqtt_client_service) managed_service"
  client_up "\<lambda>_. True" client_spent "\<lambda>_. True"
  by unfold_locales
    (auto simp: client_svc_defs Let_def split: option.splits result.splits prod.splits if_splits)

subsection \<open>The event loop task\<close>

datatype packet_event =
    InPublish mqtt_message
  | InConnAck
  | InDisconnect
  | OtherEvent
  | PollError string

text \<open>
  One iteration of the select loop: shutdown, an outbound message, or a poll of the client's
  event loop (for an inbound message, whether the inbound queue still took it).
\<close>

datatype loop_event =
    LoopShutdown
  | LoopOutbound mqtt_message
  | LoopPoll packet_event bool

record loop_state =
  ls_running :: bool
  ls_connected_tx :: "chan option"
  ls_signals :: "chan list"
  ls_inbound :: "mqtt_message list"
  ls_published :: "mqtt_message list"
  ls_slept_secs :: nat

definition loop_init :: "chan \<Rightarrow> loop_state" where
  "loop_init connected_tx = \<lparr>ls_running = True, ls_connected_tx = Some connected_tx, ls_signals = [],
     ls_inbound = [], ls_published = [], ls_slept_secs = 0\<rparr>"

fun handle_packet :: "packet_event \<Rightarrow> bool \<Rightarrow> loop_state \<Rightarrow> loop_state" where
  "handle_packet (InPublish msg) taken s =
     (if taken then s\<lparr>ls_inbound := ls_inbound s @ [msg]\<rparr> else s)"
| "handle_packet InConnAck taken s =
     (case ls_connected_tx s of
        Some tx \<Rightarrow> s\<lparr>ls_connected_tx := None, ls_signals := ls_signals s @ [tx]\<rparr>
      | None \<Rightarrow> s)"
| "handle_packet InDisconnect taken s = s"
| "handle_packet OtherEvent taken s = s"
| "handle_packet (PollError e) taken s = s\<lparr>ls_slept_secs := ls_slept_secs s + 5\<rparr>"

fun loop_step :: "loop_event \<Rightarrow> loop_state \<Rightarrow> loop_state" where
  "loop_step LoopShutdown s = (if ls_running s then s\<lparr>ls_running := False\<rparr> else s)"
| "loop_step (LoopOutbound msg) s =
     (if ls_running s then s\<lparr>ls_published := ls_published s @ [msg]\<rparr> else s)"
| "loop_step (LoopPoll p taken) s = (if ls_running s then handle_packet p taken s else s)"

definition eventloop_task :: "chan \<Rightarrow> loop_event list \<Rightarrow> loop_state" where
  "eventloop_task connected_tx evs = fold loop_step evs (loop_init connected_tx)"

subsection \<open>The command task\<close>

datatype task_event = TaskShutdown | TaskCommand mqtt_command | TaskClosed

fun client_error :: "mqtt_command \<Rightarrow> string \<Rightarrow> string" where
  "client_error (Subscribe t q) e = ''subscribe failed: '' @ e"
| "client_error (Unsubscribe t) e = ''unsubscribe failed: '' @ e"
| "client_error (Publish t q p) e = ''publish failed: '' @ e"

text \<open>Each command is answered with the client's result before the next is taken.\<close>

fun command_task ::
  "(mqtt_command \<Rightarrow> unit res) \<Rightarrow> task_event list \<Rightarrow> (mqtt_command \<times> unit res) list" where
  "command_task client [] = []"
| "command_task client (TaskShutdown # evs) = []"
| "command_task client (TaskClosed # evs) = []"
| "command_task client (TaskCommand c # evs) =
     (c, map_err (client_error c) (client c)) # command_task client evs"

subsection \<open>Facts\<close>

lemma subscribe_all_ok:
  "fst (subscribe_all subscribe subs) = Ok () \<longleftrightarrow>
     (\<forall>s\<in>set subs. subscribe (ts_topic s) (ts_qos s) = Ok ())"
  by (induction subs) (auto split: result.splits prod.splits)

lemma subscribe_all_calls:
  "prefix (snd (subscribe_all subscribe subs)) (map (\<lambda>s. (ts_topic s, ts_qos s)) subs)"
  by (induction subs) (auto split: result.splits prod.splits)

text \<open>What the event loop has done after any events, read off the events before the shutdown.\<close>

fun before_shutdown :: "loop_event list \<Rightarrow> loop_event list" where
  "before_shutdown [] = []"
| "before_shutdown (LoopShutdown # evs) = []"
| "before_shutdown (ev # evs) = ev # before_shutdown evs"

fun inbound_of :: "loop_event \<Rightarrow> mqtt_message list" where
  "inbound_of (LoopPoll (InPublish msg) True) = [msg]"
| "inbound_of ev = []"

fun outbound_of :: "loop_event \<Rightarrow> mqtt_message list" where
  "outbound_of (LoopOutbound msg) = [msg]"
| "outbound_of ev = []"

lemma loop_step_stopped: "\<not> ls_running s \<Longrightarrow> loop_step ev s = s"
  by (cases ev) auto

lemma fold_stopped: "\<not> ls_running s \<Longrightarrow> fold loop_step evs s = s"
  by (induction evs) (auto simp: loop_step_stopped)

lemma fold_loop_step:
  assumes "ls_running s"
  shows "ls_inbound (fold loop_step evs s) = ls_inbound s @ concat (map inbound_of (before_shutdown evs))
    \<and> ls_published (fold loop_step evs s) = ls_published s @ concat (map outbound_of (before_shutdown evs))"
  using assms
proof (induction evs arbitrary: s)
  case (Cons ev evs)
  show ?case
  proof (cases ev)
    case LoopShutdown
    then show ?thesis using Cons.prems by (simp add: fold_stopped)
  next
    case (LoopOutbound msg)
    then show ?thesis using Cons by simp
  next
    case (LoopPoll p taken)
    have "ls_running (handle_packet p taken s)"
      using Cons.prems by (cases "(p, taken, s)" rule: handle_packet.cases) (auto split: option.splits)
    with LoopPoll Cons show ?thesis
      by (cases p; cases taken) (auto split: option.splits)
  qed
qed simp

lemma signals_once:
  "ls_signals (fold loop_step evs s) = ls_signals s @
     (case ls_connected_tx s of
        None \<Rightarrow> []
      | Some tx \<Rightarrow> if ls_running s \<and> (\<exists>b. LoopPoll InConnAck b \<in> set (before_shutdown evs)) then [tx] else [])"
proof (induction evs arbitrary: s)
  case (Cons ev evs)
  show ?case
  proof (cases "ls_running s")
    case False
    then show ?thesis by (simp add: fold_stopped loop_step_stopped split: option.splits)
  next
    case True
    show ?thesis
    proof (cases ev)
      case LoopShutdown
      then show ?thesis using Cons True by (simp split: option.splits)
    next
      case (LoopOutbound msg)
      then show ?thesis using Cons True by (auto split: option.splits)
    next
      case (LoopPoll p taken)
      then show ?thesis using Cons True by (cases p) (auto split: option.splits)
    qed
  qed
qed (simp split: option.splits)

subsection \<open>Properties\<close>

text \<open>The event loop forwards inbound messages and publishes outbound ones in the order
  they came, none lost or invented before shutdown, and signals readiness exactly once, on
  the first \<open>ConnAck\<close>, however many reconnections follow.\<close>

theorem eventloop_task_spec:
  "ls_inbound (eventloop_task tx evs) = concat (map inbound_of (before_shutdown evs))
   \<and> ls_published (eventloop_task tx evs) = concat (map outbound_of (before_shutdown evs))
   \<and> ls_signals (eventloop_task tx evs) =
       (if \<exists>b. LoopPoll InConnAck b \<in> set (before_shutdown evs) then [tx] else [])"
  using fold_loop_step [of "loop_init tx" evs] signals_once [of evs "loop_init tx"]
  by (simp add: eventloop_task_def loop_init_def)

text \<open>TLS and credentials are the two axes the options promise: the options carry a
  username and password exactly when the mode is not mutual TLS, use TLS exactly when the
  mode is not \<open>None\<close>, and in server-only mode without a pinned CA trust the public roots.\<close>

theorem build_mqtt_opts_axes:
  assumes "build_mqtt_opts te c = Ok opts"
  shows "(mo_credentials opts = (if mc_tls_mode c = Mutual then None else Some (mc_username c, mc_password c)))
    \<and> (mo_transport opts = Tcp \<longleftrightarrow> mc_tls_mode c = TlsNone)
    \<and> (mc_tls_mode c = ServerOnly \<and> mc_cafile c = None \<longrightarrow> mo_transport opts = TlsServerAuth WebpkiRoots)
    \<and> mo_host opts = mc_host c \<and> mo_port opts = mc_port c \<and> mo_client_id opts = mc_client_id c"
  using assms
  by (cases "mc_tls_mode c")
    (auto simp: build_mqtt_opts_def build_server_tls_def Let_def split: option.splits result.splits)

theorem build_mqtt_opts_axes_witness:
  "mo_credentials (case build_mqtt_opts \<lparr>te_read = (\<lambda>f. Ok []), te_pem_certs = (\<lambda>b. [] :: nat res list), te_add = (\<lambda>c. Ok ())\<rparr>
      (mqtt_client_from_env (\<lambda>_. None) ''/etc'') of Ok opts \<Rightarrow> opts) = Some (''placenet'', ''changeme'')"
proof -
  let ?te = "\<lparr>te_read = (\<lambda>f. Ok []), te_pem_certs = (\<lambda>b. [] :: nat res list), te_add = (\<lambda>c. Ok ())\<rparr>"
  let ?c = "mqtt_client_from_env (\<lambda>_. None) ''/etc''"
  have m: "mc_tls_mode ?c = TlsNone" "mc_username ?c = ''placenet''" "mc_password ?c = ''changeme''"
    by (simp_all add: mqtt_client_from_env_def env_or_def Let_def flag_true_def eq_ignore_ascii_case_def
        trim_def trim_end_by_def is_whitespace_def chr_code_def ascii_lower_def)
  obtain opts where o: "build_mqtt_opts ?te ?c = Ok opts"
    using m by (simp add: build_mqtt_opts_def Let_def)
  show ?thesis using build_mqtt_opts_axes [OF o] m o by simp
qed

end
