(* ===== verification/Registry.thy ===== *)
theory Registry
  imports Mqtt_Client
begin

section \<open>The beacon registry (\<open>src/services/beacon_management/registry.rs\<close>)\<close>

text \<open>
  Per-beacon records, the set of known gateways and the shared list of broadcast topics.
  \<open>Instant\<close>s are nanoseconds. The iteration order of the \<open>records\<close> hash map is an argument of
  the timeout sweep. The future returned by \<open>check_timeouts\<close> is a branch of the message
  loop's \<open>select!\<close> and is dropped when another branch completes first: the \<open>budget\<close> argument is
  the number of its waits that complete before that, \<open>None\<close> when it runs to the end.
\<close>

subsection \<open>Data\<close>

record mqtt_topic_config =
  tc_topic :: string
  tc_qos :: byte

datatype topic_type = Listen | Broadcast | Hybrid

record topic_channel =
  ch_beacon_id :: string
  ch_topic :: mqtt_topic_config
  ch_topic_type :: topic_type

record beacon_record =
  br_listen_topic :: string
  br_broadcast_topic :: string
  br_last_seen :: nat
  br_gateway_url :: "string option"
  br_gateway_shutdown_tx :: "chan option"

record registry =
  rr_records :: "string \<rightharpoonup> beacon_record"
  rr_known_gateways :: "string set"
  rr_broadcast_topics :: "string list"

definition BEACON_TIMEOUT :: nat where
  "BEACON_TIMEOUT = 120 * 10 ^ 9"

fun qos_from_u8 :: "byte \<Rightarrow> qos" where
  "qos_from_u8 q = (if q = 0 then AtMostOnce else if q = 2 then ExactlyOnce else AtLeastOnce)"

subsection \<open>Operations\<close>

definition registry_new :: "string option \<Rightarrow> string list \<Rightarrow> registry" where
  "registry_new own_gateway_url broadcast_topics =
     \<lparr>rr_records = Map.empty,
      rr_known_gateways = (case own_gateway_url of Some url \<Rightarrow> {url} | None \<Rightarrow> {}),
      rr_broadcast_topics = broadcast_topics\<rparr>"

definition update_record :: "string \<Rightarrow> (beacon_record \<Rightarrow> beacon_record) \<Rightarrow> registry \<Rightarrow> registry" where
  "update_record bid f reg =
     (case rr_records reg bid of
        None \<Rightarrow> reg
      | Some r \<Rightarrow> reg\<lparr>rr_records := (rr_records reg)(bid \<mapsto> f r)\<rparr>)"

definition ensure_record :: "string \<Rightarrow> nat \<Rightarrow> registry \<Rightarrow> registry" where
  "ensure_record bid now reg =
     (case rr_records reg bid of
        Some _ \<Rightarrow> reg
      | None \<Rightarrow> reg\<lparr>rr_records := (rr_records reg)(bid \<mapsto>
                 \<lparr>br_listen_topic = [], br_broadcast_topic = [], br_last_seen = now,
                  br_gateway_url = None, br_gateway_shutdown_tx = None\<rparr>)\<rparr>)"

definition push_topic :: "string \<Rightarrow> registry \<Rightarrow> registry" where
  "push_topic topic reg = reg\<lparr>rr_broadcast_topics := rr_broadcast_topics reg @ [topic]\<rparr>"

definition register_channel ::
  "(string \<Rightarrow> qos \<Rightarrow> unit res) \<Rightarrow> nat \<Rightarrow> topic_channel \<Rightarrow> registry \<Rightarrow> registry" where
  "register_channel subscribe now channel reg =
     (let topic = tc_topic (ch_topic channel);
          beacon_id = ch_beacon_id channel;
          reg1 = ensure_record beacon_id now reg in
      case ch_topic_type channel of
        Listen \<Rightarrow>
          (case subscribe topic (qos_from_u8 (tc_qos (ch_topic channel))) of
             Err e \<Rightarrow> reg1
           | Ok _ \<Rightarrow> update_record beacon_id (\<lambda>r. r\<lparr>br_listen_topic := topic\<rparr>) reg1)
      | Broadcast \<Rightarrow>
          update_record beacon_id (\<lambda>r. r\<lparr>br_broadcast_topic := topic\<rparr>) (push_topic topic reg1)
      | Hybrid \<Rightarrow>
          (case subscribe topic (qos_from_u8 (tc_qos (ch_topic channel))) of
             Err e \<Rightarrow> reg1
           | Ok _ \<Rightarrow>
               update_record beacon_id
                 (\<lambda>r. r\<lparr>br_listen_topic := topic, br_broadcast_topic := topic\<rparr>) (push_topic topic reg1)))"

definition is_stale :: "nat \<Rightarrow> beacon_record \<Rightarrow> bool" where
  "is_stale now r \<longleftrightarrow> BEACON_TIMEOUT < now - br_last_seen r"

definition stale_ids :: "string list \<Rightarrow> nat \<Rightarrow> registry \<Rightarrow> string list" where
  "stale_ids order now reg =
     filter (\<lambda>bid. case rr_records reg bid of None \<Rightarrow> False | Some r \<Rightarrow> is_stale now r) order"

fun spend :: "nat option \<Rightarrow> nat option option" where
  "spend None = Some None"
| "spend (Some 0) = None"
| "spend (Some (Suc n)) = Some (Some n)"

text \<open>
  One stale beacon: the record is removed first; the unsubscription and the write lock on the
  topic list are waits, at which the sweep may be dropped (\<open>None\<close>).
\<close>

definition deregister ::
  "string \<Rightarrow> beacon_record \<Rightarrow> nat option \<Rightarrow> registry \<Rightarrow> nat option option \<times> registry" where
  "deregister bid r budget reg =
     (let reg1 = reg\<lparr>rr_records := (rr_records reg)(bid := None)\<rparr> in
      case (if br_listen_topic r \<noteq> [] then spend budget else Some budget) of
        None \<Rightarrow> (None, reg1)
      | Some budget1 \<Rightarrow>
          (case (if br_broadcast_topic r \<noteq> [] then spend budget1 else Some budget1) of
             None \<Rightarrow> (None, reg1)
           | Some budget2 \<Rightarrow>
               (let reg2 = (if br_broadcast_topic r \<noteq> []
                            then reg1\<lparr>rr_broadcast_topics :=
                                   filter (\<lambda>t. t \<noteq> br_broadcast_topic r) (rr_broadcast_topics reg1)\<rparr>
                            else reg1);
                    reg3 = (case br_gateway_url r of
                              Some gw_url \<Rightarrow> reg2\<lparr>rr_known_gateways := rr_known_gateways reg2 - {gw_url}\<rparr>
                            | None \<Rightarrow> reg2)
                in (Some budget2, reg3))))"

fun deregister_all :: "string list \<Rightarrow> nat option \<Rightarrow> registry \<Rightarrow> registry" where
  "deregister_all [] budget reg = reg"
| "deregister_all (bid # bids) budget reg =
     (case rr_records reg bid of
        None \<Rightarrow> deregister_all bids budget reg
      | Some r \<Rightarrow>
          (case deregister bid r budget reg of
             (None, reg') \<Rightarrow> reg'
           | (Some budget', reg') \<Rightarrow> deregister_all bids budget' reg'))"

definition check_timeouts :: "string list \<Rightarrow> nat \<Rightarrow> nat option \<Rightarrow> registry \<Rightarrow> registry" where
  "check_timeouts order now budget reg = deregister_all (stale_ids order now reg) budget reg"

definition update_last_seen :: "nat \<Rightarrow> string \<Rightarrow> registry \<Rightarrow> registry" where
  "update_last_seen now bid reg = update_record bid (\<lambda>r. r\<lparr>br_last_seen := now\<rparr>) reg"

definition is_gateway_known :: "string \<Rightarrow> registry \<Rightarrow> bool" where
  "is_gateway_known gw_url reg \<longleftrightarrow> gw_url \<in> rr_known_gateways reg"

definition insert_gateway :: "string \<Rightarrow> registry \<Rightarrow> registry" where
  "insert_gateway gw_url reg = reg\<lparr>rr_known_gateways := insert gw_url (rr_known_gateways reg)\<rparr>"

definition associate_gateway :: "string \<Rightarrow> string \<Rightarrow> chan \<Rightarrow> registry \<Rightarrow> registry" where
  "associate_gateway bid gw_url shutdown_tx reg =
     update_record bid (\<lambda>r. r\<lparr>br_gateway_url := Some gw_url, br_gateway_shutdown_tx := Some shutdown_tx\<rparr>) reg"

lemmas registry_defs = registry_new_def update_record_def ensure_record_def push_topic_def
  update_last_seen_def insert_gateway_def associate_gateway_def is_gateway_known_def

subsection \<open>The gateway part of the registry\<close>

text \<open>
  A WebSocket connection to a gateway lives as long as its shutdown sender is held by a
  record. \<open>gateway_of\<close> reads, per beacon, the gateway whose connection it keeps alive.
\<close>

definition gateway_of :: "registry \<Rightarrow> string \<rightharpoonup> string" where
  "gateway_of reg bid =
     (case rr_records reg bid of
        Some r \<Rightarrow> if br_gateway_shutdown_tx r = None then None else br_gateway_url r
      | None \<Rightarrow> None)"

definition connected :: "registry \<Rightarrow> string \<Rightarrow> bool" where
  "connected reg url \<longleftrightarrow> url \<in> ran (gateway_of reg)"

text \<open>
  The gateway invariant, with \<open>own\<close> the Hamlet's own gateway: it is always known and never
  connected through a beacon; every connected gateway is known; no two beacons keep a
  connection to the same gateway; a record has a sender exactly when it has a URL.
\<close>

definition gateway_inv :: "string option \<Rightarrow> registry \<Rightarrow> bool" where
  "gateway_inv own reg \<longleftrightarrow>
     (\<forall>u. own = Some u \<longrightarrow> u \<in> rr_known_gateways reg \<and> \<not> connected reg u) \<and>
     ran (gateway_of reg) \<subseteq> rr_known_gateways reg \<and>
     inj_on (gateway_of reg) (dom (gateway_of reg)) \<and>
     (\<forall>r\<in>ran (rr_records reg). br_gateway_url r = None \<longleftrightarrow> br_gateway_shutdown_tx r = None)"

lemma gateway_of_update_other:
  "(\<And>r. rr_records reg bid = Some r \<Longrightarrow> br_gateway_url (f r) = br_gateway_url r
      \<and> br_gateway_shutdown_tx (f r) = br_gateway_shutdown_tx r) \<Longrightarrow>
   gateway_of (update_record bid f reg) = gateway_of reg"
  by (auto simp: gateway_of_def update_record_def fun_eq_iff split: option.splits)

lemma gateway_of_ensure [simp]: "gateway_of (ensure_record bid now reg) = gateway_of reg"
  by (auto simp: gateway_of_def ensure_record_def fun_eq_iff split: option.splits)

lemma gateway_of_push [simp]: "gateway_of (push_topic t reg) = gateway_of reg"
  by (simp add: gateway_of_def push_topic_def fun_eq_iff)

lemma ball_update_record:
  assumes "\<forall>r\<in>ran (rr_records reg). P r" and "\<And>r. P r \<Longrightarrow> P (f r)"
  shows "\<forall>r\<in>ran (rr_records (update_record bid f reg)). P r"
proof (cases "rr_records reg bid")
  case None
  with assms(1) show ?thesis by (simp add: update_record_def)
next
  case (Some r0)
  then have "P (f r0)" using assms by (simp add: ranI)
  moreover have "ran ((rr_records reg)(bid \<mapsto> f r0)) \<subseteq> insert (f r0) (ran (rr_records reg))"
    by (auto simp: ran_def)
  ultimately show ?thesis using assms(1) Some by (auto simp: update_record_def)
qed

lemma gateway_inv_cong:
  assumes "gateway_of reg' = gateway_of reg" and "rr_known_gateways reg' = rr_known_gateways reg"
    and "\<forall>r\<in>ran (rr_records reg'). br_gateway_url r = None \<longleftrightarrow> br_gateway_shutdown_tx r = None"
    and "gateway_inv own reg"
  shows "gateway_inv own reg'"
  using assms by (auto simp: gateway_inv_def connected_def)

lemma known_update_record [simp]: "rr_known_gateways (update_record bid f reg) = rr_known_gateways reg"
  by (simp add: update_record_def split: option.splits)

lemma known_ensure_record [simp]: "rr_known_gateways (ensure_record bid now reg) = rr_known_gateways reg"
  by (simp add: ensure_record_def split: option.splits)

lemma known_push_topic [simp]: "rr_known_gateways (push_topic t reg) = rr_known_gateways reg"
  by (simp add: push_topic_def)

lemma gateway_inv_update:
  assumes "gateway_inv own reg"
    and f: "\<And>r. br_gateway_url (f r) = br_gateway_url r \<and> br_gateway_shutdown_tx (f r) = br_gateway_shutdown_tx r"
  shows "gateway_inv own (update_record bid f reg)"
proof (rule gateway_inv_cong [OF _ _ _ assms(1)])
  show "\<forall>r\<in>ran (rr_records (update_record bid f reg)).
      br_gateway_url r = None \<longleftrightarrow> br_gateway_shutdown_tx r = None"
    using assms(1) f by (intro ball_update_record) (simp_all add: gateway_inv_def)
qed (use f in \<open>simp_all add: gateway_of_update_other\<close>)

lemma gateway_inv_ensure:
  assumes "gateway_inv own reg"
  shows "gateway_inv own (ensure_record bid now reg)"
proof (rule gateway_inv_cong [OF gateway_of_ensure known_ensure_record _ assms])
  show "\<forall>r\<in>ran (rr_records (ensure_record bid now reg)).
      br_gateway_url r = None \<longleftrightarrow> br_gateway_shutdown_tx r = None"
    using assms by (auto simp: gateway_inv_def ensure_record_def ran_def split: option.splits if_splits)
qed

lemma gateway_inv_push: "gateway_inv own reg \<Longrightarrow> gateway_inv own (push_topic t reg)"
  by (rule gateway_inv_cong [OF gateway_of_push known_push_topic])
    (auto simp: gateway_inv_def push_topic_def)

lemma gateway_inv_new: "gateway_inv own (registry_new own topics)"
  by (auto simp: gateway_inv_def registry_new_def gateway_of_def [abs_def] connected_def ran_def inj_on_def dom_def)

lemma gateway_inv_register [inv_intros]:
  "gateway_inv own reg \<Longrightarrow> gateway_inv own (register_channel subscribe now channel reg)"
  by (auto simp: register_channel_def Let_def split: topic_type.splits result.splits
      intro!: gateway_inv_update gateway_inv_push gateway_inv_ensure)

lemma gateway_inv_last_seen [inv_intros]:
  "gateway_inv own reg \<Longrightarrow> gateway_inv own (update_last_seen now bid reg)"
  by (simp add: update_last_seen_def gateway_inv_update)

text \<open>Removing a record; then dropping from the known set a URL no record uses any more.\<close>

lemma gateway_of_remove:
  "gateway_of (reg\<lparr>rr_records := (rr_records reg)(bid := None)\<rparr>) = (gateway_of reg)(bid := None)"
  by (auto simp: gateway_of_def fun_eq_iff)

lemma gateway_inv_remove:
  assumes "gateway_inv own reg"
  shows "gateway_inv own (reg\<lparr>rr_records := (rr_records reg)(bid := None)\<rparr>)"
proof -
  have sub: "ran ((gateway_of reg)(bid := None)) \<subseteq> ran (gateway_of reg)"
    by (auto simp: ran_def split: if_splits)
  have "inj_on ((gateway_of reg)(bid := None)) (dom ((gateway_of reg)(bid := None)))"
    using assms by (auto simp: gateway_inv_def inj_on_def)
  moreover have "ran ((rr_records reg)(bid := None)) \<subseteq> ran (rr_records reg)"
    by (auto simp: ran_def split: if_splits)
  ultimately show ?thesis
    using assms sub by (auto simp: gateway_inv_def gateway_of_remove connected_def)
qed

lemma gateway_inv_evict:
  assumes "gateway_inv own reg" and "\<not> connected reg u" and "own \<noteq> Some u"
  shows "gateway_inv own (reg\<lparr>rr_known_gateways := rr_known_gateways reg - {u}\<rparr>)"
proof -
  have "gateway_of (reg\<lparr>rr_known_gateways := K\<rparr>) = gateway_of reg" for K
    by (simp add: gateway_of_def fun_eq_iff)
  with assms show ?thesis by (auto simp: gateway_inv_def connected_def)
qed

lemma gateway_inv_topics: "gateway_inv own (reg\<lparr>rr_broadcast_topics := ts\<rparr>) = gateway_inv own reg"
  by (simp add: gateway_inv_def gateway_of_def [abs_def] connected_def)

lemma removed_not_connected:
  assumes "gateway_inv own reg" and "rr_records reg bid = Some r" and "br_gateway_url r = Some u"
  shows "\<not> connected (reg\<lparr>rr_records := (rr_records reg)(bid := None)\<rparr>) u" and "own \<noteq> Some u"
proof -
  have "br_gateway_shutdown_tx r \<noteq> None"
    using assms by (auto simp: gateway_inv_def ran_def)
  then have g: "gateway_of reg bid = Some u" using assms by (simp add: gateway_of_def)
  show "\<not> connected (reg\<lparr>rr_records := (rr_records reg)(bid := None)\<rparr>) u"
  proof
    assume "connected (reg\<lparr>rr_records := (rr_records reg)(bid := None)\<rparr>) u"
    then obtain b where "b \<noteq> bid" "gateway_of reg b = Some u"
      by (auto simp: connected_def gateway_of_remove ran_def split: if_splits)
    moreover have "inj_on (gateway_of reg) (dom (gateway_of reg))"
      using assms(1) by (simp add: gateway_inv_def)
    ultimately show False using g inj_onD [of "gateway_of reg" "dom (gateway_of reg)" b bid] by (simp add: domI)
  qed
  show "own \<noteq> Some u" using assms(1) g by (auto simp: gateway_inv_def connected_def ran_def)
qed

lemma gateway_inv_deregister:
  assumes "gateway_inv own reg" and "rr_records reg bid = Some r"
  shows "gateway_inv own (snd (deregister bid r budget reg))"
proof -
  let ?reg1 = "reg\<lparr>rr_records := (rr_records reg)(bid := None)\<rparr>"
  have 1: "gateway_inv own ?reg1" using assms(1) by (rule gateway_inv_remove)
  then have 2: "gateway_inv own (?reg1\<lparr>rr_broadcast_topics := ts\<rparr>)" for ts
    by (simp only: gateway_inv_topics)
  have g: "gateway_of (?reg1\<lparr>rr_broadcast_topics := ts\<rparr>) = gateway_of ?reg1" for ts
    by (simp add: gateway_of_def fun_eq_iff)
  have 3: "\<not> connected ?reg1 u" "\<not> connected (?reg1\<lparr>rr_broadcast_topics := ts\<rparr>) u" "own \<noteq> Some u"
    if "br_gateway_url r = Some u" for u ts
    using removed_not_connected [OF assms that] g [of ts] by (simp_all add: connected_def)
  have 4: "gateway_inv own (?reg1\<lparr>rr_known_gateways := rr_known_gateways reg - {u}\<rparr>)"
    "gateway_inv own (?reg1\<lparr>rr_broadcast_topics := ts, rr_known_gateways := rr_known_gateways reg - {u}\<rparr>)"
    if "br_gateway_url r = Some u" for u ts
    using gateway_inv_evict [OF 1 3(1) 3(3)] gateway_inv_evict [OF 2 3(2) 3(3)] that by simp_all
  show ?thesis
    using 1 2 4 by (simp add: deregister_def Let_def split: option.split)
qed

lemma gateway_inv_deregister_all [inv_intros]:
  "gateway_inv own reg \<Longrightarrow> gateway_inv own (deregister_all bids budget reg)"
proof (induction bids budget reg rule: deregister_all.induct)
  case (2 bid bids budget reg)
  show ?case
  proof (cases "rr_records reg bid")
    case (Some r)
    obtain b reg' where d: "deregister bid r budget reg = (b, reg')" by fastforce
    with gateway_inv_deregister [OF 2(3) Some, of budget] have "gateway_inv own reg'" by simp
    with Some d 2(2) show ?thesis by (cases b) (simp_all add: 2(2))
  qed (use 2 in simp)
qed simp

lemma gateway_inv_check_timeouts [inv_intros]:
  "gateway_inv own reg \<Longrightarrow> gateway_inv own (check_timeouts order now budget reg)"
  by (simp add: check_timeouts_def gateway_inv_deregister_all)

text \<open>A new gateway: insert, then associate; the URL was not known, so no record uses it.\<close>

lemma gateway_inv_connect [inv_intros]:
  assumes "gateway_inv own reg" and "\<not> is_gateway_known u reg"
  shows "gateway_inv own (insert_gateway u reg)"
    and "gateway_inv own (associate_gateway bid u c (insert_gateway u reg))"
proof -
  have new: "u \<notin> ran (gateway_of reg)" "own \<noteq> Some u"
    using assms by (auto simp: gateway_inv_def is_gateway_known_def)
  have g: "gateway_of (insert_gateway u reg) = gateway_of reg"
    by (simp add: gateway_of_def [abs_def] insert_gateway_def)
  then show ins: "gateway_inv own (insert_gateway u reg)"
    using assms by (auto simp: gateway_inv_def connected_def insert_gateway_def)
  show "gateway_inv own (associate_gateway bid u c (insert_gateway u reg))"
  proof (cases "rr_records reg bid")
    case None
    then have "associate_gateway bid u c (insert_gateway u reg) = insert_gateway u reg"
      by (simp add: associate_gateway_def update_record_def insert_gateway_def)
    with ins show ?thesis by simp
  next
    case (Some r)
    then have ga: "gateway_of (associate_gateway bid u c (insert_gateway u reg)) = (gateway_of reg)(bid \<mapsto> u)"
      by (auto simp: gateway_of_def fun_eq_iff associate_gateway_def update_record_def insert_gateway_def)
    have ran': "ran ((gateway_of reg)(bid \<mapsto> u)) \<subseteq> insert u (ran (gateway_of reg))"
      by (auto simp: ran_def)
    have "inj_on ((gateway_of reg)(bid \<mapsto> u)) (dom ((gateway_of reg)(bid \<mapsto> u)))"
      using assms(1) new(1) by (auto simp: gateway_inv_def inj_on_def ran_def)
    moreover have "ran (rr_records (associate_gateway bid u c (insert_gateway u reg))) \<subseteq>
        insert (r\<lparr>br_gateway_url := Some u, br_gateway_shutdown_tx := Some c\<rparr>) (ran (rr_records reg))"
      using Some by (auto simp: associate_gateway_def update_record_def insert_gateway_def ran_def)
    ultimately show ?thesis
      using assms(1) new ran' unfolding gateway_inv_def connected_def ga
      by (auto simp: associate_gateway_def insert_gateway_def subset_iff)
  qed
qed

subsection \<open>The effect of a sweep\<close>

definition dead_topic :: "string set \<Rightarrow> registry \<Rightarrow> string \<Rightarrow> bool" where
  "dead_topic B reg t \<longleftrightarrow>
     t \<noteq> [] \<and> (\<exists>bid\<in>B. \<exists>r. rr_records reg bid = Some r \<and> br_broadcast_topic r = t)"

definition dead_gateways :: "string set \<Rightarrow> registry \<Rightarrow> string set" where
  "dead_gateways B reg = {u. \<exists>bid\<in>B. \<exists>r. rr_records reg bid = Some r \<and> br_gateway_url r = Some u}"

text \<open>The part of a registry that is left when the beacons \<open>B\<close> are gone.\<close>

definition without :: "string set \<Rightarrow> registry \<Rightarrow> registry" where
  "without B reg =
     reg\<lparr>rr_records := rr_records reg |` (- B),
         rr_known_gateways := rr_known_gateways reg - dead_gateways B reg,
         rr_broadcast_topics := filter (\<lambda>t. \<not> dead_topic B reg t) (rr_broadcast_topics reg)\<rparr>"

lemma without_empty [simp]: "without {} reg = reg"
  by (simp add: without_def dead_topic_def dead_gateways_def restrict_map_def)

lemma without_absent:
  assumes "rr_records reg bid = None"
  shows "without (insert bid B) reg = without B reg"
proof -
  have "rr_records reg |` (- insert bid B) = rr_records reg |` (- B)"
    using assms by (auto simp: restrict_map_def fun_eq_iff)
  then show ?thesis using assms by (simp add: without_def dead_topic_def dead_gateways_def)
qed

lemma without_without:
  "without B (without A reg) = without (A \<union> B) reg"
proof -
  have "rr_records reg |` (- A) |` (- B) = rr_records reg |` (- (A \<union> B))"
    by (auto simp: restrict_map_def fun_eq_iff)
  moreover have "dead_topic A reg t \<or> dead_topic B (without A reg) t \<longleftrightarrow> dead_topic (A \<union> B) reg t" for t
    by (auto simp: dead_topic_def without_def restrict_map_def split: if_splits)
  then have "(\<lambda>t. \<not> dead_topic B (without A reg) t \<and> \<not> dead_topic A reg t) = (\<lambda>t. \<not> dead_topic (A \<union> B) reg t)"
    by blast
  moreover have "dead_gateways A reg \<union> dead_gateways B (without A reg) = dead_gateways (A \<union> B) reg"
    by (auto simp: dead_gateways_def without_def restrict_map_def split: if_splits)
  then have "rr_known_gateways reg - dead_gateways A reg - dead_gateways B (without A reg) =
      rr_known_gateways reg - dead_gateways (A \<union> B) reg" by blast
  ultimately show ?thesis
    by (simp add: without_def [of B "without A reg"]) (simp add: without_def conj_commute)
qed

lemma deregister_without:
  assumes "rr_records reg bid = Some r"
  shows "deregister bid r None reg = (Some None, without {bid} reg)"
proof -
  have "(rr_records reg)(bid := None) = rr_records reg |` (- {bid})"
    by (auto simp: restrict_map_def fun_eq_iff)
  moreover have "filter (\<lambda>t. \<not> dead_topic {bid} reg t) ts =
      (if br_broadcast_topic r \<noteq> [] then filter (\<lambda>t. t \<noteq> br_broadcast_topic r) ts else ts)" for ts
    using assms by (auto simp: dead_topic_def intro!: filter_cong filter_True)
  moreover have "dead_gateways {bid} reg = (case br_gateway_url r of Some u \<Rightarrow> {u} | None \<Rightarrow> {})"
    using assms by (auto simp: dead_gateways_def split: option.splits)
  ultimately show ?thesis
    by (simp add: deregister_def without_def Let_def split: option.split)
qed

lemma deregister_all_without: "deregister_all bids None reg = without (set bids) reg"
proof (induction bids arbitrary: reg)
  case (Cons bid bids)
  show ?case
  proof (cases "rr_records reg bid")
    case None
    with Cons show ?thesis by (simp add: without_absent)
  next
    case (Some r)
    with Cons show ?thesis by (simp add: deregister_without without_without)
  qed
qed simp

definition stale_set :: "nat \<Rightarrow> registry \<Rightarrow> string set" where
  "stale_set now reg = {bid. \<exists>r. rr_records reg bid = Some r \<and> is_stale now r}"

lemma set_stale_ids: "set order = dom (rr_records reg) \<Longrightarrow> set (stale_ids order now reg) = stale_set now reg"
  by (auto simp: stale_ids_def stale_set_def dom_def split: option.splits)

text \<open>
  C12: A sweep that runs to its end, whatever the iteration order of the hash map, removes
  exactly the records silent for more than two minutes, drops every occurrence of their
  broadcast topics from the shared list (keeping the order of the others) and forgets exactly
  the gateways they were associated with.
\<close>

theorem sweep_removes_stale:
  assumes "set order = dom (rr_records reg)"
  shows "check_timeouts order now None reg =
    reg\<lparr>rr_records := (\<lambda>bid. case rr_records reg bid of
             Some r \<Rightarrow> if now - br_last_seen r > 120 * 10 ^ 9 then None else Some r
           | None \<Rightarrow> None),
        rr_known_gateways := rr_known_gateways reg - dead_gateways (stale_set now reg) reg,
        rr_broadcast_topics :=
          filter (\<lambda>t. \<not> dead_topic (stale_set now reg) reg t) (rr_broadcast_topics reg)\<rparr>"
proof -
  have "check_timeouts order now None reg = without (stale_set now reg) reg"
    using assms by (simp add: check_timeouts_def deregister_all_without set_stale_ids)
  moreover have "rr_records reg |` (- stale_set now reg) =
      (\<lambda>bid. case rr_records reg bid of
         Some r \<Rightarrow> if now - br_last_seen r > 120 * 10 ^ 9 then None else Some r | None \<Rightarrow> None)"
    by (auto simp: restrict_map_def stale_set_def is_stale_def BEACON_TIMEOUT_def fun_eq_iff split: option.split)
  ultimately show ?thesis by (simp add: without_def)
qed

definition two_beacons :: registry where
  "two_beacons = \<lparr>rr_records = [''a'' \<mapsto> \<lparr>br_listen_topic = ''a/rec'', br_broadcast_topic = ''a/cast'',
       br_last_seen = 0, br_gateway_url = Some ''http://g'', br_gateway_shutdown_tx = Some 7\<rparr>,
     ''b'' \<mapsto> \<lparr>br_listen_topic = ''b/rec'', br_broadcast_topic = ''b/cast'',
       br_last_seen = 100 * 10 ^ 9, br_gateway_url = None, br_gateway_shutdown_tx = None\<rparr>],
     rr_known_gateways = {''http://g'', ''http://own''},
     rr_broadcast_topics = [''a/cast'', ''b/cast'']\<rparr>"

theorem sweep_removes_stale_witness:
  "set [''a'', ''b''] = dom (rr_records two_beacons) \<and>
   rr_records (check_timeouts [''a'', ''b''] (121 * 10 ^ 9) None two_beacons) ''a'' = None \<and>
   rr_records (check_timeouts [''a'', ''b''] (121 * 10 ^ 9) None two_beacons) ''b'' \<noteq> None"
proof -
  have o: "set [''a'', ''b''] = dom (rr_records two_beacons)" by (auto simp: two_beacons_def)
  show ?thesis
    unfolding sweep_removes_stale [OF o] using o by (simp add: two_beacons_def)
qed

text \<open>
  A sweep dropped while it waits for the unsubscription of a stale beacon has already
  removed the beacon's record but not yet its broadcast topic or its gateway: both stay behind,
  and no record is left from which a later sweep could find them.
\<close>

theorem sweep_dropped_leaks:
  assumes "rr_records reg bid = Some r" and "is_stale now r"
    and "br_listen_topic r \<noteq> []"
  shows "check_timeouts (bid # order) now (Some 0) reg =
           reg\<lparr>rr_records := (rr_records reg)(bid := None)\<rparr>"
  using assms by (simp add: check_timeouts_def stale_ids_def deregister_def Let_def)

theorem sweep_dropped_leaks_witness:
  "''http://g'' \<in> rr_known_gateways (check_timeouts [''a'', ''b''] (121 * 10 ^ 9) (Some 0) two_beacons) \<and>
   ''a/cast'' \<in> set (rr_broadcast_topics (check_timeouts [''a'', ''b''] (121 * 10 ^ 9) (Some 0) two_beacons)) \<and>
   rr_records (check_timeouts [''a'', ''b''] (121 * 10 ^ 9) (Some 0) two_beacons) ''a'' = None"
  using sweep_dropped_leaks [of two_beacons "''a''" _ "121 * 10 ^ 9" "[''b'']"]
  by (simp add: two_beacons_def is_stale_def BEACON_TIMEOUT_def)

subsection \<open>The handshake's two channels\<close>

text \<open>
  After both channels of a fresh beacon id have been registered, its record has the listen
  topic exactly when the subscription was accepted and has the broadcast topic in any case; the
  broadcast topic is appended to the shared list, no other record changes and the subscription
  is the only request made to the client, at the QoS of the channel.
\<close>

theorem handshake_registered:
  assumes "rr_records reg bid = None"
  defines "channel ty topic \<equiv> \<lparr>ch_beacon_id = bid, ch_topic = \<lparr>tc_topic = topic, tc_qos = 1\<rparr>, ch_topic_type = ty\<rparr>"
  shows "register_channel subscribe t2 (channel Broadcast bt) (register_channel subscribe t1 (channel Listen lt) reg) =
    reg\<lparr>rr_records := (rr_records reg)(bid \<mapsto>
          \<lparr>br_listen_topic = (if is_ok (subscribe lt AtLeastOnce) then lt else []),
           br_broadcast_topic = bt, br_last_seen = t1,
           br_gateway_url = None, br_gateway_shutdown_tx = None\<rparr>),
        rr_broadcast_topics := rr_broadcast_topics reg @ [bt]\<rparr>"
  using assms by (simp add: register_channel_def channel_def registry_defs Let_def split: result.splits)

theorem handshake_registered_witness:
  "rr_records two_beacons ''c'' = None \<and>
   rr_broadcast_topics
     (register_channel (\<lambda>t q. Ok ()) 5
        \<lparr>ch_beacon_id = ''c'', ch_topic = \<lparr>tc_topic = ''c/cast'', tc_qos = 1\<rparr>, ch_topic_type = Broadcast\<rparr>
        (register_channel (\<lambda>t q. Ok ()) 4
           \<lparr>ch_beacon_id = ''c'', ch_topic = \<lparr>tc_topic = ''c/rec'', tc_qos = 1\<rparr>, ch_topic_type = Listen\<rparr> two_beacons)) =
   [''a/cast'', ''b/cast'', ''c/cast'']"
proof -
  have n: "rr_records two_beacons ''c'' = None" by (simp add: two_beacons_def)
  show ?thesis unfolding handshake_registered [OF n] using n by (simp add: two_beacons_def)
qed

end
