(* ===== verification/Ca.thy ===== *)
theory Ca
  imports Prelude Config
begin

section \<open>The certificate authority (\<open>src/infra/ca/\<close>)\<close>

text \<open>
  The CA state in memory, the three tables of its database (\<open>migrations/0001\<close> to \<open>0003\<close>)
  and every operation over them. The certificate library \<open>rcgen\<close> is the record \<open>rcgen\<close> of
  functions; a freshly generated key pair, the clock and driver errors are arguments of the
  operations that use them. The locale \<open>cert_store\<close> is the interface of the device table.
\<close>

subsection \<open>Certificates\<close>

datatype key_usage = KeyCertSign | CrlSign
datatype ext_key_usage = ClientAuth | ServerAuth
datatype dn_type = CommonName | OrganizationName
datatype 'ip san_type = SanIp 'ip | SanDns string

record 'ip cert_params =
  cp_is_ca :: bool
  cp_key_usages :: "key_usage list"
  cp_distinguished_name :: "(dn_type \<times> string) list"
  cp_extended_key_usages :: "ext_key_usage list"
  cp_subject_alt_names :: "'ip san_type list"

record ('kp, 'cert, 'csr, 'ip) rcgen =
  rg_default :: "'ip cert_params"
  rg_key_from_pem :: "string \<Rightarrow> 'kp res"
  rg_key_to_pem :: "'kp \<Rightarrow> string"
  rg_from_ca_cert_pem :: "string \<Rightarrow> 'ip cert_params res"
  rg_self_signed :: "'ip cert_params \<Rightarrow> 'kp \<Rightarrow> 'cert res"
  rg_signed_by :: "'ip cert_params \<Rightarrow> 'kp \<Rightarrow> 'cert \<Rightarrow> 'kp \<Rightarrow> 'cert res"
  rg_csr_from_pem :: "string \<Rightarrow> 'csr res"
  rg_csr_signed_by :: "'csr \<Rightarrow> 'cert \<Rightarrow> 'kp \<Rightarrow> 'cert res"
  rg_pem :: "'cert \<Rightarrow> string"
  rg_ia5 :: "string \<Rightarrow> string option"

subsection \<open>State\<close>

definition CA_CN :: string where
  "CA_CN = ''PlaceNet Root CA''"

record ('kp, 'cert) ca_state =
  cs_subject_cn :: string
  cs_cert :: 'cert
  cs_key_pair :: 'kp

record device_row =
  dr_device_id :: string
  dr_cert_pem :: string
  dr_issued_at :: int
  dr_expires_at :: int
  dr_revoked :: int

record device_cert_record =
  dc_device_id :: string
  dc_cert_pem :: string
  dc_issued_at :: int
  dc_expires_at :: int
  dc_revoked :: bool

record identity_row =
  ni_cert_pem :: string
  ni_key_pem :: string
  ni_issued_at :: int
  ni_expires_at :: int

record ca_db =
  db_ca_keys :: "(string \<times> string) option"
  db_device_certs :: "device_row list"
  db_node_identity :: "identity_row option"

record ('kp, 'cert) ca_service =
  ca_loaded :: "('kp, 'cert) ca_state option"
  ca_pool :: ca_db

datatype ca_stmt =
    SelectCa | InsertCa | UpsertDevice | SelectCert | ListDevices | RevokeDevice
  | SelectIdentity | InsertIdentity | SelectRevoked

type_synonym ca_faults = "ca_stmt \<Rightarrow> string option"

definition run_stmt :: "ca_faults \<Rightarrow> ca_stmt \<Rightarrow> string \<Rightarrow> unit res" where
  "run_stmt faults st msg = (case faults st of None \<Rightarrow> Ok () | Some e \<Rightarrow> Err (msg @ e))"

subsection \<open>Operations on certificates (\<open>operations.rs\<close>)\<close>

definition load_ca_from_db ::
  "('kp, 'cert, 'csr, 'ip) rcgen \<Rightarrow> ca_faults \<Rightarrow> ca_db \<Rightarrow> ('kp, 'cert) ca_state option res" where
  "load_ca_from_db rg faults db =
     (case run_stmt faults SelectCa ''Failed to query CA from database: '' of Err e \<Rightarrow> Err e | Ok _ \<Rightarrow>
      case db_ca_keys db of None \<Rightarrow> Ok None | Some (cert_pem, key_pem) \<Rightarrow>
      case rg_key_from_pem rg key_pem of
        Err e \<Rightarrow> Err (''Failed to parse CA private key: '' @ e) | Ok key_pair \<Rightarrow>
      case rg_from_ca_cert_pem rg cert_pem of
        Err e \<Rightarrow> Err (''Failed to parse CA certificate: '' @ e) | Ok params \<Rightarrow>
      case rg_self_signed rg params key_pair of
        Err e \<Rightarrow> Err (''Failed to reconstruct CA cert: '' @ e) | Ok cert \<Rightarrow>
      Ok (Some \<lparr>cs_subject_cn = CA_CN, cs_cert = cert, cs_key_pair = key_pair\<rparr>))"

definition ca_params :: "('kp, 'cert, 'csr, 'ip) rcgen \<Rightarrow> 'ip cert_params" where
  "ca_params rg = (rg_default rg)\<lparr>cp_is_ca := True, cp_key_usages := [KeyCertSign, CrlSign],
     cp_distinguished_name := [(CommonName, CA_CN), (OrganizationName, ''PlaceNet'')]\<rparr>"

definition generate_and_persist_ca ::
  "('kp, 'cert, 'csr, 'ip) rcgen \<Rightarrow> 'kp res \<Rightarrow> ca_faults \<Rightarrow> string \<Rightarrow> ca_db \<Rightarrow>
     ('kp, 'cert) ca_state res \<times> ca_db" where
  "generate_and_persist_ca rg generated faults unique_error db =
     (case generated of Err e \<Rightarrow> (Err (''Failed to generate CA key pair: '' @ e), db) | Ok key_pair \<Rightarrow>
      case rg_self_signed rg (ca_params rg) key_pair of
        Err e \<Rightarrow> (Err (''Failed to self-sign CA certificate: '' @ e), db) | Ok cert \<Rightarrow>
      case run_stmt faults InsertCa ''Failed to persist CA to database: '' of
        Err e \<Rightarrow> (Err e, db) | Ok _ \<Rightarrow>
      if db_ca_keys db \<noteq> None then (Err (''Failed to persist CA to database: '' @ unique_error), db)
      else (Ok \<lparr>cs_subject_cn = CA_CN, cs_cert = cert, cs_key_pair = key_pair\<rparr>,
            db\<lparr>db_ca_keys := Some (rg_pem rg cert, rg_key_to_pem rg key_pair)\<rparr>))"

definition load_or_generate_ca ::
  "('kp, 'cert, 'csr, 'ip) rcgen \<Rightarrow> 'kp res \<Rightarrow> ca_faults \<Rightarrow> string \<Rightarrow> ca_db \<Rightarrow>
     ('kp, 'cert) ca_state res \<times> ca_db" where
  "load_or_generate_ca rg generated faults unique_error db =
     (case load_ca_from_db rg faults db of
        Err e \<Rightarrow> (Err e, db)
      | Ok (Some st) \<Rightarrow> (Ok st, db)
      | Ok None \<Rightarrow> generate_and_persist_ca rg generated faults unique_error db)"

definition one_year :: int where
  "one_year = 365 * 24 * 60 * 60"

definition generate_node_identity ::
  "('kp, 'cert, 'csr, 'ip) rcgen \<Rightarrow> 'kp res \<Rightarrow> int \<Rightarrow> ('kp, 'cert) ca_state \<Rightarrow>
     (string \<times> string \<times> int \<times> int) res" where
  "generate_node_identity rg generated now ca =
     (case generated of Err e \<Rightarrow> Err (''Failed to generate node identity key pair: '' @ e) | Ok key_pair \<Rightarrow>
      case rg_signed_by rg
             ((rg_default rg)\<lparr>cp_distinguished_name := [(CommonName, ''hamlet''), (OrganizationName, ''PlaceNet'')],
                cp_extended_key_usages := [ClientAuth]\<rparr>)
             key_pair (cs_cert ca) (cs_key_pair ca) of
        Err e \<Rightarrow> Err (''Failed to sign node identity certificate: '' @ e) | Ok cert \<Rightarrow>
      Ok (rg_pem rg cert, rg_key_to_pem rg key_pair, now, i64_add now one_year))"

definition broker_sans ::
  "('kp, 'cert, 'csr, 'ip) rcgen \<Rightarrow> 'ip list \<Rightarrow> string list \<Rightarrow> 'ip san_type list" where
  "broker_sans rg san_ips san_hostnames =
     map SanIp san_ips @ map SanDns (List.map_filter (rg_ia5 rg) san_hostnames)"

definition generate_broker_identity ::
  "('kp, 'cert, 'csr, 'ip) rcgen \<Rightarrow> 'kp res \<Rightarrow> ('kp, 'cert) ca_state \<Rightarrow> 'ip list \<Rightarrow> string list \<Rightarrow>
     (string \<times> string) res" where
  "generate_broker_identity rg generated ca san_ips san_hostnames =
     (case generated of Err e \<Rightarrow> Err (''Failed to generate broker key pair: '' @ e) | Ok key_pair \<Rightarrow>
      case rg_signed_by rg
             ((rg_default rg)\<lparr>cp_distinguished_name := [(CommonName, ''placenet-broker''), (OrganizationName, ''PlaceNet'')],
                cp_extended_key_usages := [ServerAuth],
                cp_subject_alt_names := broker_sans rg san_ips san_hostnames\<rparr>)
             key_pair (cs_cert ca) (cs_key_pair ca) of
        Err e \<Rightarrow> Err (''Failed to sign broker certificate: '' @ e) | Ok cert \<Rightarrow>
      Ok (rg_pem rg cert, rg_key_to_pem rg key_pair))"

definition op_sign_csr ::
  "('kp, 'cert, 'csr, 'ip) rcgen \<Rightarrow> int \<Rightarrow> ('kp, 'cert) ca_state \<Rightarrow> string \<Rightarrow> (string \<times> int \<times> int) res" where
  "op_sign_csr rg now ca csr_pem =
     (case rg_csr_from_pem rg csr_pem of Err e \<Rightarrow> Err (''Invalid CSR: '' @ e) | Ok csr \<Rightarrow>
      case rg_csr_signed_by rg csr (cs_cert ca) (cs_key_pair ca) of
        Err e \<Rightarrow> Err (''Failed to sign CSR: '' @ e) | Ok signed_cert \<Rightarrow>
      Ok (rg_pem rg signed_cert, now, i64_add now one_year))"

subsection \<open>The device table\<close>

fun find_device :: "device_row list \<Rightarrow> string \<Rightarrow> device_row option" where
  "find_device [] d = None"
| "find_device (r # rs) d = (if dr_device_id r = d then Some r else find_device rs d)"

text \<open>\<open>INSERT .. ON CONFLICT(device_id) DO UPDATE SET ..\<close>.\<close>

fun upsert_device :: "string \<Rightarrow> string \<times> int \<times> int \<Rightarrow> device_row list \<Rightarrow> device_row list" where
  "upsert_device d (cert_pem, issued_at, expires_at) [] =
     [\<lparr>dr_device_id = d, dr_cert_pem = cert_pem, dr_issued_at = issued_at,
       dr_expires_at = expires_at, dr_revoked = 0\<rparr>]"
| "upsert_device d (cert_pem, issued_at, expires_at) (r # rs) =
     (if dr_device_id r = d
      then r\<lparr>dr_cert_pem := cert_pem, dr_issued_at := issued_at, dr_expires_at := expires_at, dr_revoked := 0\<rparr> # rs
      else r # upsert_device d (cert_pem, issued_at, expires_at) rs)"

definition revoke_rows :: "string \<Rightarrow> device_row list \<Rightarrow> device_row list" where
  "revoke_rows d rs = map (\<lambda>r. if dr_device_id r = d then r\<lparr>dr_revoked := 1\<rparr> else r) rs"

definition rows_affected :: "string \<Rightarrow> device_row list \<Rightarrow> nat" where
  "rows_affected d rs = length (filter (\<lambda>r. dr_device_id r = d) rs)"

subsection \<open>The service (\<open>ca_service.rs\<close>)\<close>

definition ca_new :: "ca_db \<Rightarrow> ('kp, 'cert) ca_service" where
  "ca_new pool = \<lparr>ca_loaded = None, ca_pool = pool\<rparr>"

definition ca_init ::
  "('kp, 'cert, 'csr, 'ip) rcgen \<Rightarrow> unit res \<Rightarrow> 'kp res \<Rightarrow> ca_faults \<Rightarrow> string \<Rightarrow>
     ('kp, 'cert) ca_service \<Rightarrow> unit res \<times> ('kp, 'cert) ca_service" where
  "ca_init rg migrated generated faults unique_error s =
     (case migrated of
        Err e \<Rightarrow> (Err (''Failed to run CA migrations: '' @ e), s)
      | Ok _ \<Rightarrow>
          (case load_or_generate_ca rg generated faults unique_error (ca_pool s) of
             (Err e, db) \<Rightarrow> (Err e, s\<lparr>ca_pool := db\<rparr>)
           | (Ok st, db) \<Rightarrow> (Ok (), s\<lparr>ca_pool := db, ca_loaded := Some st\<rparr>)))"

definition ca_register ::
  "('kp, 'cert, 'csr, 'ip) rcgen \<Rightarrow> unit res \<Rightarrow> ca_db res \<Rightarrow> unit res \<Rightarrow> 'kp res \<Rightarrow> ca_faults \<Rightarrow> string \<Rightarrow>
     ('kp, 'cert) ca_service res" where
  "ca_register rg url_ok opened migrated generated faults unique_error =
     (case url_ok of Err e \<Rightarrow> Err (''Invalid database URL: '' @ e) | Ok _ \<Rightarrow>
      case opened of Err e \<Rightarrow> Err (''Failed to open CA database: '' @ e) | Ok pool \<Rightarrow>
      case ca_init rg migrated generated faults unique_error (ca_new pool) of
        (Err e, s) \<Rightarrow> Err e
      | (Ok _, s) \<Rightarrow> Ok s)"

definition not_initialised :: string where
  "not_initialised = ''CA not initialised''"

definition sign_csr ::
  "('kp, 'cert, 'csr, 'ip) rcgen \<Rightarrow> int \<Rightarrow> ca_faults \<Rightarrow> string \<Rightarrow> string \<Rightarrow>
     ('kp, 'cert) ca_service \<Rightarrow> string res \<times> ('kp, 'cert) ca_service" where
  "sign_csr rg now faults device_id csr_pem s =
     (case ca_loaded s of None \<Rightarrow> (Err not_initialised, s) | Some ca \<Rightarrow>
      case op_sign_csr rg now ca csr_pem of Err e \<Rightarrow> (Err e, s) | Ok (cert_pem, issued_at, expires_at) \<Rightarrow>
      case run_stmt faults UpsertDevice ''Failed to persist device cert: '' of Err e \<Rightarrow> (Err e, s) | Ok _ \<Rightarrow>
      (Ok cert_pem,
       s\<lparr>ca_pool := (ca_pool s)\<lparr>db_device_certs :=
            upsert_device device_id (cert_pem, issued_at, expires_at) (db_device_certs (ca_pool s))\<rparr>\<rparr>))"

definition get_cert :: "ca_faults \<Rightarrow> string \<Rightarrow> ('kp, 'cert) ca_service \<Rightarrow> string option res" where
  "get_cert faults device_id s =
     (case run_stmt faults SelectCert ''Failed to query device cert: '' of Err e \<Rightarrow> Err e | Ok _ \<Rightarrow>
      Ok (map_option dr_cert_pem (find_device (db_device_certs (ca_pool s)) device_id)))"

definition list_devices :: "ca_faults \<Rightarrow> ('kp, 'cert) ca_service \<Rightarrow> device_cert_record list res" where
  "list_devices faults s =
     (case run_stmt faults ListDevices ''Failed to list device certs: '' of Err e \<Rightarrow> Err e | Ok _ \<Rightarrow>
      Ok (map (\<lambda>r. \<lparr>dc_device_id = dr_device_id r, dc_cert_pem = dr_cert_pem r,
                    dc_issued_at = dr_issued_at r, dc_expires_at = dr_expires_at r,
                    dc_revoked = (dr_revoked r \<noteq> 0)\<rparr>) (db_device_certs (ca_pool s))))"

definition revoke ::
  "ca_faults \<Rightarrow> string \<Rightarrow> ('kp, 'cert) ca_service \<Rightarrow> unit res \<times> ('kp, 'cert) ca_service" where
  "revoke faults device_id s =
     (case run_stmt faults RevokeDevice ''Failed to revoke device cert: '' of Err e \<Rightarrow> (Err e, s) | Ok _ \<Rightarrow>
      (let rows = db_device_certs (ca_pool s);
           s' = s\<lparr>ca_pool := (ca_pool s)\<lparr>db_device_certs := revoke_rows device_id rows\<rparr>\<rparr> in
       if rows_affected device_id rows = 0 then (Err (''Unknown device: '' @ device_id), s')
       else (Ok (), s')))"

definition is_revoked :: "ca_faults \<Rightarrow> string \<Rightarrow> ('kp, 'cert) ca_service \<Rightarrow> bool res" where
  "is_revoked faults device_id s =
     (case run_stmt faults SelectRevoked ''Failed to query revocation status: '' of Err e \<Rightarrow> Err e | Ok _ \<Rightarrow>
      Ok (unwrap_or (map_option (\<lambda>r. dr_revoked r \<noteq> 0) (find_device (db_device_certs (ca_pool s)) device_id)) False))"

definition ca_cert_pem :: "('kp, 'cert, 'csr, 'ip) rcgen \<Rightarrow> ('kp, 'cert) ca_service \<Rightarrow> string res" where
  "ca_cert_pem rg s =
     (case ca_loaded s of None \<Rightarrow> Err not_initialised | Some ca \<Rightarrow> Ok (rg_pem rg (cs_cert ca)))"

definition generate_broker_cert ::
  "('kp, 'cert, 'csr, 'ip) rcgen \<Rightarrow> 'kp res \<Rightarrow> 'ip list \<Rightarrow> string list \<Rightarrow> ('kp, 'cert) ca_service \<Rightarrow>
     (string \<times> string) res" where
  "generate_broker_cert rg generated san_ips san_hostnames s =
     (case ca_loaded s of None \<Rightarrow> Err not_initialised
      | Some ca \<Rightarrow> generate_broker_identity rg generated ca san_ips san_hostnames)"

definition ensure_node_identity ::
  "('kp, 'cert, 'csr, 'ip) rcgen \<Rightarrow> 'kp res \<Rightarrow> int \<Rightarrow> ca_faults \<Rightarrow> ('kp, 'cert) ca_service \<Rightarrow>
     (string \<times> string) res \<times> ('kp, 'cert) ca_service" where
  "ensure_node_identity rg generated now faults s =
     (case run_stmt faults SelectIdentity ''Failed to query node identity: '' of Err e \<Rightarrow> (Err e, s) | Ok _ \<Rightarrow>
      case db_node_identity (ca_pool s) of
        Some row \<Rightarrow> (Ok (ni_cert_pem row, ni_key_pem row), s)
      | None \<Rightarrow>
          (case ca_loaded s of None \<Rightarrow> (Err not_initialised, s) | Some ca \<Rightarrow>
           case generate_node_identity rg generated now ca of
             Err e \<Rightarrow> (Err e, s)
           | Ok (cert_pem, key_pem, issued_at, expires_at) \<Rightarrow>
               (case run_stmt faults InsertIdentity ''Failed to persist node identity: '' of
                  Err e \<Rightarrow> (Err e, s)
                | Ok _ \<Rightarrow>
                    (Ok (cert_pem, key_pem),
                     s\<lparr>ca_pool := (ca_pool s)\<lparr>db_node_identity :=
                          Some \<lparr>ni_cert_pem = cert_pem, ni_key_pem = key_pem,
                                ni_issued_at = issued_at, ni_expires_at = expires_at\<rparr>\<rparr>\<rparr>))))"

subsection \<open>The device table as a store\<close>

locale cert_store =
  fixes find :: "'t \<Rightarrow> 'd \<Rightarrow> 'r option"
    and put :: "'d \<Rightarrow> 'v \<Rightarrow> 't \<Rightarrow> 't"
    and flag :: "'d \<Rightarrow> 't \<Rightarrow> 't"
    and known :: "'d \<Rightarrow> 't \<Rightarrow> nat"
    and entry :: "'d \<Rightarrow> 'v \<Rightarrow> 'r"
    and mark :: "'r \<Rightarrow> 'r"
  assumes find_put: "find (put d v t) d' = (if d' = d then Some (entry d v) else find t d')"
    and find_flag: "find (flag d t) d' = (if d' = d then map_option mark (find t d') else find t d')"
    and known_iff: "known d t = 0 \<longleftrightarrow> find t d = None"
begin

lemma put_after_flag: "find (put d v (flag d t)) d = Some (entry d v)"
  by (simp add: find_put)

lemma flag_unknown: "known d t = 0 \<Longrightarrow> find (flag d t) = find t"
  by (auto simp: find_flag known_iff)

lemma known_put: "known d' (put d v t) = 0 \<longleftrightarrow> d' \<noteq> d \<and> known d' t = 0"
  by (auto simp: known_iff find_put)

end

definition device_entry :: "string \<Rightarrow> string \<times> int \<times> int \<Rightarrow> device_row" where
  "device_entry d v = (case v of (cert_pem, issued_at, expires_at) \<Rightarrow>
     \<lparr>dr_device_id = d, dr_cert_pem = cert_pem, dr_issued_at = issued_at, dr_expires_at = expires_at, dr_revoked = 0\<rparr>)"

lemma find_upsert:
  "find_device (upsert_device d v rs) d' = (if d' = d then Some (device_entry d v) else find_device rs d')"
  by (induction d v rs rule: upsert_device.induct) (auto simp: device_entry_def)

lemma find_revoke:
  "find_device (revoke_rows d rs) d' =
     (if d' = d then map_option (\<lambda>r. r\<lparr>dr_revoked := 1\<rparr>) (find_device rs d') else find_device rs d')"
  by (induction rs) (auto simp: revoke_rows_def)

lemma rows_affected_zero: "rows_affected d rs = 0 \<longleftrightarrow> find_device rs d = None"
  by (induction rs) (auto simp: rows_affected_def)

interpretation devices: cert_store find_device upsert_device revoke_rows rows_affected device_entry
  "\<lambda>r. r\<lparr>dr_revoked := 1\<rparr>"
  by unfold_locales (simp_all add: find_upsert find_revoke rows_affected_zero)

lemma device_ids_upsert:
  "set (map dr_device_id (upsert_device d v rs)) = insert d (set (map dr_device_id rs))"
  by (induction d v rs rule: upsert_device.induct) auto

lemma distinct_upsert:
  "distinct (map dr_device_id rs) \<Longrightarrow> distinct (map dr_device_id (upsert_device d v rs))"
  by (induction d v rs rule: upsert_device.induct) (use device_ids_upsert in auto)

lemma distinct_revoke: "map dr_device_id (revoke_rows d rs) = map dr_device_id rs"
  by (auto simp: revoke_rows_def)

subsection \<open>The contract: what the CA knows of a device\<close>

text \<open>
  Abstractly the CA keeps, per device, its current certificate and whether it is revoked.
\<close>

type_synonym device_view = "string \<rightharpoonup> string \<times> bool"

definition ca_view :: "('kp, 'cert) ca_service \<Rightarrow> device_view" where
  "ca_view s d = map_option (\<lambda>r. (dr_cert_pem r, dr_revoked r \<noteq> 0)) (find_device (db_device_certs (ca_pool s)) d)"

datatype device_op =
    SignOp int ca_faults string string
  | RevokeOp ca_faults string

fun device_step ::
  "('kp, 'cert, 'csr, 'ip) rcgen \<Rightarrow> device_op \<Rightarrow> ('kp, 'cert) ca_service \<Rightarrow> ('kp, 'cert) ca_service" where
  "device_step rg (SignOp now faults d csr) s = snd (sign_csr rg now faults d csr s)"
| "device_step rg (RevokeOp faults d) s = snd (revoke faults d s)"

fun view_step ::
  "('kp, 'cert, 'csr, 'ip) rcgen \<Rightarrow> ('kp, 'cert) ca_state option \<Rightarrow> device_op \<Rightarrow> device_view \<Rightarrow> device_view" where
  "view_step rg ca (SignOp now faults d csr) m =
     (case ca of None \<Rightarrow> m | Some c \<Rightarrow>
      case op_sign_csr rg now c csr of Err e \<Rightarrow> m | Ok (pem, _, _) \<Rightarrow>
      if faults UpsertDevice = None then m(d \<mapsto> (pem, False)) else m)"
| "view_step rg ca (RevokeOp faults d) m =
     (if faults RevokeDevice = None then m(d := map_option (\<lambda>(pem, _). (pem, True)) (m d)) else m)"

lemma ca_loaded_step [simp]: "ca_loaded (device_step rg ev s) = ca_loaded s"
  by (cases ev) (auto simp: sign_csr_def revoke_def Let_def split: option.splits result.splits)

lemma ca_view_step: "ca_view (device_step rg ev s) = view_step rg (ca_loaded s) ev (ca_view s)"
proof (cases ev)
  case (SignOp now faults d csr)
  then show ?thesis
    by (auto simp: sign_csr_def ca_view_def run_stmt_def devices.find_put device_entry_def fun_eq_iff
        split: option.splits result.splits)
next
  case (RevokeOp faults d)
  then show ?thesis
    by (auto simp: revoke_def ca_view_def run_stmt_def devices.find_flag Let_def fun_eq_iff
        option.map_comp comp_def split: option.splits)
qed

definition devices_wf :: "('kp, 'cert) ca_service \<Rightarrow> bool" where
  "devices_wf s \<longleftrightarrow> distinct (map dr_device_id (db_device_certs (ca_pool s)))"

lemma devices_wf_step [inv_intros]: "devices_wf s \<Longrightarrow> devices_wf (device_step rg ev s)"
  by (cases ev) (auto simp: devices_wf_def sign_csr_def revoke_def run_stmt_def Let_def distinct_upsert
      distinct_revoke split: option.splits result.splits)

lemma get_cert_view:
  "faults SelectCert = None \<Longrightarrow> get_cert faults d s = Ok (map_option fst (ca_view s d))"
  by (simp add: get_cert_def run_stmt_def ca_view_def option.map_comp comp_def)

lemma is_revoked_view:
  "faults SelectRevoked = None \<Longrightarrow> is_revoked faults d s = Ok (ca_view s d \<noteq> None \<and> snd (the (ca_view s d)))"
  by (cases "find_device (db_device_certs (ca_pool s)) d") (simp_all add: is_revoked_def run_stmt_def ca_view_def)

subsection \<open>Properties\<close>

text \<open>A toy certificate library for the witnesses: keys and certificates are numbers.\<close>

definition ex_rcgen :: "(nat, nat, nat, nat) rcgen" where
  "ex_rcgen =
     \<lparr>rg_default = \<lparr>cp_is_ca = False, cp_key_usages = [], cp_distinguished_name = [],
                    cp_extended_key_usages = [], cp_subject_alt_names = []\<rparr>,
      rg_key_from_pem = (\<lambda>s. Ok (length s)), rg_key_to_pem = (\<lambda>k. replicate k CHR ''k''),
      rg_from_ca_cert_pem = (\<lambda>s. Ok \<lparr>cp_is_ca = True, cp_key_usages = [], cp_distinguished_name = [],
                    cp_extended_key_usages = [], cp_subject_alt_names = []\<rparr>),
      rg_self_signed = (\<lambda>p k. Ok k), rg_signed_by = (\<lambda>p k c ck. Ok (k + c)),
      rg_csr_from_pem = (\<lambda>s. if s = [] then Err ''empty'' else Ok (length s)),
      rg_csr_signed_by = (\<lambda>r c k. Ok (r + c)), rg_pem = (\<lambda>c. replicate c CHR ''c''),
      rg_ia5 = Some\<rparr>"

definition ex_ca :: "(nat, nat) ca_service" where
  "ex_ca = \<lparr>ca_loaded = Some \<lparr>cs_subject_cn = CA_CN, cs_cert = 2, cs_key_pair = 3\<rparr>,
     ca_pool = \<lparr>db_ca_keys = None, db_device_certs = [], db_node_identity = None\<rparr>\<rparr>"

text \<open>C27: the device table implements its contract. Over any sequence of signings and
  revocations, failed ones included, what the CA reports of every device is what the abstract
  history says: the last certificate signed for it, revoked exactly when a revocation came
  after that signing; and no device has two rows.\<close>

theorem device_table_refines:
  fixes s :: "('kp, 'cert) ca_service" and rg :: "('kp, 'cert, 'csr, 'ip) rcgen"
  assumes "devices_wf s"
  shows "ca_view (fold (device_step rg) ops s) = fold (view_step rg (ca_loaded s)) ops (ca_view s)
    \<and> devices_wf (fold (device_step rg) ops s)"
  using assms
proof (induction ops arbitrary: s)
  case (Cons ev ops)
  then show ?case using Cons.IH [of "device_step rg ev s"] by (simp add: ca_view_step devices_wf_step)
qed simp

theorem device_table_refines_witness:
  "ca_view (fold (device_step ex_rcgen) [SignOp 5 (\<lambda>_. None) ''cam'' ''csr'', RevokeOp (\<lambda>_. None) ''cam''] ex_ca) ''cam''
     = Some (''ccccc'', True)"
proof -
  have "devices_wf ex_ca" by (simp add: devices_wf_def ex_ca_def)
  from device_table_refines [OF this, of ex_rcgen "[SignOp 5 (\<lambda>_. None) ''cam'' ''csr'', RevokeOp (\<lambda>_. None) ''cam'']"]
  show ?thesis
    by (simp add: ex_ca_def ex_rcgen_def op_sign_csr_def ca_view_def numeral_eq_Suc)
qed

text \<open>Signing round trip. A certificate the service returns is the one it then reports for
  that device, not revoked (an earlier revocation is lifted by the new signing), valid for
  one year from the clock reading, and no other device's record changes.\<close>

theorem sign_then_get:
  assumes "sign_csr rg now faults d csr s = (Ok pem, s')"
    and "faults' SelectCert = None" and "faults' SelectRevoked = None"
  shows "get_cert faults' d s' = Ok (Some pem) \<and> is_revoked faults' d s' = Ok False
    \<and> find_device (db_device_certs (ca_pool s')) d = Some (device_entry d (pem, now, i64_add now one_year))
    \<and> (\<forall>d'. d' \<noteq> d \<longrightarrow> get_cert faults' d' s' = get_cert faults' d' s
          \<and> is_revoked faults' d' s' = is_revoked faults' d' s)"
  using assms
  by (auto simp: sign_csr_def op_sign_csr_def get_cert_def is_revoked_def run_stmt_def devices.find_put
      device_entry_def split: option.splits result.splits)

theorem sign_then_get_witness:
  "get_cert (\<lambda>_. None) ''cam'' (snd (sign_csr ex_rcgen 5 (\<lambda>_. None) ''cam'' ''csr'' ex_ca)) = Ok (Some ''ccccc'')"
proof -
  have "sign_csr ex_rcgen 5 (\<lambda>_. None) ''cam'' ''csr'' ex_ca
      = (Ok ''ccccc'', snd (sign_csr ex_rcgen 5 (\<lambda>_. None) ''cam'' ''csr'' ex_ca))"
    by (simp add: sign_csr_def op_sign_csr_def ex_ca_def ex_rcgen_def run_stmt_def numeral_eq_Suc)
  from sign_then_get [OF this, of "\<lambda>_. None"] show ?thesis by simp
qed

text \<open>Revocation. Without a driver error, revoking a known device makes it report revoked
  and keeps its certificate; revoking an unknown one is the error \<open>Unknown device\<close> and changes
  no record.\<close>

theorem revoke_spec:
  assumes "faults RevokeDevice = None" and "faults SelectRevoked = None"
  shows "(if ca_view s d = None
     then fst (revoke faults d s) = Err (''Unknown device: '' @ d) \<and> ca_view (snd (revoke faults d s)) = ca_view s
     else fst (revoke faults d s) = Ok () \<and> is_revoked faults d (snd (revoke faults d s)) = Ok True
       \<and> map_option fst (ca_view (snd (revoke faults d s)) d) = map_option fst (ca_view s d))"
proof -
  have v: "ca_view (snd (revoke faults d s)) = view_step rg (ca_loaded s) (RevokeOp faults d) (ca_view s)" for rg
    using ca_view_step [of rg "RevokeOp faults d" s] by simp
  have k: "rows_affected d (db_device_certs (ca_pool s)) = 0 \<longleftrightarrow> ca_view s d = None"
    by (simp add: devices.known_iff ca_view_def)
  show ?thesis
    using assms k v
    by (cases "ca_view s d") (auto simp: is_revoked_view fun_upd_idem_iff revoke_def [of faults d s] run_stmt_def Let_def)
qed

theorem revoke_spec_witness:
  "fst (revoke (\<lambda>_. None) ''ghost'' ex_ca) = Err (''Unknown device: ghost'')"
  using revoke_spec [of "\<lambda>_. None" ex_ca "''ghost''"] by (simp add: ca_view_def ex_ca_def)

text \<open>The node identity is stable. Once a call has returned an identity, every later call
  whose query succeeds returns the same pair and leaves the service unchanged, whatever key
  would be generated and even if the CA is no longer loaded.\<close>

theorem node_identity_stable:
  assumes "ensure_node_identity rg generated now faults s = (Ok ident, s')"
    and "faults' SelectIdentity = None" and "ca_pool s'' = ca_pool s'"
  shows "ensure_node_identity rg generated' now' faults' s'' = (Ok ident, s'')"
proof -
  have "map_option (\<lambda>r. (ni_cert_pem r, ni_key_pem r)) (db_node_identity (ca_pool s')) = Some ident"
    using assms(1) by (auto simp: ensure_node_identity_def split: option.splits result.splits)
  then show ?thesis using assms(2,3) by (auto simp: ensure_node_identity_def run_stmt_def)
qed

theorem node_identity_stable_witness:
  "ensure_node_identity ex_rcgen (Ok 9) 50 (\<lambda>_. None)
     (snd (ensure_node_identity ex_rcgen (Ok 4) 5 (\<lambda>_. None) ex_ca)) =
   (Ok (''cccccc'', ''kkkk''), snd (ensure_node_identity ex_rcgen (Ok 4) 5 (\<lambda>_. None) ex_ca))"
  by (rule node_identity_stable [where faults = "\<lambda>_. None" and generated = "Ok 4" and now = 5 and s = ex_ca
        and s' = "snd (ensure_node_identity ex_rcgen (Ok 4) 5 (\<lambda>_. None) ex_ca)"])
    (simp_all add: ensure_node_identity_def generate_node_identity_def run_stmt_def ex_ca_def ex_rcgen_def numeral_eq_Suc)



end
