(* ===== verification/Capabilities.thy ===== *)
theory Capabilities
  imports Prelude
begin

section \<open>Detection of installed binaries (\<open>src/services/capabilities.rs\<close>)\<close>

text \<open>
  Which of the required binaries the host has. Running a program is the argument \<open>run\<close>: the
  output of a program with its arguments, \<open>None\<close> when it could not be run. Output bytes are
  given as the string \<open>String::from_utf8_lossy\<close> makes of them.
\<close>

record proc_output =
  po_success :: bool
  po_stdout :: string
  po_stderr :: string

type_synonym runner = "string \<Rightarrow> string list \<Rightarrow> proc_output option"

record binary_info =
  bi_path :: string
  bi_version :: "string option"

type_synonym capabilities = "string \<rightharpoonup> binary_info option"

definition is_available :: "capabilities \<Rightarrow> string \<Rightarrow> bool" where
  "is_available caps binary =
     (case caps binary of None \<Rightarrow> False | Some info \<Rightarrow> info \<noteq> None)"

definition binary_path :: "capabilities \<Rightarrow> string \<Rightarrow> string option" where
  "binary_path caps binary =
     (case caps binary of None \<Rightarrow> None | Some info \<Rightarrow> map_option bi_path info)"

text \<open>\<open>text.lines().next()?.trim()\<close>: no line at all in an empty text.\<close>

definition first_line :: "string \<Rightarrow> string option" where
  "first_line txt = (if txt = [] then None else Some (trim (hd (lines_of txt))))"

definition version_of :: "proc_output \<Rightarrow> string option" where
  "version_of out =
     (let txt = (if po_stdout out = [] then po_stderr out else po_stdout out) in
      case first_line txt of
        None \<Rightarrow> None
      | Some l \<Rightarrow> if l = [] then None else Some l)"

definition detect_binary :: "runner \<Rightarrow> string \<Rightarrow> binary_info option" where
  "detect_binary run name =
     (case run ''which'' [name] of
        None \<Rightarrow> None
      | Some out \<Rightarrow>
          if \<not> po_success out then None
          else (let path = trim (po_stdout out) in
                Some \<lparr>bi_path = path,
                      bi_version = (case run path [''--version''] of None \<Rightarrow> None | Some vout \<Rightarrow> version_of vout)\<rparr>))"

fun detect_each :: "runner \<Rightarrow> string list \<Rightarrow> capabilities \<Rightarrow> capabilities" where
  "detect_each run [] caps = caps"
| "detect_each run (name # names) caps = detect_each run names (caps(name \<mapsto> detect_binary run name))"

definition detect_capabilities :: "runner \<Rightarrow> string list \<Rightarrow> capabilities" where
  "detect_capabilities run required_binaries = detect_each run required_binaries Map.empty"

subsection \<open>Facts\<close>

lemma is_available_iff: "is_available caps b \<longleftrightarrow> binary_path caps b \<noteq> None"
  by (auto simp: is_available_def binary_path_def split: option.splits)

lemma detect_each_lookup:
  "detect_each run names caps b = (if b \<in> set names then Some (detect_binary run b) else caps b)"
  by (induction names arbitrary: caps) auto

lemma first_line_no_newline: "first_line txt = Some l \<Longrightarrow> CHR 0x0A \<notin> set l"
proof -
  assume "first_line txt = Some l"
  then have l: "l = trim (hd (lines_of txt))" by (simp add: first_line_def split: if_splits)
  have "CHR 0x0A \<notin> set (hd (lines_of txt))"
    using split_on_pieces [of "hd (lines_of txt)" "CHR 0x0A" "txt"] by (simp add: lines_of_def)
  moreover have "set (trim s) \<subseteq> set s" for s
    by (auto simp: trim_def trim_end_by_def dest!: set_dropWhileD)
  ultimately show ?thesis using l by blast
qed

text \<open>
  The snapshot has an entry for exactly the required binaries; one of them counts as
  available exactly when \<open>which\<close> found it, its path is then what \<open>which\<close> printed without the
  surrounding white space, and a version is a non-empty single line.
\<close>

theorem detect_capabilities_spec:
  "(is_available (detect_capabilities run names) b \<longleftrightarrow>
      b \<in> set names \<and> (\<exists>out. run ''which'' [b] = Some out \<and> po_success out)) \<and>
   (binary_path (detect_capabilities run names) b =
      (if is_available (detect_capabilities run names) b
       then map_option (\<lambda>out. trim (po_stdout out)) (run ''which'' [b]) else None)) \<and>
   (\<forall>info v. detect_binary run b = Some info \<longrightarrow> bi_version info = Some v \<longrightarrow>
      v \<noteq> [] \<and> CHR 0x0A \<notin> set v)"
proof -
  have a: "is_available (detect_capabilities run names) b \<longleftrightarrow>
      b \<in> set names \<and> (\<exists>out. run ''which'' [b] = Some out \<and> po_success out)"
    by (auto simp: is_available_def detect_capabilities_def detect_each_lookup detect_binary_def Let_def
        split: option.splits)
  moreover have "binary_path (detect_capabilities run names) b =
      (if is_available (detect_capabilities run names) b
       then map_option (\<lambda>out. trim (po_stdout out)) (run ''which'' [b]) else None)"
    unfolding a by (auto simp: binary_path_def detect_capabilities_def detect_each_lookup detect_binary_def Let_def
        split: option.splits)
  moreover have "v \<noteq> [] \<and> CHR 0x0A \<notin> set v"
    if "detect_binary run b = Some info" "bi_version info = Some v" for info v
    using that by (auto simp: detect_binary_def version_of_def Let_def dest: first_line_no_newline
        split: option.splits if_splits)
  ultimately show ?thesis by blast
qed

theorem detect_capabilities_spec_witness:
  "is_available (detect_capabilities
     (\<lambda>p args. if p = ''which'' \<and> args = [''mosquitto'']
        then Some \<lparr>po_success = True, po_stdout = ''/bin/m'' @ nl, po_stderr = []\<rparr> else None)
     [''mosquitto'', ''mosquitto_passwd'']) ''mosquitto''"
  unfolding detect_capabilities_spec [THEN conjunct1] by simp

end
