(* ===== verification/Mqtt_Brokerage.thy ===== *)
theory Mqtt_Brokerage
  imports Supervisor Config Ca Capabilities
begin

section \<open>The MQTT broker (\<open>src/services/mqtt_brokerage/\<close>)\<close>

text \<open>
  Provisioning of the broker's certificate, the runtime handle that records device
  certificates, the password file, and the managed service around the \<open>mosquitto\<close> child
  process. Files are the map \<open>files\<close>; the \<open>mosquitto_passwd\<close> program, process creation and
  waiting are arguments.
\<close>

subsection \<open>Local addresses\<close>

datatype ip_addr = V4 "32 word" | V6 "128 word"

datatype sock_addr = NullAddr | Inet "32 word" | Inet6 "128 word" | OtherFamily

definition v4_is_loopback :: "32 word \<Rightarrow> bool" where
  "v4_is_loopback a \<longleftrightarrow> drop_bit 24 a = 127"

definition v6_is_loopback :: "128 word \<Rightarrow> bool" where
  "v6_is_loopback a \<longleftrightarrow> a = 1"

fun iface_ips :: "sock_addr list \<Rightarrow> ip_addr list" where
  "iface_ips [] = []"
| "iface_ips (NullAddr # as) = iface_ips as"
| "iface_ips (OtherFamily # as) = iface_ips as"
| "iface_ips (Inet a # as) = (if v4_is_loopback a then iface_ips as else V4 a # iface_ips as)"
| "iface_ips (Inet6 a # as) = (if v6_is_loopback a then iface_ips as else V6 a # iface_ips as)"

definition LOCALHOST :: "32 word" where
  "LOCALHOST = 0x7F000001"

text \<open>The argument is the interface list, \<open>None\<close> when \<open>getifaddrs\<close> fails.\<close>

definition get_local_ips :: "sock_addr list option \<Rightarrow> ip_addr list" where
  "get_local_ips ifaddrs = (case ifaddrs of None \<Rightarrow> [] | Some as \<Rightarrow> iface_ips as) @ [V4 LOCALHOST]"

subsection \<open>The broker certificate\<close>

definition broker_san_ips :: "sock_addr list option \<Rightarrow> ip_addr mqtt_brokerage_config \<Rightarrow> ip_addr list" where
  "broker_san_ips ifaddrs cfg = (if mb_san_ips cfg = [] then get_local_ips ifaddrs else mb_san_ips cfg)"

definition broker_san_hostnames :: "ip_addr mqtt_brokerage_config \<Rightarrow> string list" where
  "broker_san_hostnames cfg = ''localhost'' # mb_san_hostnames cfg"

definition provision_mqtt_broker_cert ::
  "('kp, 'cert, 'csr, ip_addr) rcgen \<Rightarrow> 'kp res \<Rightarrow> (string \<Rightarrow> unit res) \<Rightarrow> io_faults \<Rightarrow> sock_addr list option \<Rightarrow>
     ('kp, 'cert) ca_service \<Rightarrow> ip_addr mqtt_brokerage_config \<Rightarrow> files \<Rightarrow> unit res \<times> files" where
  "provision_mqtt_broker_cert rg generated create_dir_all faults ifaddrs ca cfg fs =
     (case (case path_parent (mb_certfile cfg) of Some parent \<Rightarrow> create_dir_all parent | None \<Rightarrow> Ok ()) of
        Err e \<Rightarrow> (Err (''Failed to create broker cert dir: '' @ e), fs) | Ok _ \<Rightarrow>
      case ca_cert_pem rg ca of Err e \<Rightarrow> (Err e, fs) | Ok ca_pem \<Rightarrow>
      case fs_write faults (mb_cafile cfg) ca_pem fs of
        (Err e, fs1) \<Rightarrow> (Err (''Failed to write broker CA cert: '' @ e), fs1) | (Ok _, fs1) \<Rightarrow>
      case generate_broker_cert rg generated (broker_san_ips ifaddrs cfg) (broker_san_hostnames cfg) ca of
        Err e \<Rightarrow> (Err e, fs1) | Ok (cert_pem, key_pem) \<Rightarrow>
      case fs_write faults (mb_certfile cfg) cert_pem fs1 of
        (Err e, fs2) \<Rightarrow> (Err (''Failed to write broker cert: '' @ e), fs2) | (Ok _, fs2) \<Rightarrow>
      case fs_write faults (mb_keyfile cfg) key_pem fs2 of
        (Err e, fs3) \<Rightarrow> (Err (''Failed to write broker key: '' @ e), fs3) | (Ok _, fs3) \<Rightarrow>
      (Ok (), fs3))"

subsection \<open>Recording device certificates\<close>

definition register_cert_identity ::
  "io_faults \<Rightarrow> 'ip mqtt_brokerage_config \<Rightarrow> string \<Rightarrow> string \<Rightarrow> files \<Rightarrow> unit res \<times> files" where
  "register_cert_identity faults cfg hostname cert_pem fs =
     (case path_parent (mb_cafile cfg) of
        None \<Rightarrow> (Err ''cafile has no parent directory'', fs)
      | Some certs_dir \<Rightarrow>
          (let cert_path = path_join certs_dir (hostname @ ''.crt'') in
           case fs_write faults cert_path cert_pem fs of
             (Err e, fs') \<Rightarrow> (Err (''Failed to write device cert '' @ sq @ cert_path @ sq @ '': '' @ e), fs')
           | (Ok _, fs') \<Rightarrow> (Ok (), fs')))"

subsection \<open>The password file\<close>

text \<open>The argument \<open>run\<close> is \<open>mosquitto_passwd\<close>: its outcome, and what it makes of the files.\<close>

type_synonym passwd_tool = "string \<Rightarrow> string list \<Rightarrow> files \<Rightarrow> proc_output res \<times> files"

record 'ip mosquitto_service =
  mq_binary_path :: string
  mq_password_binary :: "string option"
  mq_config :: "'ip mqtt_brokerage_config"
  mq_child :: "32 word option"

definition mosquitto_new ::
  "string \<Rightarrow> string option \<Rightarrow> 'ip mqtt_brokerage_config \<Rightarrow> 'ip mosquitto_service" where
  "mosquitto_new bin password_binary config =
     \<lparr>mq_binary_path = bin, mq_password_binary = password_binary, mq_config = config, mq_child = None\<rparr>"

definition run_passwd ::
  "passwd_tool \<Rightarrow> string \<Rightarrow> string list \<Rightarrow> files \<Rightarrow> unit res \<times> files" where
  "run_passwd run bin args fs =
     (case run bin args fs of
        (Err e, fs') \<Rightarrow> (Err (''Failed to run mosquitto_passwd: '' @ e), fs')
      | (Ok out, fs') \<Rightarrow>
          if \<not> po_success out then (Err (''mosquitto_passwd failed: '' @ po_stderr out), fs')
          else (Ok (), fs'))"

definition set_password ::
  "passwd_tool \<Rightarrow> 'ip mosquitto_service \<Rightarrow> string \<Rightarrow> string \<Rightarrow> files \<Rightarrow> unit res \<times> files" where
  "set_password run s username password fs =
     (case mq_password_binary s of
        None \<Rightarrow> (Err ''mosquitto_passwd is not installed'', fs)
      | Some passwd_bin \<Rightarrow>
          (let password_file = mb_password_file (mq_config s) in
           if fs password_file = None
           then run_passwd run passwd_bin [''-c'', ''-b'', password_file, username, password] fs
           else run_passwd run passwd_bin [''-b'', password_file, username, password] fs))"

definition delete_user ::
  "passwd_tool \<Rightarrow> 'ip mosquitto_service \<Rightarrow> string \<Rightarrow> files \<Rightarrow> unit res \<times> files" where
  "delete_user run s username fs =
     (case mq_password_binary s of
        None \<Rightarrow> (Err ''mosquitto_passwd is not installed'', fs)
      | Some passwd_bin \<Rightarrow>
          (let password_file = mb_password_file (mq_config s) in
           if fs password_file = None then (Err ''Password file does not exist'', fs)
           else run_passwd run passwd_bin [''-D'', password_file, username] fs))"

subsection \<open>The child process\<close>

text \<open>
  A child is its process id. The environment of one call: whether a path exists, the outcome
  of spawning (with the id of the new process, absent if it was already reaped), and what
  \<open>try_wait\<close> reports. The three outcomes of waiting in \<open>stop\<close> (exited, wait error, killed
  after five seconds) lead to the same result.
\<close>

datatype try_wait = StillRunning | Exited | WaitError

record mosquitto_env =
  me_exists :: "string \<Rightarrow> bool"
  me_spawn :: "string \<Rightarrow> string list \<Rightarrow> 32 word option res"
  me_try_wait :: try_wait

definition mosquitto_start ::
  "mosquitto_env \<Rightarrow> 'ip mosquitto_service \<Rightarrow> 32 word res \<times> 'ip mosquitto_service" where
  "mosquitto_start env s =
     (if mq_child s \<noteq> None then (Err ''Mosquitto is already running'', s)
      else let config_file = mb_config_file (mq_config s) in
        if \<not> me_exists env config_file
        then (Err (''Config file not found at '' @ config_file @ ''. Call write_config() first.''), s)
        else case me_spawn env (mq_binary_path s) [''-c'', config_file] of
          Err e \<Rightarrow> (Err (''Failed to spawn mosquitto: '' @ e), s)
        | Ok None \<Rightarrow> (Err ''Failed to get mosquitto PID'', s)
        | Ok (Some pid) \<Rightarrow> (Ok pid, s\<lparr>mq_child := Some pid\<rparr>))"

definition mosquitto_stop ::
  "mosquitto_env \<Rightarrow> 'ip mosquitto_service \<Rightarrow> unit res \<times> 'ip mosquitto_service" where
  "mosquitto_stop env s =
     (case mq_child s of
        Some child \<Rightarrow> (Ok (), s\<lparr>mq_child := None\<rparr>)
      | None \<Rightarrow> (Err ''Mosquitto is not running'', s))"

definition mosquitto_is_running ::
  "mosquitto_env \<Rightarrow> 'ip mosquitto_service \<Rightarrow> bool \<times> 'ip mosquitto_service" where
  "mosquitto_is_running env s =
     (case mq_child s of
        Some child \<Rightarrow>
          (case me_try_wait env of
             Exited \<Rightarrow> (False, s\<lparr>mq_child := None\<rparr>)
           | StillRunning \<Rightarrow> (True, s)
           | WaitError \<Rightarrow> (False, s))
      | None \<Rightarrow> (False, s))"

definition mosquitto_vt :: "(mosquitto_env, 'ip mosquitto_service) managed_service" where
  "mosquitto_vt = \<lparr>svc_start = mosquitto_start, svc_stop = mosquitto_stop, svc_is_running = mosquitto_is_running\<rparr>"

definition mosquitto_up :: "'ip mosquitto_service \<Rightarrow> bool" where
  "mosquitto_up s \<longleftrightarrow> mq_child s \<noteq> None"

lemmas mosquitto_svc_defs = mosquitto_vt_def mosquitto_start_def mosquitto_stop_def mosquitto_up_def

interpretation mosquitto: managed_laws
  "mosquitto_vt :: (mosquitto_env, 'ip mosquitto_service) managed_service" mosquitto_up "\<lambda>_. True"
  by unfold_locales (auto simp: mosquitto_svc_defs Let_def split: option.splits result.splits if_splits)

subsection \<open>Registration (\<open>manager.rs\<close>)\<close>

text \<open>
  The service registered on the supervisor is boxed; \<open>wrap\<close> puts it among the services of the
  supervisor's map. The returned flag is also whether a handle exists.
\<close>

definition brokerage_service_of :: "capabilities \<Rightarrow> 'ip mqtt_brokerage_config \<Rightarrow> 'ip mosquitto_service" where
  "brokerage_service_of caps cfg =
     mosquitto_new (unwrap_or (binary_path caps ''mosquitto'') ''mosquitto'')
       (binary_path caps ''mosquitto_passwd'') cfg"

definition brokerage_register_onto ::
  "('ip mosquitto_service \<Rightarrow> 's) \<Rightarrow> (string \<Rightarrow> unit res) \<Rightarrow> io_faults \<Rightarrow> passwd_tool \<Rightarrow> capabilities \<Rightarrow>
     'ip mqtt_brokerage_config \<Rightarrow> 's supervisor \<Rightarrow> files \<Rightarrow> bool \<times> 's supervisor \<times> files" where
  "brokerage_register_onto wrap create_dir_all faults run caps cfg sv fs =
     (let available = is_available caps ''mosquitto'';
          service = brokerage_service_of caps cfg;
          fs1 = (if available then snd (write_config create_dir_all faults cfg fs) else fs);
          fs2 = (if available \<and> \<not> mb_tls_enabled cfg
                 then snd (set_password run service (mb_username cfg) (mb_password cfg) fs1) else fs1)
      in (available, register Mosquitto (wrap service) available sv, fs2))"

subsection \<open>Properties\<close>

lemma iface_ips_not_loopback:
  "V4 a \<in> set (iface_ips as) \<Longrightarrow> \<not> v4_is_loopback a"
  "V6 b \<in> set (iface_ips as) \<Longrightarrow> \<not> v6_is_loopback b"
  by (induction as rule: iface_ips.induct) (auto split: if_splits)

lemma iface_ips_complete:
  "Inet a \<in> set as \<Longrightarrow> \<not> v4_is_loopback a \<Longrightarrow> V4 a \<in> set (iface_ips as)"
  "Inet6 b \<in> set as \<Longrightarrow> \<not> v6_is_loopback b \<Longrightarrow> V6 b \<in> set (iface_ips as)"
  by (induction as rule: iface_ips.induct) auto

lemma fs_write_Ok_iff: "fs_write faults p c fs = (Ok (), fs') \<longleftrightarrow> faults p = None \<and> fs' = fs(p \<mapsto> c)"
  by (auto simp: fs_write_def split: option.splits)

text \<open>
  When provisioning succeeds, and the three paths differ, the CA file holds the CA's
  certificate, the certificate file a server certificate signed by that CA for the configured
  addresses (or, when none is configured, every non-loopback address of the host and
  \<open>127.0.0.1\<close>) and for \<open>localhost\<close> followed by the configured names, the key file its key; no
  other file has changed.
\<close>

theorem broker_cert_provisioned:
  assumes "provision_mqtt_broker_cert rg generated create_dir_all faults ifaddrs ca cfg fs = (Ok (), fs')"
    and "distinct [mb_cafile cfg, mb_certfile cfg, mb_keyfile cfg]"
  shows "\<exists>st key cert. ca_loaded ca = Some st \<and> generated = Ok key \<and>
    rg_signed_by rg
      ((rg_default rg)\<lparr>cp_distinguished_name := [(CommonName, ''placenet-broker''), (OrganizationName, ''PlaceNet'')],
         cp_extended_key_usages := [ServerAuth],
         cp_subject_alt_names := broker_sans rg
           (if mb_san_ips cfg = [] then get_local_ips ifaddrs else mb_san_ips cfg)
           (''localhost'' # mb_san_hostnames cfg)\<rparr>) key (cs_cert st) (cs_key_pair st) = Ok cert \<and>
    fs' = fs(mb_cafile cfg \<mapsto> rg_pem rg (cs_cert st), mb_certfile cfg \<mapsto> rg_pem rg cert,
             mb_keyfile cfg \<mapsto> rg_key_to_pem rg key)"
  using assms
  by (auto simp: provision_mqtt_broker_cert_def ca_cert_pem_def generate_broker_cert_def
      generate_broker_identity_def broker_san_ips_def broker_san_hostnames_def fs_write_Ok_iff
      split: option.splits result.splits prod.splits)

definition demo_rcgen :: "(nat, nat \<times> nat, string, ip_addr) rcgen" where
  "demo_rcgen = \<lparr>rg_default = \<lparr>cp_is_ca = False, cp_key_usages = [], cp_distinguished_name = [],
       cp_extended_key_usages = [], cp_subject_alt_names = []\<rparr>,
     rg_key_from_pem = (\<lambda>s. Ok (length s)), rg_key_to_pem = (\<lambda>k. replicate k CHR ''k''),
     rg_from_ca_cert_pem = (\<lambda>s. Err ''no''), rg_self_signed = (\<lambda>p k. Ok (k, k)),
     rg_signed_by = (\<lambda>p k c ck. Ok (k, ck)), rg_csr_from_pem = (\<lambda>s. if s = [] then Err ''empty'' else Ok s),
     rg_csr_signed_by = (\<lambda>csr c ck. Ok (length csr, ck)),
     rg_pem = (\<lambda>(k, ck). replicate k CHR ''c'' @ ''/'' @ replicate ck CHR ''i''), rg_ia5 = Some\<rparr>"

definition demo_ca :: "(nat, nat \<times> nat) ca_service" where
  "demo_ca = \<lparr>ca_loaded = Some \<lparr>cs_subject_cn = CA_CN, cs_cert = (2, 2), cs_key_pair = 2\<rparr>,
     ca_pool = \<lparr>db_ca_keys = None, db_device_certs = [], db_node_identity = None\<rparr>\<rparr>"

definition demo_cfg :: "ip_addr mqtt_brokerage_config" where
  "demo_cfg = \<lparr>mb_port = 1883, mb_client_id = ''h'', mb_config_file = ''/c/m.conf'', mb_password_file = ''/c/passwd'',
     mb_username = ''u'', mb_password = ''p'', mb_tls_enabled = True, mb_mqtts_port = 8883,
     mb_cafile = ''/c/certs/ca.crt'', mb_certfile = ''/c/certs/b.crt'', mb_keyfile = ''/c/certs/b.key'',
     mb_san_ips = [], mb_san_hostnames = [''box'']\<rparr>"

lemmas demo_defs = demo_rcgen_def demo_ca_def demo_cfg_def

theorem broker_cert_provisioned_witness:
  "\<exists>fs'. provision_mqtt_broker_cert demo_rcgen (Ok 3) (\<lambda>d. Ok ()) (\<lambda>p. None) (Some [Inet 5, Inet LOCALHOST])
       demo_ca demo_cfg Map.empty = (Ok (), fs') \<and>
     fs' ''/c/certs/ca.crt'' = Some ''cc/ii'' \<and> fs' ''/c/certs/b.crt'' = Some ''ccc/ii''"
proof -
  define fs' where "fs' = snd (provision_mqtt_broker_cert demo_rcgen (Ok 3) (\<lambda>d. Ok ()) (\<lambda>p. None)
    (Some [Inet 5, Inet LOCALHOST]) demo_ca demo_cfg Map.empty)"
  have p: "provision_mqtt_broker_cert demo_rcgen (Ok 3) (\<lambda>d. Ok ()) (\<lambda>p. None) (Some [Inet 5, Inet LOCALHOST])
       demo_ca demo_cfg Map.empty = (Ok (), fs')"
    by (simp add: fs'_def provision_mqtt_broker_cert_def demo_defs ca_cert_pem_def generate_broker_cert_def
        generate_broker_identity_def fs_write_def split: option.split)
  have "distinct [mb_cafile demo_cfg, mb_certfile demo_cfg, mb_keyfile demo_cfg]" by (simp add: demo_defs)
  from broker_cert_provisioned [OF p this] p show ?thesis
    by (auto simp: demo_defs numeral_eq_Suc)
qed

text \<open>
  Recording a device certificate changes one file at most, \<open>hostname.crt\<close> in the directory
  of the CA file, when the host name is non-empty and has no slash; that file is the broker's own
  CA file exactly when the CA file is named \<open>hostname.crt\<close>, and then the broker's trust
  anchor is replaced by the device's certificate.
\<close>

theorem register_cert_identity_file:
  assumes "hostname \<noteq> []" and "CHR ''/'' \<notin> set hostname"
    and "mb_cafile cfg = dir @ ''/'' @ name" and "dir \<noteq> []" "last dir \<noteq> CHR ''/''"
    and "name \<noteq> []" "CHR ''/'' \<notin> set name"
    and "register_cert_identity faults cfg hostname cert_pem fs = (r, fs')"
  shows "(\<forall>p. p \<noteq> dir @ ''/'' @ hostname @ ''.crt'' \<longrightarrow> fs' p = fs p) \<and>
    (r = Ok () \<longrightarrow> fs' (dir @ ''/'' @ hostname @ ''.crt'') = Some cert_pem) \<and>
    (r = Ok () \<longrightarrow> fs' (mb_cafile cfg) = (if name = hostname @ ''.crt'' then Some cert_pem else fs (mb_cafile cfg)))"
proof -
  have "\<not> is_absolute name" "\<not> is_absolute (hostname @ ''.crt'')"
    using assms(1,2,6,7) by (cases name; cases hostname; auto simp: is_absolute_def starts_with_def)+
  moreover have "\<not> ends_with dir ''/''" using assms(5) by (auto simp: ends_with_iff)
  ultimately have j: "path_join dir name = mb_cafile cfg"
    "path_join dir (hostname @ ''.crt'') = dir @ ''/'' @ hostname @ ''.crt''"
    using assms(3,4) by (auto simp: path_join_def)
  have "path_parent (mb_cafile cfg) = Some dir"
    using path_parent_join [OF assms(4,5,6,7)] j(1) by simp
  then have "(case fs_write faults (dir @ ''/'' @ hostname @ ''.crt'') cert_pem fs of
       (Err e, fs1) \<Rightarrow> fs' = fs1 \<and> r \<noteq> Ok () | (Ok _, fs1) \<Rightarrow> fs' = fs1 \<and> r = Ok ())"
    using assms(8) j(2) by (auto simp: register_cert_identity_def Let_def split: prod.splits result.splits)
  then show ?thesis
    using assms(3) by (auto simp: fs_write_def split: option.splits prod.splits result.splits)
qed

theorem register_cert_identity_file_witness:
  "register_cert_identity (\<lambda>p. None) demo_cfg ''ca'' ''device'' [''/c/certs/ca.crt'' \<mapsto> ''anchor''] =
     (Ok (), [''/c/certs/ca.crt'' \<mapsto> ''device''])"
proof -
  obtain r fs' where e: "register_cert_identity (\<lambda>p. None) demo_cfg ''ca'' ''device'' [''/c/certs/ca.crt'' \<mapsto> ''anchor''] = (r, fs')"
    by fastforce
  then have r: "r = Ok ()"
    by (simp add: register_cert_identity_def demo_defs fs_write_def path_parent_def trim_end_matches_def
        trim_end_by_def rsplit_once_def Let_def)
  from register_cert_identity_file [OF _ _ _ _ _ _ _ e, of "''/c/certs''" "''ca.crt''"] r
  have "\<forall>p. p \<noteq> ''/c/certs/ca.crt'' \<longrightarrow> fs' p = None" "fs' ''/c/certs/ca.crt'' = Some ''device''"
    by (simp_all add: demo_defs)
  then have "fs' = [''/c/certs/ca.crt'' \<mapsto> ''device'']" by (auto simp: fun_eq_iff)
  with e r show ?thesis by simp
qed

end
