(* ===== verification/Gateway_Http.thy ===== *)
theory Gateway_Http
  imports Registry Mqtt_Brokerage
begin

section \<open>The HTTP gateway (\<open>src/services/beacon_management/\<close>)\<close>

text \<open>
  The gateway that devices and clients talk to: request parsing, the three PlaceNet handlers,
  the dispatcher and reverse proxy, the accept loops and the managed service. A request is the
  record of what the handlers ask of \<open>hyper\<close>: header lookup (\<open>contains_key\<close>, and the value when
  \<open>to_str\<close> accepts it) and the outcome of collecting the body under a size limit. JSON decoders,
  the random identifier, the clock and the upstream connection are fields of the environment.
  A JSON response is its value, before serialisation.
\<close>

subsection \<open>Types (\<open>internals/types.rs\<close>)\<close>

definition SUPPORTED_VERSION :: string where "SUPPORTED_VERSION = ''0.0.1''"
definition HEADER_INIT :: string where "HEADER_INIT = ''x-placenet-init''"
definition HEADER_REGISTER :: string where "HEADER_REGISTER = ''x-placenet-register''"
definition HEADER_HEALTH :: string where "HEADER_HEALTH = ''x-placenet-health''"
definition PROXY_BODY_LIMIT :: nat where "PROXY_BODY_LIMIT = 64 * 1024"

lemmas header_names = HEADER_INIT_def HEADER_REGISTER_def HEADER_HEALTH_def

record mdns_config =
  md_hostname :: string
  md_port :: "16 word"

record device_info =
  di_address :: string
  di_mdns :: mdns_config
  di_csr_pem :: string

record mqtt_brokerage_info =
  bi_address :: string
  bi_port :: "16 word"
  bi_ca_cert_pem :: string

datatype resp_body = TextBody string | JsonBody json | StreamBody "byte list"

record response =
  rs_status :: nat
  rs_content_type :: "string option"
  rs_body :: resp_body

record request =
  re_header :: "string \<Rightarrow> string option option"
  re_collect :: "nat \<Rightarrow> byte list res"

record app_state =
  as_brokerage_info :: mqtt_brokerage_info
  as_brokerage :: "ip_addr mqtt_brokerage_config option"
  as_upstream_port :: "16 word"
  as_has_topic_tx :: bool

subsection \<open>Responses (\<open>internals/response.rs\<close>)\<close>

definition text_response :: "nat \<Rightarrow> string \<Rightarrow> response" where
  "text_response status msg = \<lparr>rs_status = status, rs_content_type = None, rs_body = TextBody msg\<rparr>"

definition json_response :: "nat \<Rightarrow> json \<Rightarrow> response" where
  "json_response status body =
     \<lparr>rs_status = status, rs_content_type = Some ''application/json'', rs_body = JsonBody body\<rparr>"

subsection \<open>Requests (\<open>internals/requests.rs\<close>)\<close>

record device_init_request =
  dq_version :: string
  dq_broker_host :: string
  dq_device :: device_info

definition contains_key :: "request \<Rightarrow> string \<Rightarrow> bool" where
  "contains_key req h \<longleftrightarrow> re_header req h \<noteq> None"

definition header_str :: "request \<Rightarrow> string \<Rightarrow> string option" where
  "header_str req h = (case re_header req h of None \<Rightarrow> None | Some v \<Rightarrow> v)"

definition strip_port :: "string \<Rightarrow> string" where
  "strip_port h =
     (case rfind_char CHR '':'' h of
        Some i \<Rightarrow> if \<not> starts_with h ''['' then take i h else h
      | None \<Rightarrow> h)"

definition process_init ::
  "(byte list \<Rightarrow> device_info res) \<Rightarrow> request \<Rightarrow> (device_init_request, response) result" where
  "process_init decode req =
     (case header_str req HEADER_INIT of
        None \<Rightarrow> Err (text_response 400 ''Invalid X-PlaceNet-Init header'')
      | Some version \<Rightarrow>
          if version \<noteq> SUPPORTED_VERSION then Err (text_response 400 ''Unsupported version'')
          else let broker_host = unwrap_or (map_option strip_port (header_str req ''host'')) ''localhost'' in
            (case re_collect req PROXY_BODY_LIMIT of
               Err e \<Rightarrow> Err (text_response 400 ''Failed to read request body'')
             | Ok body_bytes \<Rightarrow>
                 (case decode body_bytes of
                    Err e \<Rightarrow> Err (text_response 422 ''Invalid JSON body'')
                  | Ok device \<Rightarrow>
                      Ok \<lparr>dq_version = version, dq_broker_host = broker_host, dq_device = device\<rparr>)))"

definition process_register ::
  "(byte list \<Rightarrow> string res) \<Rightarrow> request \<Rightarrow> (string, response) result" where
  "process_register decode req =
     (case re_collect req PROXY_BODY_LIMIT of
        Err e \<Rightarrow> Err (text_response 400 ''Failed to read request body'')
      | Ok body_bytes \<Rightarrow>
          (case decode body_bytes of
             Err e \<Rightarrow> Err (text_response 422 ''Invalid JSON body'')
           | Ok csr_pem \<Rightarrow> Ok csr_pem))"

subsection \<open>What the handlers act on\<close>

text \<open>
  The CA service, the broker's certificate directory and the queue of topic channels that the
  message loop reads. \<open>he_accepts\<close> says whether \<open>try_send\<close> takes another channel.
\<close>

record ('kp, 'cert) world =
  w_ca :: "('kp, 'cert) ca_service"
  w_files :: files
  w_queue :: "topic_channel list"

record ('kp, 'cert, 'csr) http_env =
  he_rcgen :: "('kp, 'cert, 'csr, ip_addr) rcgen"
  he_now :: int
  he_db :: ca_faults
  he_io :: io_faults
  he_uuid :: string
  he_accepts :: "topic_channel list \<Rightarrow> bool"
  he_device_json :: "byte list \<Rightarrow> device_info res"
  he_csr_json :: "byte list \<Rightarrow> string res"
  he_connect :: "16 word \<Rightarrow> unit res"
  he_handshake :: "unit res"
  he_send :: "request \<Rightarrow> response res"

definition try_send ::
  "('kp, 'cert, 'csr) http_env \<Rightarrow> topic_channel \<Rightarrow> ('kp, 'cert) world \<Rightarrow> ('kp, 'cert) world" where
  "try_send env c w = (if he_accepts env (w_queue w) then w\<lparr>w_queue := w_queue w @ [c]\<rparr> else w)"

definition beacon_channel :: "string \<Rightarrow> string \<Rightarrow> topic_type \<Rightarrow> topic_channel" where
  "beacon_channel beacon_id topic ty =
     \<lparr>ch_beacon_id = beacon_id, ch_topic = \<lparr>tc_topic = topic, tc_qos = 1\<rparr>, ch_topic_type = ty\<rparr>"

definition brokerage_json :: "mqtt_brokerage_info \<Rightarrow> json" where
  "brokerage_json b = JObj [(''address'', JStr (bi_address b)), (''port'', JNum (uint (bi_port b))),
     (''ca_cert_pem'', JStr (bi_ca_cert_pem b))]"

subsection \<open>Handlers (\<open>internals/handlers.rs\<close>)\<close>

definition handle_health :: "request \<Rightarrow> response" where
  "handle_health req = text_response 200 ''OK''"

definition record_identity ::
  "('kp, 'cert, 'csr) http_env \<Rightarrow> app_state \<Rightarrow> string \<Rightarrow> string \<Rightarrow> files \<Rightarrow> unit res \<times> files" where
  "record_identity env st hostname cert_pem fs =
     (case as_brokerage st of
        None \<Rightarrow> (Ok (), fs)
      | Some cfg \<Rightarrow> register_cert_identity (he_io env) cfg hostname cert_pem fs)"

definition handle_device_init ::
  "('kp, 'cert, 'csr) http_env \<Rightarrow> app_state \<Rightarrow> request \<Rightarrow> ('kp, 'cert) world \<Rightarrow> response \<times> ('kp, 'cert) world" where
  "handle_device_init env st req w =
     (case process_init (he_device_json env) req of
        Err r \<Rightarrow> (r, w)
      | Ok rq \<Rightarrow>
          (let device = dq_device rq; hostname = md_hostname (di_mdns device) in
           case sign_csr (he_rcgen env) (he_now env) (he_db env) hostname (di_csr_pem device) (w_ca w) of
             (Err e, ca) \<Rightarrow> (text_response 500 ''Failed to sign device certificate'', w\<lparr>w_ca := ca\<rparr>)
           | (Ok cert_pem, ca) \<Rightarrow>
               (let w1 = w\<lparr>w_ca := ca\<rparr> in
                case record_identity env st hostname cert_pem (w_files w1) of
                  (Err e, fs) \<Rightarrow> (text_response 500 ''Failed to register device MQTT identity'', w1\<lparr>w_files := fs\<rparr>)
                | (Ok _, fs) \<Rightarrow>
                    (let w2 = w1\<lparr>w_files := fs\<rparr>;
                         beacon_id = he_uuid env;
                         broadcast_topic = beacon_id @ ''/cast'';
                         receive_topic = beacon_id @ ''/rec'';
                         w3 = (if as_has_topic_tx st
                               then try_send env (beacon_channel beacon_id broadcast_topic Broadcast)
                                      (try_send env (beacon_channel beacon_id receive_topic Listen) w2)
                               else w2);
                         brokerage = (as_brokerage_info st)\<lparr>bi_address := dq_broker_host rq\<rparr>
                     in (json_response 200
                           (JObj [(''cert_pem'', JStr cert_pem), (''brokerage'', brokerage_json brokerage),
                                  (''beacon_id'', JStr beacon_id)]), w3)))))"

definition handle_client_register ::
  "('kp, 'cert, 'csr) http_env \<Rightarrow> app_state \<Rightarrow> request \<Rightarrow> ('kp, 'cert) world \<Rightarrow> response \<times> ('kp, 'cert) world" where
  "handle_client_register env st req w =
     (case process_register (he_csr_json env) req of
        Err r \<Rightarrow> (r, w)
      | Ok csr_pem \<Rightarrow>
          (let client_id = he_uuid env in
           case sign_csr (he_rcgen env) (he_now env) (he_db env) client_id csr_pem (w_ca w) of
             (Err e, ca) \<Rightarrow> (text_response 500 ''Failed to sign client certificate'', w\<lparr>w_ca := ca\<rparr>)
           | (Ok cert_pem, ca) \<Rightarrow>
               (case ca_cert_pem (he_rcgen env) ca of
                  Err e \<Rightarrow> (text_response 500 ''Failed to retrieve CA certificate'', w\<lparr>w_ca := ca\<rparr>)
                | Ok ca_pem \<Rightarrow>
                    (json_response 201
                       (JObj [(''client_id'', JStr client_id), (''cert_pem'', JStr cert_pem),
                              (''ca_cert_pem'', JStr ca_pem)]), w\<lparr>w_ca := ca\<rparr>))))"

subsection \<open>Dispatch and proxy (\<open>internals/proxy.rs\<close>)\<close>

definition try_forward :: "('kp, 'cert, 'csr) http_env \<Rightarrow> 16 word \<Rightarrow> request \<Rightarrow> response res" where
  "try_forward env upstream_port req =
     (case he_connect env upstream_port of Err e \<Rightarrow> Err e | Ok _ \<Rightarrow>
      case he_handshake env of Err e \<Rightarrow> Err e | Ok _ \<Rightarrow> he_send env req)"

definition dispatch ::
  "('kp, 'cert, 'csr) http_env \<Rightarrow> app_state \<Rightarrow> request \<Rightarrow> ('kp, 'cert) world \<Rightarrow> response \<times> ('kp, 'cert) world" where
  "dispatch env st req w =
     (if contains_key req HEADER_HEALTH then (handle_health req, w)
      else if contains_key req HEADER_INIT then handle_device_init env st req w
      else if contains_key req HEADER_REGISTER then handle_client_register env st req w
      else case try_forward env (as_upstream_port st) req of
        Ok resp \<Rightarrow> (resp, w)
      | Err e \<Rightarrow> (text_response 502 ''Bad Gateway'', w))"

text \<open>
  A connection: its requests in order, each answered before the next. A TLS connection whose
  handshake fails (\<open>tls_ok\<close> false) serves nothing.
\<close>

fun serve_connection ::
  "app_state \<Rightarrow> (('kp, 'cert, 'csr) http_env \<times> request) list \<Rightarrow> ('kp, 'cert) world \<Rightarrow>
     response list \<times> ('kp, 'cert) world" where
  "serve_connection st [] w = ([], w)"
| "serve_connection st ((env, req) # reqs) w =
     (let (resp, w1) = dispatch env st req w; (resps, w2) = serve_connection st reqs w1
      in (resp # resps, w2))"

definition serve_tls_connection ::
  "bool \<Rightarrow> app_state \<Rightarrow> (('kp, 'cert, 'csr) http_env \<times> request) list \<Rightarrow> ('kp, 'cert) world \<Rightarrow>
     response list \<times> ('kp, 'cert) world" where
  "serve_tls_connection tls_ok st reqs w = (if tls_ok then serve_connection st reqs w else ([], w))"

subsection \<open>Accept loops (\<open>tasks.rs\<close>)\<close>

datatype 'c accept_event = Accepted 'c | AcceptError string | ShutdownSignal

text \<open>
  The connections an accept loop hands to tasks of their own; the plain and the TLS loop differ
  only in what the task runs.
\<close>

fun accept_loop :: "'c accept_event list \<Rightarrow> 'c list" where
  "accept_loop [] = []"
| "accept_loop (Accepted c # evs) = c # accept_loop evs"
| "accept_loop (AcceptError e # evs) = accept_loop evs"
| "accept_loop (ShutdownSignal # evs) = []"

subsection \<open>TLS configuration (\<open>internals/tls.rs\<close>)\<close>

record ('der, 'key, 'cfg) tls_lib =
  tl_certs :: "string \<Rightarrow> 'der res list"
  tl_keys :: "string \<Rightarrow> 'key res list"
  tl_single_cert :: "'der list \<Rightarrow> 'key \<Rightarrow> 'cfg res"

fun collect_res :: "'a res list \<Rightarrow> 'a list res" where
  "collect_res [] = Ok []"
| "collect_res (Err e # rs) = Err e"
| "collect_res (Ok x # rs) = (case collect_res rs of Err e \<Rightarrow> Err e | Ok xs \<Rightarrow> Ok (x # xs))"

definition build_tls_config ::
  "('kp, 'cert, 'csr, 'ip) rcgen \<Rightarrow> ('der, 'key, 'cfg) tls_lib \<Rightarrow> ('kp, 'cert) ca_service \<Rightarrow> 'cfg res" where
  "build_tls_config rg lib ca =
     (case ca_loaded ca of None \<Rightarrow> Err ''CA not initialised'' | Some st \<Rightarrow>
      case collect_res (tl_certs lib (rg_pem rg (cs_cert st))) of
        Err e \<Rightarrow> Err (''Failed to parse CA cert PEM: '' @ e) | Ok cert_chain \<Rightarrow>
      case collect_res (tl_keys lib (rg_key_to_pem rg (cs_key_pair st))) of
        Err e \<Rightarrow> Err (''Failed to parse CA private key PEM: '' @ e)
      | Ok [] \<Rightarrow> Err ''No PKCS8 private key found in CA PEM''
      | Ok (raw # _) \<Rightarrow>
          map_err (\<lambda>e. ''Failed to build TLS server config: '' @ e) (tl_single_cert lib cert_chain raw))"

subsection \<open>The managed service (\<open>gateway_service.rs\<close>)\<close>

record gateway_service =
  gs_config :: http_config
  gs_state :: app_state
  gs_shutdown_tx :: "chan option"

record ('kp, 'cert, 'csr, 'der, 'key, 'cfg) gateway_env =
  ge_bind :: "string \<Rightarrow> unit res"
  ge_local_addr :: "string res"
  ge_shutdown :: chan
  ge_rcgen :: "('kp, 'cert, 'csr, ip_addr) rcgen"
  ge_tls_lib :: "('der, 'key, 'cfg) tls_lib"
  ge_ca :: "('kp, 'cert) ca_service"

definition gateway_new ::
  "http_config \<Rightarrow> mqtt_brokerage_info \<Rightarrow> ip_addr mqtt_brokerage_config option \<Rightarrow> bool \<Rightarrow> gateway_service" where
  "gateway_new config info brokerage has_topic_tx =
     \<lparr>gs_config = config,
      gs_state = \<lparr>as_brokerage_info = info, as_brokerage = brokerage,
                  as_upstream_port = hc_upstream_port config, as_has_topic_tx = has_topic_tx\<rparr>,
      gs_shutdown_tx = None\<rparr>"

definition gateway_initialize :: "('kp, 'cert, 'csr, 'der, 'key, 'cfg) gateway_env \<Rightarrow> gateway_service \<Rightarrow> (app_state \<times> string \<times> chan) res" where
  "gateway_initialize env s =
     (let addr = hc_host (gs_config s) @ '':'' @ show_u16 (hc_port (gs_config s)) in
      case ge_bind env addr of
        Err e \<Rightarrow> Err (''Failed to bind listener on '' @ addr @ '': '' @ e)
      | Ok _ \<Rightarrow>
          (case ge_local_addr env of
             Err e \<Rightarrow> Err (''Failed to get local address: '' @ e)
           | Ok local_addr \<Rightarrow> Ok (gs_state s, local_addr, ge_shutdown env)))"

definition gateway_start :: "('kp, 'cert, 'csr, 'der, 'key, 'cfg) gateway_env \<Rightarrow> gateway_service \<Rightarrow> 32 word res \<times> gateway_service" where
  "gateway_start env s =
     (if gs_shutdown_tx s \<noteq> None then (Err ''GatewayService is already running'', s)
      else case gateway_initialize env s of
        Err e \<Rightarrow> (Err e, s)
      | Ok (st, local_addr, shutdown_tx) \<Rightarrow>
          (let s1 = s\<lparr>gs_shutdown_tx := Some shutdown_tx\<rparr> in
           if hc_tls_enabled (gs_config s1)
           then (case build_tls_config (ge_rcgen env) (ge_tls_lib env) (ge_ca env) of Err e \<Rightarrow> (Err e, s1) | Ok _ \<Rightarrow> (Ok 0, s1))
           else (Ok 0, s1)))"

definition gateway_stop :: "('kp, 'cert, 'csr, 'der, 'key, 'cfg) gateway_env \<Rightarrow> gateway_service \<Rightarrow> unit res \<times> gateway_service" where
  "gateway_stop env s =
     (case gs_shutdown_tx s of
        Some tx \<Rightarrow> (Ok (), s\<lparr>gs_shutdown_tx := None\<rparr>)
      | None \<Rightarrow> (Err ''GatewayService is not running'', s))"

definition gateway_is_running :: "('kp, 'cert, 'csr, 'der, 'key, 'cfg) gateway_env \<Rightarrow> gateway_service \<Rightarrow> bool \<times> gateway_service" where
  "gateway_is_running env s = (gs_shutdown_tx s \<noteq> None, s)"

definition gateway_vt :: "(('kp, 'cert, 'csr, 'der, 'key, 'cfg) gateway_env, gateway_service) managed_service" where
  "gateway_vt = \<lparr>svc_start = gateway_start, svc_stop = gateway_stop, svc_is_running = gateway_is_running\<rparr>"

definition gateway_up :: "gateway_service \<Rightarrow> bool" where
  "gateway_up s \<longleftrightarrow> gs_shutdown_tx s \<noteq> None"

lemmas gateway_svc_defs = gateway_vt_def gateway_start_def gateway_stop_def gateway_initialize_def gateway_up_def

interpretation gateway_svc: managed_laws
  "gateway_vt :: (('kp, 'cert, 'csr, 'der, 'key, 'cfg) gateway_env, gateway_service) managed_service" gateway_up "\<lambda>_. True"
  by unfold_locales (auto simp: gateway_svc_defs Let_def split: option.splits result.splits if_splits)

subsection \<open>Registration (\<open>manager.rs\<close>)\<close>

definition build_brokerage_info :: "'ip mqtt_brokerage_config \<Rightarrow> string \<Rightarrow> mqtt_brokerage_info" where
  "build_brokerage_info config ca_pem =
     \<lparr>bi_address = ''localhost'',
      bi_port = (if mb_tls_enabled config then mb_mqtts_port config else mb_port config),
      bi_ca_cert_pem = ca_pem\<rparr>"

definition gateway_register_onto ::
  "(gateway_service \<Rightarrow> 's) \<Rightarrow> http_config \<Rightarrow> mqtt_brokerage_info \<Rightarrow> ip_addr mqtt_brokerage_config option \<Rightarrow>
     bool \<Rightarrow> 's supervisor \<Rightarrow> 's supervisor" where
  "gateway_register_onto wrap config info brokerage has_topic_tx sv =
     register Gateway (wrap (gateway_new config info brokerage has_topic_tx)) True sv"

subsection \<open>Facts\<close>

lemma sign_csr_okD:
  assumes "sign_csr rg now faults d csr_pem ca = (Ok cert_pem, ca')"
  shows "\<exists>issued expires. ca' = ca\<lparr>ca_pool := (ca_pool ca)\<lparr>db_device_certs :=
      upsert_device d (cert_pem, issued, expires) (db_device_certs (ca_pool ca))\<rparr>\<rparr>"
  using assms by (auto simp: sign_csr_def split: option.splits result.splits intro!: exI intro: refl)

lemma sign_csr_errD: "sign_csr rg now faults d csr_pem ca = (Err e, ca') \<Longrightarrow> ca' = ca"
  by (auto simp: sign_csr_def split: option.splits result.splits)

text \<open>What a handler leaves of the CA: its key and state, and every device it has signed for.\<close>

definition ca_extends :: "('kp, 'cert) ca_service \<Rightarrow> ('kp, 'cert) ca_service \<Rightarrow> bool" where
  "ca_extends ca ca' \<longleftrightarrow> ca_loaded ca' = ca_loaded ca \<and>
     db_ca_keys (ca_pool ca') = db_ca_keys (ca_pool ca) \<and>
     db_node_identity (ca_pool ca') = db_node_identity (ca_pool ca) \<and>
     (\<forall>d. find_device (db_device_certs (ca_pool ca)) d \<noteq> None \<longrightarrow>
          find_device (db_device_certs (ca_pool ca')) d \<noteq> None)"

lemma ca_extends_refl [simp, intro]: "ca_extends ca ca"
  by (simp add: ca_extends_def)

lemma ca_extends_trans: "ca_extends a b \<Longrightarrow> ca_extends b c \<Longrightarrow> ca_extends a c"
  by (simp add: ca_extends_def)

lemma ca_extends_sign:
  assumes "sign_csr rg now faults d csr_pem ca = (r, ca')"
  shows "ca_extends ca ca'"
proof (cases r)
  case (Ok cert_pem)
  with assms sign_csr_okD [of rg now faults d csr_pem ca cert_pem ca'] show ?thesis
    by (auto simp: ca_extends_def find_upsert)
next
  case (Err e)
  with assms sign_csr_errD [of rg now faults d csr_pem ca e ca'] show ?thesis by simp
qed

lemma try_send_simps [simp]:
  "w_ca (try_send env c w) = w_ca w" "w_files (try_send env c w) = w_files w"
  by (simp_all add: try_send_def)

lemma ca_extends_init: "ca_extends (w_ca w) (w_ca (snd (handle_device_init env st req w)))"
  by (auto simp: handle_device_init_def Let_def dest: ca_extends_sign
      split: result.splits prod.splits option.splits)

lemma ca_extends_register: "ca_extends (w_ca w) (w_ca (snd (handle_client_register env st req w)))"
  by (auto simp: handle_client_register_def Let_def dest: ca_extends_sign
      split: result.splits prod.splits)

lemma ca_extends_dispatch: "ca_extends (w_ca w) (w_ca (snd (dispatch env st req w)))"
  by (simp add: dispatch_def ca_extends_init ca_extends_register split: result.split)

lemma device_init_cases:
  obtains (rejected) r where "process_init (he_device_json env) req = Err r"
      "handle_device_init env st req w = (r, w)"
  | (unsigned) rq e where "process_init (he_device_json env) req = Ok rq"
      "handle_device_init env st req w = (text_response 500 ''Failed to sign device certificate'', w)"
  | (unrecorded) rq cert_pem ca fs where "process_init (he_device_json env) req = Ok rq"
      "sign_csr (he_rcgen env) (he_now env) (he_db env) (md_hostname (di_mdns (dq_device rq)))
         (di_csr_pem (dq_device rq)) (w_ca w) = (Ok cert_pem, ca)"
      "handle_device_init env st req w =
         (text_response 500 ''Failed to register device MQTT identity'', w\<lparr>w_ca := ca, w_files := fs\<rparr>)"
  | (accepted) rq cert_pem ca fs where "process_init (he_device_json env) req = Ok rq"
      "sign_csr (he_rcgen env) (he_now env) (he_db env) (md_hostname (di_mdns (dq_device rq)))
         (di_csr_pem (dq_device rq)) (w_ca w) = (Ok cert_pem, ca)"
      "handle_device_init env st req w =
         (json_response 200 (JObj [(''cert_pem'', JStr cert_pem),
              (''brokerage'', brokerage_json ((as_brokerage_info st)\<lparr>bi_address := dq_broker_host rq\<rparr>)),
              (''beacon_id'', JStr (he_uuid env))]),
          (if as_has_topic_tx st
           then try_send env (beacon_channel (he_uuid env) (he_uuid env @ ''/cast'') Broadcast)
                  (try_send env (beacon_channel (he_uuid env) (he_uuid env @ ''/rec'') Listen)
                     (w\<lparr>w_ca := ca, w_files := fs\<rparr>))
           else w\<lparr>w_ca := ca, w_files := fs\<rparr>))"
proof (cases "process_init (he_device_json env) req")
  case (Err r)
  then show ?thesis using rejected by (simp add: handle_device_init_def)
next
  case (Ok rq)
  note pi = this
  obtain r ca where sg: "sign_csr (he_rcgen env) (he_now env) (he_db env) (md_hostname (di_mdns (dq_device rq)))
         (di_csr_pem (dq_device rq)) (w_ca w) = (r, ca)" by fastforce
  show ?thesis
  proof (cases r)
    case (Err e)
    with sg have "ca = w_ca w" using sign_csr_errD by blast
    with pi sg Err show ?thesis using unsigned by (simp add: handle_device_init_def Let_def)
  next
    case (Ok cert_pem)
    obtain r2 fs where f: "record_identity env st (md_hostname (di_mdns (dq_device rq))) cert_pem (w_files w) = (r2, fs)"
      by fastforce
    note sg' = sg [unfolded Ok]
    show ?thesis
    proof (cases r2)
      case (Err e)
      show ?thesis
        by (rule unrecorded [OF pi sg', of fs]) (simp add: handle_device_init_def pi sg' f Err Let_def)
    next
      case (Ok u)
      show ?thesis
        by (rule accepted [OF pi sg', of fs]) (simp add: handle_device_init_def pi sg' f Ok Let_def)
    qed
  qed
qed

lemma process_init_err_status: "process_init decode req = Err r \<Longrightarrow> rs_status r \<in> {400, 422}"
  by (auto simp: process_init_def text_response_def Let_def split: option.splits result.splits if_splits)

lemma response_simps [simp]:
  "rs_status (text_response n m) = n" "rs_status (json_response n j) = n"
  "rs_body (text_response n m) = TextBody m" "rs_body (json_response n j) = JsonBody j"
  by (simp_all add: text_response_def json_response_def)

lemma device_init_channels:
  assumes "handle_device_init env st req w = (resp, w')" and "rs_status resp = 200"
    and "as_has_topic_tx st" and "he_accepts env (w_queue w)" "he_accepts env (w_queue w @ [c1])"
    and "w_queue w' = w_queue w @ [c1, c2]"
  shows "c1 = beacon_channel (he_uuid env) (he_uuid env @ ''/rec'') Listen \<and>
    c2 = beacon_channel (he_uuid env) (he_uuid env @ ''/cast'') Broadcast"
proof (cases rule: device_init_cases [of env req st w])
  case (rejected r)
  with assms(1,2) process_init_err_status [OF rejected(1)] show ?thesis by auto
qed (use assms in \<open>auto simp: try_send_def split: if_splits\<close>)

lemma device_init_queue:
  assumes "rs_status (fst (handle_device_init env st req w)) = 200" and "as_has_topic_tx st"
    and "c1 = beacon_channel (he_uuid env) (he_uuid env @ ''/rec'') Listen"
    and "c2 = beacon_channel (he_uuid env) (he_uuid env @ ''/cast'') Broadcast"
    and "he_accepts env (w_queue w)" "he_accepts env (w_queue w @ [c1])"
  shows "w_queue (snd (handle_device_init env st req w)) = w_queue w @ [c1, c2]"
proof (cases rule: device_init_cases [of env req st w])
  case (rejected r)
  with assms(1) process_init_err_status [OF rejected(1)] show ?thesis by auto
qed (use assms in \<open>auto simp: try_send_def\<close>)

subsection \<open>Properties\<close>

text \<open>
  C16: A successful device handshake: the certificate returned is the one now stored, unrevoked,
  under the device's host name; the broker address returned is the host the device itself used,
  with the configured port and CA certificate; the listen and the broadcast channel of the fresh
  beacon id are offered to the message loop in this order, each only if the queue takes it.
\<close>

theorem device_init_accepted:
  assumes "handle_device_init env st req w = (resp, w')" and "rs_status resp = 200"
  shows "\<exists>rq cert_pem row.
    process_init (he_device_json env) req = Ok rq \<and>
    find_device (db_device_certs (ca_pool (w_ca w'))) (md_hostname (di_mdns (dq_device rq))) = Some row \<and>
    dr_cert_pem row = cert_pem \<and> dr_revoked row = 0 \<and>
    rs_body resp = JsonBody (JObj [(''cert_pem'', JStr cert_pem),
      (''brokerage'', JObj [(''address'', JStr (dq_broker_host rq)),
         (''port'', JNum (uint (bi_port (as_brokerage_info st)))),
         (''ca_cert_pem'', JStr (bi_ca_cert_pem (as_brokerage_info st)))]),
      (''beacon_id'', JStr (he_uuid env))]) \<and>
    (let listen = beacon_channel (he_uuid env) (he_uuid env @ ''/rec'') Listen;
         cast = beacon_channel (he_uuid env) (he_uuid env @ ''/cast'') Broadcast;
         q1 = (if as_has_topic_tx st \<and> he_accepts env (w_queue w) then w_queue w @ [listen] else w_queue w)
     in w_queue w' = (if as_has_topic_tx st \<and> he_accepts env q1 then q1 @ [cast] else q1))"
proof (cases rule: device_init_cases [of env req st w])
  case (rejected r)
  with assms process_init_err_status [OF rejected(1)] show ?thesis by auto
next
  case (accepted rq cert_pem ca fs)
  obtain i x where "ca = (w_ca w)\<lparr>ca_pool := (ca_pool (w_ca w))\<lparr>db_device_certs :=
      upsert_device (md_hostname (di_mdns (dq_device rq))) (cert_pem, i, x) (db_device_certs (ca_pool (w_ca w)))\<rparr>\<rparr>"
    using sign_csr_okD [OF accepted(2)] by blast
  then have "find_device (db_device_certs (ca_pool ca)) (md_hostname (di_mdns (dq_device rq))) =
      Some (device_entry (md_hostname (di_mdns (dq_device rq))) (cert_pem, i, x))"
    by (simp add: find_upsert)
  then show ?thesis
    using accepted assms
    by (intro exI [of _ rq] exI [of _ cert_pem]
        exI [of _ "device_entry (md_hostname (di_mdns (dq_device rq))) (cert_pem, i, x)"])
      (auto simp: device_entry_def brokerage_json_def try_send_def Let_def)
qed (use assms in auto)

definition demo_device :: device_info where
  "demo_device = \<lparr>di_address = ''10.0.0.7'', di_mdns = \<lparr>md_hostname = ''lamp'', md_port = 80\<rparr>, di_csr_pem = ''csr''\<rparr>"

definition demo_state :: app_state where
  "demo_state = \<lparr>as_brokerage_info = \<lparr>bi_address = ''localhost'', bi_port = 8883, bi_ca_cert_pem = ''ca''\<rparr>,
     as_brokerage = Some demo_cfg, as_upstream_port = 3000, as_has_topic_tx = True\<rparr>"

definition demo_request :: request where
  "demo_request = \<lparr>re_header = [HEADER_INIT \<mapsto> Some ''0.0.1'', ''host'' \<mapsto> Some ''box:8080''],
     re_collect = (\<lambda>n. Ok [])\<rparr>"

definition demo_env :: "nat \<Rightarrow> (nat, nat \<times> nat, string) http_env" where
  "demo_env cap = \<lparr>he_rcgen = demo_rcgen, he_now = 1000, he_db = (\<lambda>s. None), he_io = (\<lambda>p. None), he_uuid = ''u1'',
     he_accepts = (\<lambda>q. length q < cap), he_device_json = (\<lambda>b. Ok demo_device), he_csr_json = (\<lambda>b. Ok ''csr''),
     he_connect = (\<lambda>p. Err ''refused''), he_handshake = Ok (), he_send = (\<lambda>r. Err ''closed'')\<rparr>"

definition demo_world :: "(nat, nat \<times> nat) world" where
  "demo_world = \<lparr>w_ca = demo_ca, w_files = Map.empty, w_queue = []\<rparr>"

lemmas demo_http_defs = demo_device_def demo_state_def demo_request_def demo_env_def demo_world_def demo_defs

lemma demo_process_init:
  "process_init (he_device_json (demo_env cap)) demo_request =
     Ok \<lparr>dq_version = ''0.0.1'', dq_broker_host = ''box'', dq_device = demo_device\<rparr>"
  by (simp add: process_init_def demo_http_defs header_str_def header_names SUPPORTED_VERSION_def strip_port_def
      starts_with_def Let_def)

lemma demo_register_identity:
  "register_cert_identity (\<lambda>p. None) demo_cfg ''lamp'' c fs = (Ok (), fs(''/c/certs/lamp.crt'' \<mapsto> c))"
  by (simp add: register_cert_identity_def demo_defs path_parent_def trim_end_matches_def trim_end_by_def
      rsplit_once_def fs_write_def path_join_def is_absolute_def starts_with_def ends_with_def Let_def)

lemma demo_status: "rs_status (fst (handle_device_init (demo_env cap) demo_state demo_request demo_world)) = 200"
  unfolding handle_device_init_def demo_process_init
  by (simp add: Let_def sign_csr_def op_sign_csr_def run_stmt_def demo_http_defs record_identity_def
      demo_register_identity [unfolded demo_defs])

theorem device_init_accepted_witness:
  "\<exists>row. find_device (db_device_certs (ca_pool (w_ca (snd
       (handle_device_init (demo_env 64) demo_state demo_request demo_world))))) ''lamp'' = Some row \<and>
     dr_revoked row = 0 \<and>
     map ch_topic_type (w_queue (snd (handle_device_init (demo_env 64) demo_state demo_request demo_world))) =
       [Listen, Broadcast]"
proof -
  from device_init_accepted [OF prod.collapse [symmetric] demo_status [of 64]]
  show ?thesis
    by (auto simp: demo_process_init) (auto simp: demo_http_defs beacon_channel_def Let_def)
qed

text \<open>
  The same success is reported to the device when the queue has room for one channel only:
  then the message loop learns the listen topic but never the broadcast topic, and the beacon is
  never broadcast to.
\<close>

theorem device_init_half_registered:
  assumes "handle_device_init env st req w = (resp, w')" and "rs_status resp = 200"
    and "as_has_topic_tx st" and "he_accepts env (w_queue w)"
    and "\<not> he_accepts env (w_queue w @ [beacon_channel (he_uuid env) (he_uuid env @ ''/rec'') Listen])"
  shows "w_queue w' = w_queue w @ [beacon_channel (he_uuid env) (he_uuid env @ ''/rec'') Listen]"
proof (cases rule: device_init_cases [of env req st w])
  case (rejected r)
  with assms process_init_err_status [OF rejected(1)] show ?thesis by auto
qed (use assms in \<open>auto simp: try_send_def\<close>)

theorem device_init_half_registered_witness:
  "w_queue (snd (handle_device_init (demo_env 1) demo_state demo_request demo_world)) =
     [beacon_channel ''u1'' ''u1/rec'' Listen]"
  using device_init_half_registered [OF prod.collapse [symmetric] demo_status [of 1]]
  by (simp add: demo_http_defs)



text \<open>
  Over any sequence of requests of any kind on a connection, with any faults, the CA keeps
  its key, its loaded state and the node identity, and no device it has signed for is forgotten.
\<close>

theorem connection_keeps_ca:
  "ca_extends (w_ca w) (w_ca (snd (serve_tls_connection tls_ok st reqs w)))"
proof -
  have "ca_extends (w_ca w) (w_ca (snd (serve_connection st reqs w)))"
  proof (induction reqs arbitrary: w)
    case (Cons er reqs)
    obtain env req where er: "er = (env, req)" by (cases er)
    obtain resp w1 where d: "dispatch env st req w = (resp, w1)" by fastforce
    have "ca_extends (w_ca w) (w_ca w1)" using ca_extends_dispatch [of w env st req] d by simp
    then show ?case using Cons [of w1] er d by (auto split: prod.splits intro: ca_extends_trans)
  qed simp
  then show ?thesis by (simp add: serve_tls_connection_def)
qed

text \<open>
  A request without a PlaceNet header is only proxied: it is answered with the upstream's
  own response, or 502 when the upstream cannot be reached, and touches neither the CA, nor the
  files, nor the queue. A health check is answered 200 whatever else the request carries.
\<close>

theorem dispatch_proxy:
  "(\<not> contains_key req HEADER_HEALTH \<and> \<not> contains_key req HEADER_INIT \<and> \<not> contains_key req HEADER_REGISTER \<longrightarrow>
      dispatch env st req w =
        ((case try_forward env (as_upstream_port st) req of Ok resp \<Rightarrow> resp | Err e \<Rightarrow> text_response 502 ''Bad Gateway''), w)) \<and>
   (contains_key req HEADER_HEALTH \<longrightarrow> dispatch env st req w = (text_response 200 ''OK'', w))"
  by (simp add: dispatch_def handle_health_def split: result.split)

theorem dispatch_proxy_witness:
  "dispatch (demo_env 64) demo_state \<lparr>re_header = Map.empty, re_collect = (\<lambda>n. Ok [])\<rparr> demo_world =
     (text_response 502 ''Bad Gateway'', demo_world)"
  using dispatch_proxy [of "\<lparr>re_header = Map.empty, re_collect = (\<lambda>n. Ok [])\<rparr>" "demo_env 64" demo_state demo_world]
  by (simp add: contains_key_def try_forward_def demo_http_defs)

text \<open>
  A successful client registration returns a fresh client id with the certificate stored
  under that id and the CA certificate it verifies against; no file and no topic channel is
  touched.
\<close>

theorem client_register_accepted:
  assumes "handle_client_register env st req w = (resp, w')" and "rs_status resp = 201"
  shows "\<exists>row ca_st. find_device (db_device_certs (ca_pool (w_ca w'))) (he_uuid env) = Some row \<and>
    dr_revoked row = 0 \<and> ca_loaded (w_ca w') = Some ca_st \<and>
    rs_body resp = JsonBody (JObj [(''client_id'', JStr (he_uuid env)), (''cert_pem'', JStr (dr_cert_pem row)),
      (''ca_cert_pem'', JStr (rg_pem (he_rcgen env) (cs_cert ca_st)))]) \<and>
    w_files w' = w_files w \<and> w_queue w' = w_queue w"
proof -
  have e: "process_register d q = Err r \<Longrightarrow> rs_status r \<noteq> 201" for d q r
    by (auto simp: process_register_def text_response_def split: result.splits)
  obtain csr_pem where pr: "process_register (he_csr_json env) req = Ok csr_pem"
    using assms e by (cases "process_register (he_csr_json env) req") (auto simp: handle_client_register_def)
  obtain r ca where "sign_csr (he_rcgen env) (he_now env) (he_db env) (he_uuid env) csr_pem (w_ca w) = (r, ca)"
    by fastforce
  with pr assms obtain cert_pem where
    c: "sign_csr (he_rcgen env) (he_now env) (he_db env) (he_uuid env) csr_pem (w_ca w) = (Ok cert_pem, ca)"
    by (cases r) (auto simp: handle_client_register_def Let_def)
  with pr assms obtain ca_pem where p: "ca_cert_pem (he_rcgen env) ca = Ok ca_pem"
    by (cases "ca_cert_pem (he_rcgen env) ca") (auto simp: handle_client_register_def Let_def)
  from pr c p assms(1) have w': "w' = w\<lparr>w_ca := ca\<rparr>"
    and b: "rs_body resp = JsonBody (JObj [(''client_id'', JStr (he_uuid env)), (''cert_pem'', JStr cert_pem),
      (''ca_cert_pem'', JStr ca_pem)])"
    by (auto simp: handle_client_register_def Let_def)
  from sign_csr_okD [OF c] obtain i x where "find_device (db_device_certs (ca_pool ca)) (he_uuid env) =
      Some (device_entry (he_uuid env) (cert_pem, i, x))" by (auto simp: find_upsert)
  with p b w' show ?thesis
    by (auto simp: ca_cert_pem_def device_entry_def split: option.splits)
qed

theorem client_register_accepted_witness:
  "rs_status (fst (handle_client_register (demo_env 64) demo_state demo_request demo_world)) = 201 \<and>
   find_device (db_device_certs (ca_pool (w_ca (snd
     (handle_client_register (demo_env 64) demo_state demo_request demo_world))))) ''u1'' \<noteq> None"
proof -
  have s: "rs_status (fst (handle_client_register (demo_env 64) demo_state demo_request demo_world)) = 201"
    by (simp add: handle_client_register_def process_register_def sign_csr_def op_sign_csr_def run_stmt_def
        ca_cert_pem_def demo_http_defs Let_def)
  have u: "he_uuid (demo_env 64) = ''u1''" by (simp add: demo_env_def)
  from client_register_accepted [OF prod.collapse [symmetric] s] s show ?thesis unfolding u by auto
qed

text \<open>
  The port is stripped from the Host header of a device, \<open>host:port\<close> giving \<open>host\<close>, and a
  header without a colon is kept; but a bracketed IPv6 literal keeps its port, so that the
  address handed to the device is then not a host.
\<close>

theorem strip_port_spec:
  assumes "CHR '':'' \<notin> set port"
  shows "strip_port port = port \<and>
    strip_port (host @ '':'' @ port) =
      (if starts_with (host @ '':'') ''['' then host @ '':'' @ port else host)"
proof -
  have "rfind_char CHR '':'' (host @ '':'' @ port) = Some (length host)"
    using rfind_char_append [OF assms, of host] by simp
  moreover have "starts_with (host @ '':'' @ port) ''['' = starts_with (host @ '':'') ''[''"
    by (cases host) (auto simp: starts_with_def)
  ultimately show ?thesis
    using assms rfind_char_None_iff [of "CHR '':''" port] by (auto simp: strip_port_def)
qed

theorem strip_port_spec_witness:
  "strip_port ''192.168.2.39:8080'' = ''192.168.2.39'' \<and> strip_port ''[::1]:8080'' = ''[::1]:8080''"
  using strip_port_spec [of "''8080''" "''192.168.2.39''"] strip_port_spec [of "''8080''" "''[::1]''"]
  by (simp add: starts_with_def)

text \<open>
  The port a device is told is the one and only port the rendered broker configuration
  listens on, with TLS or without.
\<close>

theorem advertised_port_listens:
  assumes "paths_one_line c"
  shows "filter (\<lambda>l. starts_with l ''listener '') (lines_of (render_config c)) =
    [''listener '' @ show_u16 (bi_port (build_brokerage_info c ca_pem))]"
  unfolding lines_render_config [OF assms] by (simp add: build_brokerage_info_def starts_with_def)

theorem advertised_port_listens_witness:
  "filter (\<lambda>l. starts_with l ''listener '') (lines_of (render_config demo_cfg)) = [''listener '' @ show_u16 8883]"
  using advertised_port_listens [of demo_cfg "[]"]
  by (simp add: paths_one_line_def demo_cfg_def build_brokerage_info_def)

text \<open>
  When the TLS configuration cannot be built, the gateway's start has already kept its
  shutdown sender: the start is reported as failed, but every further start or restart is
  refused as \<open>already running\<close>, even after the cause is gone, until an explicit stop.
\<close>

theorem gateway_failed_start_sticks:
  assumes "sup_wf sv" and "statuses sv Gateway = Some Stopped" and "services sv Gateway = Some s"
    and "gs_shutdown_tx s = None" and "hc_tls_enabled (gs_config s)"
    and "ge_bind env (hc_host (gs_config s) @ '':'' @ show_u16 (hc_port (gs_config s))) = Ok ()"
    and "ge_local_addr env = Ok a"
    and "build_tls_config (ge_rcgen env) (ge_tls_lib env) (ge_ca env) = Err e"
    and "sv1 = snd (handle_start gateway_vt env Gateway sv)"
  shows "statuses sv1 Gateway = Some (Failed e) \<and>
    fst (handle_start gateway_vt env' Gateway sv1) = Err ''GatewayService is already running'' \<and>
    fst (handle_restart gateway_vt env' env'' Gateway sv1) = Err ''GatewayService is already running'' \<and>
    fst (handle_stop gateway_vt env' Gateway sv1) = Ok ()"
  using assms
  by (simp add: handle_start_def handle_restart_def handle_stop_def gateway_vt_def gateway_start_def
      gateway_initialize_def gateway_stop_def Let_def)

definition demo_genv :: "(nat, nat \<times> nat, string, nat, nat, unit) gateway_env" where
  "demo_genv = \<lparr>ge_bind = (\<lambda>a. Ok ()), ge_local_addr = Ok ''0.0.0.0:8080'', ge_shutdown = 1, ge_rcgen = demo_rcgen,
     ge_tls_lib = \<lparr>tl_certs = (\<lambda>s. []), tl_keys = (\<lambda>s. []), tl_single_cert = (\<lambda>c k. Ok ())\<rparr>, ge_ca = demo_ca\<rparr>"

theorem gateway_failed_start_sticks_witness:
  "fst (handle_restart gateway_vt demo_genv demo_genv Gateway (snd (handle_start gateway_vt demo_genv Gateway
     (register Gateway (gateway_new (http_from_env Map.empty) (as_brokerage_info demo_state) None True) True supervisor_new))))
   = Err ''GatewayService is already running''"
proof -
  let ?s = "gateway_new (http_from_env Map.empty) (as_brokerage_info demo_state) None True"
  let ?sv = "register Gateway ?s True supervisor_new"
  have t: "hc_tls_enabled (gs_config ?s)"
    by (simp add: gateway_new_def http_from_env_def env_or_def flag_true_def eq_ignore_ascii_case_def trim_def
        trim_end_by_def is_whitespace_def chr_code_def ascii_lower_def)
  have b: "build_tls_config (ge_rcgen demo_genv) (ge_tls_lib demo_genv) (ge_ca demo_genv) =
      Err ''No PKCS8 private key found in CA PEM''"
    by (simp add: build_tls_config_def demo_genv_def demo_defs)
  have wf: "sup_wf ?sv" by (intro sup_wf_register sup_wf_new)
  have st: "statuses ?sv Gateway = Some Stopped" "services ?sv Gateway = Some ?s"
    by (simp_all add: register_def supervisor_new_def Let_def)
  have g: "gs_shutdown_tx ?s = None" by (simp add: gateway_new_def)
  have e: "ge_bind demo_genv x = Ok ()" "ge_local_addr demo_genv = Ok ''0.0.0.0:8080''" for x
    by (simp_all add: demo_genv_def)
  show ?thesis
    using gateway_failed_start_sticks [OF wf st g t e b refl, of demo_genv demo_genv] by blast
qed

end
