(* ===== verification/Reconnect.thy ===== *)
theory Reconnect
  imports Prelude
begin

section \<open>Reconnecting tasks\<close>

text \<open>
  What the two tasks that keep a connection to a gateway share
  (\<open>cloud_gateway_service.rs\<close>, \<open>gateway_mqtt/tasks.rs\<close>): the reconnect delay, which starts at
  2 seconds and doubles up to 60 (the constants and the doubling are the same in both files),
  and runs of a step function on events, where \<open>None\<close> says that the task does not take the
  event in this state. The locale \<open>reconnector\<close> is the contract of the delay.
\<close>

definition INITIAL_RECONNECT_DELAY :: nat where "INITIAL_RECONNECT_DELAY = 2"
definition MAX_RECONNECT_DELAY :: nat where "MAX_RECONNECT_DELAY = 60"

definition next_delay :: "nat \<Rightarrow> nat" where
  "next_delay d = min (2 * d) MAX_RECONNECT_DELAY"

fun run_machine :: "('e \<Rightarrow> 's \<Rightarrow> 's option) \<Rightarrow> 'e list \<Rightarrow> 's \<Rightarrow> 's option" where
  "run_machine step [] s = Some s"
| "run_machine step (e # es) s =
     (case step e s of None \<Rightarrow> None | Some s' \<Rightarrow> run_machine step es s')"

lemma run_machine_invariant:
  assumes "run_machine step es s = Some s'" and "P s"
    and "\<And>e s s'. P s \<Longrightarrow> step e s = Some s' \<Longrightarrow> P s'"
  shows "P s'"
  using assms(1,2)
proof (induction es arbitrary: s)
  case (Cons e es)
  then obtain s1 where "step e s = Some s1" "run_machine step es s1 = Some s'"
    by (auto split: option.splits)
  with Cons assms(3) show ?case by blast
qed simp

lemma run_machine_append:
  "run_machine step (es @ es') s = Option.bind (run_machine step es s) (run_machine step es')"
  by (induction es arbitrary: s) (auto split: option.splits)

text \<open>The delays a task can ever wait.\<close>

definition ladder :: "nat set" where
  "ladder = {2, 4, 8, 16, 32, 60}"

lemma ladder_initial: "INITIAL_RECONNECT_DELAY \<in> ladder"
  by (simp add: ladder_def INITIAL_RECONNECT_DELAY_def)

lemma ladder_next: "d \<in> ladder \<Longrightarrow> next_delay d \<in> ladder"
  by (auto simp: ladder_def next_delay_def MAX_RECONNECT_DELAY_def)

lemma ladder_bounds: "d \<in> ladder \<Longrightarrow> 2 \<le> d \<and> d \<le> 60"
  by (auto simp: ladder_def)

lemma next_delay_funpow: "(next_delay ^^ k) 2 = min (2 ^ Suc k) 60"
  by (induction k) (auto simp: next_delay_def MAX_RECONNECT_DELAY_def)

locale reconnector =
  fixes step :: "'e \<Rightarrow> 's \<Rightarrow> 's option"
    and delay :: "'s \<Rightarrow> nat"
    and waits :: "'s \<Rightarrow> nat list"
  assumes step_delay: "step e s = Some s' \<Longrightarrow>
      (waits s' = waits s \<and> (delay s' = delay s \<or> delay s' = INITIAL_RECONNECT_DELAY)) \<or>
      (waits s' = waits s @ [delay s] \<and> delay s' = next_delay (delay s))"
begin

definition backed_off :: "'s \<Rightarrow> bool" where
  "backed_off s \<longleftrightarrow> delay s \<in> ladder \<and> set (waits s) \<subseteq> ladder \<and>
     (delay s = 2 \<or> (waits s \<noteq> [] \<and> delay s = next_delay (last (waits s)))) \<and>
     (\<forall>i. Suc i < length (waits s) \<longrightarrow> waits s ! Suc i = 2 \<or> waits s ! Suc i = next_delay (waits s ! i))"

lemma backed_off_init: "delay s = INITIAL_RECONNECT_DELAY \<Longrightarrow> waits s = [] \<Longrightarrow> backed_off s"
  by (simp add: backed_off_def ladder_def INITIAL_RECONNECT_DELAY_def)

lemma backed_off_step:
  assumes "backed_off s" and "step e s = Some s'"
  shows "backed_off s'"
  using step_delay [OF assms(2)]
proof
  assume "waits s' = waits s \<and> (delay s' = delay s \<or> delay s' = INITIAL_RECONNECT_DELAY)"
  with assms(1) show ?thesis by (auto simp: backed_off_def INITIAL_RECONNECT_DELAY_def ladder_def)
next
  assume w: "waits s' = waits s @ [delay s] \<and> delay s' = next_delay (delay s)"
  have "waits s' ! Suc i = 2 \<or> waits s' ! Suc i = next_delay (waits s' ! i)" if "Suc i < length (waits s')" for i
  proof (cases "Suc i = length (waits s)")
    case True
    then have "last (waits s) = waits s ! i" by (metis Suc_neq_Zero diff_Suc_1 last_conv_nth list.size(3))
    with True w assms(1) show ?thesis by (auto simp: backed_off_def nth_append)
  next
    case False
    with that w assms(1) show ?thesis by (auto simp: backed_off_def nth_append)
  qed
  with w assms(1) show ?thesis by (auto simp: backed_off_def ladder_next)
qed

lemma backed_off_run: "run_machine step es s = Some s' \<Longrightarrow> backed_off s \<Longrightarrow> backed_off s'"
  by (rule run_machine_invariant) (auto intro: backed_off_step)

end

end
