(* ===== verification/Cloud_Gateway.thy ===== *)
theory Cloud_Gateway
  imports Supervisor Reconnect Mqtt_Client
begin

section \<open>The WebSocket gateway client (\<open>src/services/cloud_gateway/\<close>)\<close>

text \<open>
  The frames, the address computation, the managed service and the connection task. The task is
  a step function on events: what \<open>select!\<close> or an awaited call reported. \<open>ser\<close> is
  \<open>serde_json::to_string\<close> on the JSON value of a message, \<open>parse\<close> is \<open>from_str\<close>.
\<close>

subsection \<open>Frames (\<open>messages.rs\<close>)\<close>

datatype gateway_message =
    Register string
  | Connect string
  | ConnectRequest string
  | BeaconRegistration string json
  | Relay string string json
  | Ack bool "string option"

text \<open>The internally tagged representation the attributes of the enum ask for.\<close>

fun message_json :: "gateway_message \<Rightarrow> json" where
  "message_json (Register server_url) = JObj [(''type'', JStr ''register''), (''server_url'', JStr server_url)]"
| "message_json (Connect tgt) = JObj [(''type'', JStr ''connect''), (''target'', JStr tgt)]"
| "message_json (ConnectRequest f) = JObj [(''type'', JStr ''connect_request''), (''from'', JStr f)]"
| "message_json (BeaconRegistration server_url payload) =
     JObj [(''type'', JStr ''beacon_registration''), (''server_url'', JStr server_url), (''payload'', payload)]"
| "message_json (Relay f t payload) =
     JObj [(''type'', JStr ''relay''), (''from'', JStr f), (''to'', JStr t), (''payload'', payload)]"
| "message_json (Ack ok None) = JObj [(''type'', JStr ''ack''), (''ok'', JBool ok)]"
| "message_json (Ack ok (Some m)) = JObj [(''type'', JStr ''ack''), (''ok'', JBool ok), (''message'', JStr m)]"

definition message_field :: "(string \<times> json) list \<Rightarrow> string option option" where
  "message_field ms =
     (case json_get ''message'' ms of
        None \<Rightarrow> Some None
      | Some JNull \<Rightarrow> Some None
      | Some (JStr m) \<Rightarrow> Some (Some m)
      | Some _ \<Rightarrow> None)"

definition message_of_members :: "string \<Rightarrow> (string \<times> json) list \<Rightarrow> gateway_message option" where
  "message_of_members tag ms =
     (if tag = ''register'' then map_option Register (member_str ''server_url'' ms)
      else if tag = ''connect'' then map_option Connect (member_str ''target'' ms)
      else if tag = ''connect_request'' then map_option ConnectRequest (member_str ''from'' ms)
      else if tag = ''beacon_registration'' then
        (case (member_str ''server_url'' ms, json_get ''payload'' ms) of
           (Some u, Some p) \<Rightarrow> Some (BeaconRegistration u p) | _ \<Rightarrow> None)
      else if tag = ''relay'' then
        (case (member_str ''from'' ms, member_str ''to'' ms, json_get ''payload'' ms) of
           (Some f, Some t, Some p) \<Rightarrow> Some (Relay f t p) | _ \<Rightarrow> None)
      else if tag = ''ack'' then
        (case (Option.bind (json_get ''ok'' ms) as_bool, message_field ms) of
           (Some ok, Some m) \<Rightarrow> Some (Ack ok m) | _ \<Rightarrow> None)
      else None)"

definition message_of_json :: "json \<Rightarrow> gateway_message option" where
  "message_of_json j =
     (case as_object j of None \<Rightarrow> None | Some ms \<Rightarrow>
      case member_str ''type'' ms of None \<Rightarrow> None | Some tag \<Rightarrow> message_of_members tag ms)"

subsection \<open>Addresses\<close>

definition compute_ws_url :: "string \<Rightarrow> string" where
  "compute_ws_url gateway_url =
     (let base = trim_end_matches CHR ''/'' gateway_url;
          base = (if starts_with base ''https://'' then replacen_1 base ''https://'' ''wss://''
                  else if starts_with base ''http://'' then replacen_1 base ''http://'' ''ws://''
                  else base)
      in if ends_with base ''/ws'' then base else base @ ''/ws'')"

subsection \<open>The managed service\<close>

record cloud_gateway_service =
  cg_server_url :: string
  cg_gateway_url :: string
  cg_outbound_rx :: "chan option"
  cg_shutdown_tx :: "chan option"

definition cloud_gateway_new :: "string \<Rightarrow> string \<Rightarrow> chan \<Rightarrow> cloud_gateway_service" where
  "cloud_gateway_new server_url gateway_url outbound_rx =
     \<lparr>cg_server_url = server_url, cg_gateway_url = gateway_url,
      cg_outbound_rx = Some outbound_rx, cg_shutdown_tx = None\<rparr>"

text \<open>The environment of a start is the fresh shutdown channel.\<close>

definition cloud_gateway_start :: "chan \<Rightarrow> cloud_gateway_service \<Rightarrow> 32 word res \<times> cloud_gateway_service" where
  "cloud_gateway_start shutdown s =
     (case cg_outbound_rx s of
        None \<Rightarrow> (Err ''CloudGatewayService already started'', s)
      | Some rx \<Rightarrow> (Ok 0, s\<lparr>cg_outbound_rx := None, cg_shutdown_tx := Some shutdown\<rparr>))"

definition cloud_gateway_stop :: "chan \<Rightarrow> cloud_gateway_service \<Rightarrow> unit res \<times> cloud_gateway_service" where
  "cloud_gateway_stop c s = (Ok (), s\<lparr>cg_shutdown_tx := None\<rparr>)"

definition cloud_gateway_is_running :: "chan \<Rightarrow> cloud_gateway_service \<Rightarrow> bool \<times> cloud_gateway_service" where
  "cloud_gateway_is_running c s = (cg_shutdown_tx s \<noteq> None, s)"

definition cloud_gateway_vt :: "(chan, cloud_gateway_service) managed_service" where
  "cloud_gateway_vt = \<lparr>svc_start = cloud_gateway_start, svc_stop = cloud_gateway_stop,
     svc_is_running = cloud_gateway_is_running\<rparr>"

definition cloud_up :: "cloud_gateway_service \<Rightarrow> bool" where
  "cloud_up s \<longleftrightarrow> cg_shutdown_tx s \<noteq> None"

definition cloud_spent :: "cloud_gateway_service \<Rightarrow> bool" where
  "cloud_spent s \<longleftrightarrow> cg_outbound_rx s = None"

definition cloud_ok :: "cloud_gateway_service \<Rightarrow> bool" where
  "cloud_ok s \<longleftrightarrow> (cloud_up s \<longrightarrow> cloud_spent s)"

lemmas cloud_svc_defs = cloud_gateway_vt_def cloud_gateway_start_def cloud_gateway_stop_def
  cloud_up_def cloud_spent_def cloud_ok_def

interpretation cloud: one_shot cloud_gateway_vt cloud_up cloud_ok cloud_spent "\<lambda>_. True"
  by unfold_locales (auto simp: cloud_svc_defs split: option.splits)

text \<open>\<open>register_onto\<close>: nothing is registered without a gateway URL; the flag is the handle.\<close>

definition cloud_register_onto ::
  "(cloud_gateway_service \<Rightarrow> 's) \<Rightarrow> chan \<Rightarrow> string \<Rightarrow> string option \<Rightarrow> 's supervisor \<Rightarrow> bool \<times> 's supervisor" where
  "cloud_register_onto wrap rx server_url gateway_url sv =
     (case gateway_url of
        None \<Rightarrow> (False, sv)
      | Some url \<Rightarrow> (True, register CloudGateway (wrap (cloud_gateway_new server_url url rx)) True sv))"

subsection \<open>The connection task\<close>

datatype ws_message = WsText string | WsPing string | WsClose | WsOther

datatype cg_event =
    EvEnqueue gateway_message
  | EvShutdown
  | EvConnected
  | EvConnectFailed
  | EvSent bool
  | EvOutbound bool
  | EvInbound ws_message
  | EvStreamEnd
  | EvStreamError
  | EvSlept

datatype cg_phase = Connecting | Registering | Looping | Sleeping | Ended

datatype wire = Opened | Announced string | Frame gateway_message | Pong string | Closed

datatype inbound_log = LogConnectRequest string | LogRelay string | LogAckOk | LogAckError "string option"
  | LogUnexpected gateway_message | LogUnparsed string

text \<open>
  What has gone over the wire: a new connection, the \<open>Register\<close> frame of the task, the frames
  taken from the queue, pongs, and the closing frame.
\<close>

record cg_task =
  ct_phase :: cg_phase
  ct_delay :: nat
  ct_waits :: "nat list"
  ct_queue :: "gateway_message list"
  ct_wire :: "wire list"
  ct_log :: "inbound_log list"

definition cg_init :: cg_task where
  "cg_init = \<lparr>ct_phase = Connecting, ct_delay = INITIAL_RECONNECT_DELAY, ct_waits = [], ct_queue = [],
     ct_wire = [], ct_log = []\<rparr>"

definition handle_inbound :: "(string \<Rightarrow> json option) \<Rightarrow> string \<Rightarrow> inbound_log" where
  "handle_inbound parse t =
     (case Option.bind (parse t) message_of_json of
        Some (ConnectRequest f) \<Rightarrow> LogConnectRequest f
      | Some (Relay f to p) \<Rightarrow> LogRelay f
      | Some (Ack ok m) \<Rightarrow> if ok then LogAckOk else LogAckError m
      | Some other \<Rightarrow> LogUnexpected other
      | None \<Rightarrow> LogUnparsed t)"

definition send_register :: "(json \<Rightarrow> string res) \<Rightarrow> string \<Rightarrow> bool \<Rightarrow> cg_task \<Rightarrow> cg_task" where
  "send_register ser server_url sent s =
     (if is_ok (ser (message_json (Register server_url))) \<and> sent
      then s\<lparr>ct_phase := Looping, ct_wire := ct_wire s @ [Announced server_url]\<rparr>
      else s\<lparr>ct_phase := Connecting\<rparr>)"

definition send_outbound :: "(json \<Rightarrow> string res) \<Rightarrow> gateway_message \<Rightarrow> bool \<Rightarrow> cg_task \<Rightarrow> cg_task" where
  "send_outbound ser msg sent s =
     (if \<not> is_ok (ser (message_json msg)) then s
      else if sent then s\<lparr>ct_wire := ct_wire s @ [Frame msg]\<rparr>
      else s\<lparr>ct_phase := Sleeping\<rparr>)"

fun receive :: "(string \<Rightarrow> json option) \<Rightarrow> ws_message \<Rightarrow> cg_task \<Rightarrow> cg_task" where
  "receive parse (WsText t) s = s\<lparr>ct_log := ct_log s @ [handle_inbound parse t]\<rparr>"
| "receive parse (WsPing d) s = s\<lparr>ct_wire := ct_wire s @ [Pong d]\<rparr>"
| "receive parse WsClose s = s\<lparr>ct_phase := Sleeping\<rparr>"
| "receive parse WsOther s = s"

definition cg_step ::
  "(json \<Rightarrow> string res) \<Rightarrow> (string \<Rightarrow> json option) \<Rightarrow> string \<Rightarrow> cg_event \<Rightarrow> cg_task \<Rightarrow> cg_task option" where
  "cg_step ser parse server_url ev s =
     (case (ct_phase s, ev) of
        (Ended, _) \<Rightarrow> None
      | (_, EvEnqueue m) \<Rightarrow> Some (s\<lparr>ct_queue := ct_queue s @ [m]\<rparr>)
      | (Connecting, EvShutdown) \<Rightarrow> Some (s\<lparr>ct_phase := Ended\<rparr>)
      | (Connecting, EvConnectFailed) \<Rightarrow> Some (s\<lparr>ct_phase := Sleeping\<rparr>)
      | (Connecting, EvConnected) \<Rightarrow>
          Some (s\<lparr>ct_phase := Registering, ct_delay := INITIAL_RECONNECT_DELAY, ct_wire := ct_wire s @ [Opened]\<rparr>)
      | (Registering, EvSent sent) \<Rightarrow> Some (send_register ser server_url sent s)
      | (Looping, EvShutdown) \<Rightarrow> Some (s\<lparr>ct_phase := Ended, ct_wire := ct_wire s @ [Closed]\<rparr>)
      | (Looping, EvOutbound sent) \<Rightarrow>
          (case ct_queue s of
             [] \<Rightarrow> None
           | m # q \<Rightarrow> Some (send_outbound ser m sent (s\<lparr>ct_queue := q\<rparr>)))
      | (Looping, EvInbound m) \<Rightarrow> Some (receive parse m s)
      | (Looping, EvStreamEnd) \<Rightarrow> Some (s\<lparr>ct_phase := Sleeping\<rparr>)
      | (Looping, EvStreamError) \<Rightarrow> Some (s\<lparr>ct_phase := Sleeping\<rparr>)
      | (Sleeping, EvSlept) \<Rightarrow>
          Some (s\<lparr>ct_phase := Connecting, ct_waits := ct_waits s @ [ct_delay s], ct_delay := next_delay (ct_delay s)\<rparr>)
      | _ \<Rightarrow> None)"

lemmas cg_step_simps = cg_step_def send_register_def send_outbound_def

lemmas cg_splits = cg_phase.splits cg_event.splits list.splits if_splits

lemma receive_simps [simp]:
  "ct_delay (receive parse m s) = ct_delay s" "ct_waits (receive parse m s) = ct_waits s"
  "ct_queue (receive parse m s) = ct_queue s"
  by (cases m; simp)+

interpretation cloud_task: reconnector "cg_step ser parse server_url" ct_delay ct_waits
  by unfold_locales (auto simp: cg_step_simps split: cg_splits)

subsection \<open>Properties of frames and addresses\<close>


lemma trim_slashes: "trim_end_matches c (u @ replicate n c) = trim_end_matches c u"
  by (induction n arbitrary: u)
    (simp_all add: trim_end_matches_def trim_end_by_def replicate_append_same flip: append_assoc)

lemma ws_suffix_trim: "ends_with s ''/ws'' \<Longrightarrow> trim_end_matches CHR ''/'' s = s"
  unfolding trim_end_matches_def by (rule trim_end_by_id) (auto simp: ends_with_iff)

lemma compute_ws_url_unfold:
  "trim_end_matches CHR ''/'' u = b \<Longrightarrow> compute_ws_url u =
     (let b' = (if starts_with b ''https://'' then ''wss://'' @ drop 8 b
                else if starts_with b ''http://'' then ''ws://'' @ drop 7 b else b)
      in if ends_with b' ''/ws'' then b' else b' @ ''/ws'')"
  using replacen_1_prefix [of "''https://''" _ "''wss://''"] replacen_1_prefix [of "''http://''" _ "''ws://''"]
  by (auto simp: compute_ws_url_def Let_def starts_with_iff)

lemma not_http_ws:
  assumes "\<not> starts_with b ''http://''" "\<not> starts_with b ''https://''" and "b = [] \<or> last b \<noteq> CHR ''/''"
  shows "\<not> starts_with (b @ ''/ws'') ''http://''" "\<not> starts_with (b @ ''/ws'') ''https://''"
  using assms by (auto simp: starts_with_iff append_eq_Cons_conv)

lemma trimmed_last: "trim_end_matches c u = [] \<or> last (trim_end_matches c u) \<noteq> c"
  using trim_end_by_last [of "\<lambda>x. x = c" u] by (auto simp: trim_end_matches_def)

lemma ws_fixed:
  assumes "ends_with b ''/ws''" "\<not> starts_with b ''http://''" "\<not> starts_with b ''https://''"
  shows "compute_ws_url b = b"
  using assms compute_ws_url_unfold [OF ws_suffix_trim [OF assms(1)]] by simp

text \<open>
  The WebSocket address always ends in \<open>/ws\<close>, does not depend on trailing slashes, and is
  not changed by computing it again; \<open>https\<close> becomes \<open>wss\<close> and \<open>http\<close> becomes \<open>ws\<close>, with \<open>/ws\<close>
  appended unless the address already ends so.
\<close>

theorem ws_url_spec:
  "ends_with (compute_ws_url u) ''/ws'' \<and>
   compute_ws_url (u @ replicate n CHR ''/'') = compute_ws_url u \<and>
   compute_ws_url (compute_ws_url u) = compute_ws_url u \<and>
   (\<forall>r. r \<noteq> [] \<longrightarrow> last r \<noteq> CHR ''/'' \<longrightarrow>
      compute_ws_url (''https://'' @ r) = (if ends_with (''/'' @ r) ''/ws'' then ''wss://'' @ r else ''wss://'' @ r @ ''/ws'') \<and>
      compute_ws_url (''http://'' @ r) = (if ends_with (''/'' @ r) ''/ws'' then ''ws://'' @ r else ''ws://'' @ r @ ''/ws''))"
proof -
  let ?b = "trim_end_matches CHR ''/'' u"
  have e: "ends_with (compute_ws_url u) ''/ws''"
    by (simp add: compute_ws_url_unfold [OF refl] Let_def ends_with_append [of _ "''/ws''", simplified])
  moreover have "compute_ws_url (u @ replicate n CHR ''/'') = compute_ws_url u"
    by (simp add: compute_ws_url_def trim_slashes)
  moreover have "\<not> starts_with (compute_ws_url u) ''http://''" "\<not> starts_with (compute_ws_url u) ''https://''"
    using not_http_ws [of ?b] trimmed_last [of "CHR ''/''" u]
    by (auto simp: compute_ws_url_unfold [OF refl] Let_def starts_with_def split: if_splits)
  with e have "compute_ws_url (compute_ws_url u) = compute_ws_url u" by (simp add: ws_fixed)
  moreover have "compute_ws_url (''https://'' @ r) = (if ends_with (''/'' @ r) ''/ws'' then ''wss://'' @ r else ''wss://'' @ r @ ''/ws'') \<and>
      compute_ws_url (''http://'' @ r) = (if ends_with (''/'' @ r) ''/ws'' then ''ws://'' @ r else ''ws://'' @ r @ ''/ws'')"
    if r: "r \<noteq> []" "last r \<noteq> CHR ''/''" for r
  proof -
    have t: "trim_end_matches CHR ''/'' (p @ r) = p @ r" for p
      unfolding trim_end_matches_def using r by (intro trim_end_by_id) simp
    have w: "ends_with (p @ ''/'' @ r) ''/ws'' = ends_with (''/'' @ r) ''/ws''" for p
      by (auto simp: ends_with_iff append_eq_append_conv2 append_eq_Cons_conv Cons_eq_append_conv)
    show ?thesis
      using w [of "''wss:/''"] w [of "''ws:/''"] t [of "''https://''"] t [of "''http://''"]
      by (simp add: compute_ws_url_unfold Let_def starts_with_def)
  qed
  ultimately show ?thesis by blast
qed

theorem ws_url_spec_witness:
  "compute_ws_url ''https://gw.example'' = ''wss://gw.example/ws'' \<and> compute_ws_url ''https://ws'' = ''wss://ws''"
proof -
  have a: "\<And>r. r \<noteq> [] \<Longrightarrow> last r \<noteq> CHR ''/'' \<Longrightarrow>
      compute_ws_url (''https://'' @ r) = (if ends_with (''/'' @ r) ''/ws'' then ''wss://'' @ r else ''wss://'' @ r @ ''/ws'')"
    using ws_url_spec by blast
  show ?thesis using a [of "''gw.example''"] a [of "''ws''"] by (simp add: ends_with_def)
qed

subsection \<open>Properties of the connection task\<close>

text \<open>
  The discipline on the wire as an automaton: no connection, a connection just opened, a
  connection on which the server has announced itself.
\<close>

datatype link = Down | Fresh | Known

fun wire_step :: "string \<Rightarrow> wire \<Rightarrow> link option \<Rightarrow> link option" where
  "wire_step u Opened (Some l) = Some Fresh"
| "wire_step u (Announced v) (Some Fresh) = (if v = u then Some Known else None)"
| "wire_step u (Frame m) (Some Known) = Some Known"
| "wire_step u (Pong d) (Some Known) = Some Known"
| "wire_step u Closed (Some Known) = Some Down"
| "wire_step u w l = None"

definition wire_link :: "string \<Rightarrow> wire list \<Rightarrow> link option" where
  "wire_link u ws = fold (wire_step u) ws (Some Down)"

lemma wire_link_snoc [simp]: "wire_link u (ws @ [w]) = wire_step u w (wire_link u ws)"
  by (simp add: wire_link_def)

definition link_inv :: "string \<Rightarrow> cg_task \<Rightarrow> bool" where
  "link_inv u s \<longleftrightarrow> wire_link u (ct_wire s) \<noteq> None \<and>
     (ct_phase s = Registering \<longrightarrow> wire_link u (ct_wire s) = Some Fresh) \<and>
     (ct_phase s = Looping \<longrightarrow> wire_link u (ct_wire s) = Some Known)"

lemma link_inv_receive: "link_inv u s \<Longrightarrow> ct_phase s = Looping \<Longrightarrow> link_inv u (receive parse m s)"
  by (cases m) (auto simp: link_inv_def)

lemma link_inv_step:
  assumes "link_inv u s" and "cg_step ser parse u ev s = Some s'"
  shows "link_inv u s'"
  using assms
  by (auto simp: cg_step_simps link_inv_receive split: cg_splits) (auto simp: link_inv_def)

text \<open>
  Whatever happens to its connections, the task only ever puts a frame on a connection
  after it has announced the server on that connection, announces it once per connection and
  nothing follows a closing frame on the same connection.
\<close>

theorem cloud_task_announces_first:
  assumes "run_machine (cg_step ser parse server_url) evs cg_init = Some s"
  shows "wire_link server_url (ct_wire s) \<noteq> None"
proof -
  have "link_inv server_url cg_init" by (simp add: link_inv_def cg_init_def wire_link_def)
  with assms have "link_inv server_url s" by (rule run_machine_invariant) (rule link_inv_step)
  then show ?thesis by (simp add: link_inv_def)
qed

text \<open>A run with one failed connection, one message sent, a ping and a shutdown.\<close>

definition demo_events :: "cg_event list" where
  "demo_events = [EvEnqueue (Connect ''b''), EvConnectFailed, EvSlept, EvConnected, EvSent True,
     EvOutbound True, EvInbound (WsPing ''x''), EvShutdown]"

lemma demo_run:
  "run_machine (cg_step (\<lambda>j. Ok []) (\<lambda>t. None) ''a'') demo_events cg_init =
     Some \<lparr>ct_phase = Ended, ct_delay = 2, ct_waits = [2], ct_queue = [],
       ct_wire = [Opened, Announced ''a'', Frame (Connect ''b''), Pong ''x'', Closed], ct_log = []\<rparr>"
  by (simp add: demo_events_def cg_init_def cg_step_simps INITIAL_RECONNECT_DELAY_def)

theorem cloud_task_announces_first_witness:
  "wire_link ''a'' [Opened, Announced ''a'', Frame (Connect ''b''), Pong ''x'', Closed] \<noteq> None"
  using cloud_task_announces_first [OF demo_run] by simp

fun enqueued :: "cg_event list \<Rightarrow> gateway_message list" where
  "enqueued [] = []"
| "enqueued (EvEnqueue m # evs) = m # enqueued evs"
| "enqueued (_ # evs) = enqueued evs"

fun frame_of :: "wire \<Rightarrow> gateway_message list" where
  "frame_of (Frame m) = [m]"
| "frame_of _ = []"

definition frames :: "cg_task \<Rightarrow> gateway_message list" where
  "frames s = concat (map frame_of (ct_wire s))"

fun enq1 :: "cg_event \<Rightarrow> gateway_message list" where
  "enq1 (EvEnqueue m) = [m]"
| "enq1 _ = []"

lemma enqueued_Cons: "enqueued (ev # evs) = enq1 ev @ enqueued evs"
  by (cases ev) auto

lemma frames_receive [simp]: "frames (receive parse m s) = frames s"
  by (cases m) (auto simp: frames_def)

lemma frames_updates [simp]:
  "frames (s\<lparr>ct_phase := p\<rparr>) = frames s" "frames (s\<lparr>ct_queue := q\<rparr>) = frames s"
  "frames (s\<lparr>ct_delay := d\<rparr>) = frames s" "frames (s\<lparr>ct_waits := ds\<rparr>) = frames s"
  "frames (s\<lparr>ct_wire := ct_wire s @ [w]\<rparr>) = frames s @ frame_of w"
  by (simp_all add: frames_def)

lemma frames_register:
  "frames (send_register ser u sent s) = frames s" "ct_queue (send_register ser u sent s) = ct_queue s"
  by (simp_all add: send_register_def frames_def)

lemma frames_outbound:
  "frames (send_outbound ser m sent s) = frames s @ (if is_ok (ser (message_json m)) \<and> sent then [m] else [])"
  "ct_queue (send_outbound ser m sent s) = ct_queue s"
  by (simp_all add: send_outbound_def frames_def)

definition lossless :: "(json \<Rightarrow> string res) \<Rightarrow> cg_event \<Rightarrow> bool" where
  "lossless ser ev \<longleftrightarrow> (\<forall>j. is_ok (ser j)) \<and> ev \<noteq> EvOutbound False"

lemma subseq_skip: "subseq (a @ q) (a @ m # q)"
  by (induction a) auto

lemma frames_step:
  assumes "cg_step ser parse u ev s = Some s'"
  shows "subseq (frames s' @ ct_queue s') (frames s @ ct_queue s @ enq1 ev) \<and>
    (lossless ser ev \<longrightarrow> frames s' @ ct_queue s' = frames s @ ct_queue s @ enq1 ev)"
proof (cases "\<exists>sent. ct_phase s = Looping \<and> ev = EvOutbound sent")
  case True
  then obtain sent m q where "ev = EvOutbound sent" "ct_queue s = m # q"
    "s' = send_outbound ser m sent (s\<lparr>ct_queue := q\<rparr>)"
    using assms by (auto simp: cg_step_def split: list.splits)
  then show ?thesis by (cases sent) (auto simp: frames_outbound lossless_def subseq_skip)
next
  case False
  have "frames s' @ ct_queue s' = frames s @ ct_queue s @ enq1 ev"
  proof (cases ev)
    case (EvInbound m)
    then show ?thesis using assms by (auto simp: cg_step_def split: cg_phase.splits)
  next
    case (EvSent b)
    then show ?thesis using assms by (auto simp: cg_step_def frames_register split: cg_phase.splits)
  next
    case EvConnected
    then show ?thesis using assms by (auto simp: cg_step_def frames_def split: cg_phase.splits)
  next
    case EvShutdown
    then show ?thesis using assms by (auto simp: cg_step_def frames_def split: cg_phase.splits)
  qed (use assms False in \<open>auto simp: cg_step_def frames_def split: cg_phase.splits\<close>)
  then show ?thesis by simp
qed

lemma frames_run:
  assumes "run_machine (cg_step ser parse u) evs s = Some s'"
  shows "subseq (frames s' @ ct_queue s') (frames s @ ct_queue s @ enqueued evs) \<and>
    (list_all (lossless ser) evs \<longrightarrow> frames s' @ ct_queue s' = frames s @ ct_queue s @ enqueued evs)"
  using assms
proof (induction evs arbitrary: s)
  case (Cons ev evs)
  then obtain s1 where s1: "cg_step ser parse u ev s = Some s1"
    and r: "run_machine (cg_step ser parse u) evs s1 = Some s'" by (auto split: option.splits)
  have "subseq (frames s1 @ ct_queue s1 @ enqueued evs) (frames s @ ct_queue s @ enqueued (ev # evs))"
    using frames_step [OF s1] subseq_append [of "frames s1 @ ct_queue s1" "enqueued evs" "frames s @ ct_queue s @ enq1 ev"]
    by (simp add: enqueued_Cons)
  moreover have "lossless ser ev \<longrightarrow>
      frames s1 @ ct_queue s1 @ enqueued evs = frames s @ ct_queue s @ enqueued (ev # evs)"
    using frames_step [OF s1] by (simp add: enqueued_Cons flip: append_assoc)
  ultimately show ?case using Cons.IH [OF r] subseq_order.order_trans by (auto simp flip: enqueued_Cons)
qed simp

text \<open>
  C35: What reaches the gateway is a subsequence, in order and without duplication, of what was
  queued, over all reconnections; nothing is lost as long as no send fails and every message
  can be serialised. A message whose send fails is not sent again.
\<close>

theorem cloud_task_delivery:
  assumes "run_machine (cg_step ser parse server_url) evs cg_init = Some s"
  shows "subseq (frames s @ ct_queue s) (enqueued evs) \<and>
    (list_all (lossless ser) evs \<longrightarrow> frames s @ ct_queue s = enqueued evs)"
proof -
  have "frames cg_init = []" "ct_queue cg_init = []" by (simp_all add: frames_def cg_init_def)
  with frames_run [OF assms] show ?thesis by simp
qed

theorem cloud_task_delivery_witness:
  "list_all (lossless (\<lambda>j. Ok [])) demo_events \<and> enqueued demo_events = [Connect ''b'']"
proof -
  have l: "list_all (lossless (\<lambda>j. Ok [])) demo_events" by (simp add: demo_events_def lossless_def)
  with cloud_task_delivery [OF demo_run] show ?thesis by (simp add: frames_def)
qed

text \<open>
  Every wait of the task before a reconnection lasts 2, 4, 8, 16, 32 or 60 seconds, and each
  is either 2 seconds or the double of the one before, capped at 60.
\<close>

theorem cloud_task_backoff:
  assumes "run_machine (cg_step ser parse server_url) evs cg_init = Some s"
  shows "set (ct_waits s) \<subseteq> {2, 4, 8, 16, 32, 60} \<and>
    (\<forall>i. Suc i < length (ct_waits s) \<longrightarrow>
       ct_waits s ! Suc i = 2 \<or> ct_waits s ! Suc i = min (2 * ct_waits s ! i) 60)"
  using cloud_task.backed_off_run [OF assms cloud_task.backed_off_init]
  by (simp add: cloud_task.backed_off_def cg_init_def ladder_def next_delay_def MAX_RECONNECT_DELAY_def)

theorem cloud_task_backoff_witness:
  "\<exists>s. run_machine (cg_step (\<lambda>j. Ok []) (\<lambda>t. None) ''a'')
      [EvConnectFailed, EvSlept, EvConnectFailed, EvSlept] cg_init = Some s \<and> ct_waits s = [2, 4] \<and>
    set (ct_waits s) \<subseteq> {2, 4, 8, 16, 32, 60}"
proof -
  have r: "run_machine (cg_step (\<lambda>j. Ok []) (\<lambda>t. None) ''a'') [EvConnectFailed, EvSlept, EvConnectFailed, EvSlept] cg_init =
      Some (cg_init\<lparr>ct_delay := 8, ct_waits := [2, 4]\<rparr>)"
    by (simp add: cg_init_def cg_step_def INITIAL_RECONNECT_DELAY_def next_delay_def MAX_RECONNECT_DELAY_def)
  from r cloud_task_backoff [OF r] show ?thesis by simp
qed

text \<open>
  When the connection opens but the \<open>Register\<close> frame cannot be sent, the task connects again
  at once: any number of such rounds takes no wait at all. And a shutdown is not noticed while
  the task waits: it must first finish the wait.
\<close>

theorem cloud_task_spins:
  assumes "ct_phase s = Connecting"
  shows "\<exists>s'. run_machine (cg_step ser parse server_url) (concat (replicate n [EvConnected, EvSent False])) s = Some s'
      \<and> ct_phase s' = Connecting \<and> ct_waits s' = ct_waits s
    \<and> cg_step ser parse server_url EvShutdown (s\<lparr>ct_phase := Sleeping\<rparr>) = None"
  using assms
proof (induction n arbitrary: s)
  case 0
  then show ?case by (simp add: cg_step_def)
next
  case (Suc n)
  define s1 where "s1 = s\<lparr>ct_phase := Registering, ct_delay := INITIAL_RECONNECT_DELAY, ct_wire := ct_wire s @ [Opened]\<rparr>"
  have "cg_step ser parse server_url EvConnected s = Some s1"
    using Suc.prems by (simp add: cg_step_def s1_def)
  moreover have "cg_step ser parse server_url (EvSent False) s1 = Some (s1\<lparr>ct_phase := Connecting\<rparr>)"
    by (simp add: cg_step_simps s1_def)
  moreover have "ct_waits (s1\<lparr>ct_phase := Connecting\<rparr>) = ct_waits s" by (simp add: s1_def)
  moreover have "cg_step ser parse server_url EvShutdown (s\<lparr>ct_phase := Sleeping\<rparr>) = None"
    by (simp add: cg_step_def)
  ultimately show ?case using Suc.IH [of "s1\<lparr>ct_phase := Connecting\<rparr>"] by auto
qed

theorem cloud_task_spins_witness:
  "\<exists>s'. run_machine (cg_step (\<lambda>j. Ok []) (\<lambda>t. None) ''a'') (concat (replicate 1000 [EvConnected, EvSent False])) cg_init = Some s'
     \<and> ct_waits s' = []"
  using cloud_task_spins [of cg_init "\<lambda>j. Ok []" "\<lambda>t. None" "''a''" 1000] by (auto simp: cg_init_def)

end
