(* ===== verification/Gateway_Mqtt.thy ===== *)
theory Gateway_Mqtt
  imports Supervisor Reconnect Mqtt_Client
begin

section \<open>The cloud gateway over MQTT (\<open>src/services/gateway_mqtt/\<close>)\<close>

text \<open>
  Login over HTTP(S), the connection task with its cached credentials and backoff, and the
  managed service. The TCP, TLS and HTTP stacks are one outcome per stage of the exchange; the
  task is a step function on events, as for the WebSocket client.
\<close>

subsection \<open>Protocol (\<open>protocol.rs\<close>)\<close>

record login_request =
  lq_username :: string
  lq_password :: string

record broker_info =
  bk_host :: string
  bk_port :: "16 word"

record device_topics =
  dt_cmds :: string
  dt_connect :: string
  dt_notify :: string

record login_response =
  lr_protocol_version :: string
  lr_device_id :: string
  lr_mqtt_username :: string
  lr_mqtt_password :: string
  lr_broker :: broker_info
  lr_topics :: device_topics

datatype envelope = Alive string

fun envelope_json :: "envelope \<Rightarrow> json" where
  "envelope_json (Alive device_id) = JObj [(''type'', JStr ''alive''), (''device_id'', JStr device_id)]"

subsection \<open>Login (\<open>login.rs\<close>)\<close>

record url =
  url_tls :: bool
  url_host :: string
  url_port :: "16 word"
  url_path :: string

definition url_parse :: "string \<Rightarrow> url res" where
  "url_parse input =
     (case split_once ''://'' input of
        None \<Rightarrow> Err (''invalid gateway url '' @ sq @ input @ sq)
      | Some (scheme, rest) \<Rightarrow>
          if scheme \<noteq> ''https'' \<and> scheme \<noteq> ''http'' then Err (''unsupported gateway scheme '' @ sq @ scheme @ sq)
          else let tls = (scheme = ''https'');
                   (authority, path) = (case find_char CHR ''/'' rest of
                      Some i \<Rightarrow> (take i rest, drop i rest) | None \<Rightarrow> (rest, ''/''));
                   dflt = (if tls then 443 else 80)
               in (case rsplit_once CHR '':'' authority of
                     Some (h, p) \<Rightarrow>
                       if h \<noteq> [] then
                         (case parse_u16 p of
                            None \<Rightarrow> Err (''invalid port in '' @ sq @ input @ sq)
                          | Some port \<Rightarrow> Ok \<lparr>url_tls = tls, url_host = h, url_port = port, url_path = path\<rparr>)
                       else Ok \<lparr>url_tls = tls, url_host = authority, url_port = dflt, url_path = path\<rparr>
                   | None \<Rightarrow> Ok \<lparr>url_tls = tls, url_host = authority, url_port = dflt, url_path = path\<rparr>))"

datatype login_error = Unauthorized | Transient string

text \<open>
  \<open>tls_connector\<close> builds its root store as \<open>build_server_tls\<close> of the MQTT client does, with its
  own error texts.
\<close>

fun connector_roots :: "('cert \<Rightarrow> unit res) \<Rightarrow> 'cert res list \<Rightarrow> 'cert list \<Rightarrow> 'cert list res" where
  "connector_roots add [] roots = Ok roots"
| "connector_roots add (Err e # cs) roots = Err (''parse gateway CA: '' @ e)"
| "connector_roots add (Ok c # cs) roots =
     (case add c of
        Err e \<Rightarrow> Err (''add gateway CA: '' @ e)
      | Ok _ \<Rightarrow> connector_roots add cs (roots @ [c]))"

definition tls_connector :: "'cert tls_env \<Rightarrow> string option \<Rightarrow> 'cert root_store res" where
  "tls_connector te cafile =
     (case cafile of
        Some f \<Rightarrow>
          (case te_read te f of
             Err e \<Rightarrow> Err (''read gateway CA '' @ sq @ f @ sq @ '': '' @ e)
           | Ok pem \<Rightarrow>
               (case connector_roots (te_add te) (te_pem_certs te pem) [] of
                  Err e \<Rightarrow> Err e
                | Ok roots \<Rightarrow> Ok (PinnedRoots roots)))
      | None \<Rightarrow> Ok WebpkiRoots)"

record 'cert login_env =
  le_tls :: "'cert tls_env"
  le_ser :: "login_request \<Rightarrow> byte list res"
  le_connect :: "string \<Rightarrow> 16 word \<Rightarrow> unit res"
  le_server_name :: "string \<Rightarrow> unit res"
  le_tls_handshake :: "'cert root_store \<Rightarrow> string \<Rightarrow> unit res"
  le_http_handshake :: "unit res"
  le_build :: "string \<Rightarrow> string \<Rightarrow> byte list \<Rightarrow> unit res"
  le_send :: "string \<Rightarrow> string \<Rightarrow> byte list \<Rightarrow> nat res"
  le_body :: "byte list res"
  le_show :: "nat \<Rightarrow> byte list \<Rightarrow> string"
  le_decode :: "byte list \<Rightarrow> login_response res"

definition send_request ::
  "'cert login_env \<Rightarrow> string \<Rightarrow> string \<Rightarrow> byte list \<Rightarrow> (login_response, login_error) result" where
  "send_request le host path body =
     (case le_http_handshake le of Err e \<Rightarrow> Err (Transient (''http handshake: '' @ e)) | Ok _ \<Rightarrow>
      case le_build le host path body of Err e \<Rightarrow> Err (Transient (''build request: '' @ e)) | Ok _ \<Rightarrow>
      case le_send le host path body of Err e \<Rightarrow> Err (Transient (''send request: '' @ e)) | Ok status \<Rightarrow>
      case le_body le of Err e \<Rightarrow> Err (Transient (''read body: '' @ e)) | Ok bytes \<Rightarrow>
      if status = 401 then Err Unauthorized
      else if \<not> (200 \<le> status \<and> status < 300) then Err (Transient (''login returned '' @ le_show le status bytes))
      else map_err (\<lambda>e. Transient (''parse login response: '' @ e)) (le_decode le bytes))"

definition login ::
  "'cert login_env \<Rightarrow> string \<Rightarrow> login_request \<Rightarrow> string option \<Rightarrow> (login_response, login_error) result" where
  "login le base_url req cafile =
     (case url_parse base_url of Err e \<Rightarrow> Err (Transient e) | Ok url \<Rightarrow>
      let path = trim_end_matches CHR ''/'' (url_path url) @ ''/api/login'' in
      case le_ser le req of Err e \<Rightarrow> Err (Transient (''serialise login: '' @ e)) | Ok body \<Rightarrow>
      case le_connect le (url_host url) (url_port url) of
        Err e \<Rightarrow> Err (Transient (''connect '' @ url_host url @ '':'' @ show_u16 (url_port url) @ '': '' @ e)) | Ok _ \<Rightarrow>
      if url_tls url then
        (case tls_connector (le_tls le) cafile of Err e \<Rightarrow> Err (Transient e) | Ok roots \<Rightarrow>
         case le_server_name le (url_host url) of Err e \<Rightarrow> Err (Transient (''invalid server name: '' @ e)) | Ok _ \<Rightarrow>
         case le_tls_handshake le roots (url_host url) of Err e \<Rightarrow> Err (Transient (''tls handshake: '' @ e)) | Ok _ \<Rightarrow>
         send_request le (url_host url) path body)
      else send_request le (url_host url) path body)"

subsection \<open>The managed service (\<open>gateway_mqtt_service.rs\<close>, \<open>manager.rs\<close>)\<close>

record gateway_mqtt_config =
  gc_login_url :: string
  gc_username :: string
  gc_password :: string
  gc_broker_cafile :: "string option"
  gc_broker_tls :: bool

record gateway_mqtt_service =
  gm_config :: gateway_mqtt_config
  gm_outbound_rx :: "chan option"
  gm_shutdown_tx :: "chan option"

definition gateway_mqtt_new :: "gateway_mqtt_config \<Rightarrow> chan \<Rightarrow> gateway_mqtt_service" where
  "gateway_mqtt_new config rx = \<lparr>gm_config = config, gm_outbound_rx = Some rx, gm_shutdown_tx = None\<rparr>"

definition gateway_mqtt_start :: "chan \<Rightarrow> gateway_mqtt_service \<Rightarrow> 32 word res \<times> gateway_mqtt_service" where
  "gateway_mqtt_start shutdown s =
     (case gm_outbound_rx s of
        None \<Rightarrow> (Err ''GatewayMqttService already started'', s)
      | Some rx \<Rightarrow> (Ok 0, s\<lparr>gm_outbound_rx := None, gm_shutdown_tx := Some shutdown\<rparr>))"

definition gateway_mqtt_stop :: "chan \<Rightarrow> gateway_mqtt_service \<Rightarrow> unit res \<times> gateway_mqtt_service" where
  "gateway_mqtt_stop c s = (Ok (), s\<lparr>gm_shutdown_tx := None\<rparr>)"

definition gateway_mqtt_is_running :: "chan \<Rightarrow> gateway_mqtt_service \<Rightarrow> bool \<times> gateway_mqtt_service" where
  "gateway_mqtt_is_running c s = (gm_shutdown_tx s \<noteq> None, s)"

definition gateway_mqtt_vt :: "(chan, gateway_mqtt_service) managed_service" where
  "gateway_mqtt_vt = \<lparr>svc_start = gateway_mqtt_start, svc_stop = gateway_mqtt_stop,
     svc_is_running = gateway_mqtt_is_running\<rparr>"

definition gmqtt_up :: "gateway_mqtt_service \<Rightarrow> bool" where
  "gmqtt_up s \<longleftrightarrow> gm_shutdown_tx s \<noteq> None"

definition gmqtt_spent :: "gateway_mqtt_service \<Rightarrow> bool" where
  "gmqtt_spent s \<longleftrightarrow> gm_outbound_rx s = None"

definition gmqtt_ok :: "gateway_mqtt_service \<Rightarrow> bool" where
  "gmqtt_ok s \<longleftrightarrow> (gmqtt_up s \<longrightarrow> gmqtt_spent s)"

lemmas gmqtt_svc_defs = gateway_mqtt_vt_def gateway_mqtt_start_def gateway_mqtt_stop_def
  gmqtt_up_def gmqtt_spent_def gmqtt_ok_def

interpretation gateway_mqtt: one_shot gateway_mqtt_vt gmqtt_up gmqtt_ok gmqtt_spent "\<lambda>_. True"
  by unfold_locales (auto simp: gmqtt_svc_defs split: option.splits)

definition gateway_mqtt_register_onto ::
  "(gateway_mqtt_service \<Rightarrow> 's) \<Rightarrow> chan \<Rightarrow> gateway_registration_config \<Rightarrow> 's supervisor \<Rightarrow> bool \<times> 's supervisor" where
  "gateway_mqtt_register_onto wrap rx cfg sv =
     (case gr_gateway_url cfg of
        None \<Rightarrow> (False, sv)
      | Some login_url \<Rightarrow>
          if gr_username cfg = [] \<or> gr_password cfg = [] then (False, sv)
          else (True, register GatewayMqttClient
                  (wrap (gateway_mqtt_new
                     \<lparr>gc_login_url = login_url, gc_username = gr_username cfg, gc_password = gr_password cfg,
                      gc_broker_cafile = gr_broker_cafile cfg, gc_broker_tls = gr_broker_tls cfg\<rparr> rx)) True sv))"

subsection \<open>The connection task (\<open>tasks.rs\<close>)\<close>

text \<open>
  The phases are the places where the task waits: for the login, for the options to be built,
  in the select loop, in the backoff. The local \<open>creds\<close> of the loop body is the cached login,
  which is only forgotten on leaving the select loop.
\<close>

datatype gm_phase = LoggingIn | Building | Serving | BackingOff | Finished

text \<open>\<open>GmLogin\<close> and \<open>GmBuilt\<close> carry the environment in which the call was made.\<close>

datatype 'cert gm_event =
    GmShutdown
  | GmLogin "'cert login_env"
  | GmBuilt "'cert tls_env"
  | GmOutbound mqtt_message bool
  | GmConnAck
  | GmPublish string "byte list"
  | GmOther
  | GmRefused
  | GmError string
  | GmElapsed

datatype gm_action =
    DoLogin login_request
  | DoSubscribe string qos
  | DoPublish string qos "byte list"
  | DoDisconnect

record gm_task =
  gt_phase :: gm_phase
  gt_delay :: nat
  gt_waits :: "nat list"
  gt_cached :: "login_response option"
  gt_actions :: "gm_action list"

definition client_cfg :: "gateway_mqtt_config \<Rightarrow> login_response \<Rightarrow> mqtt_client_config" where
  "client_cfg config creds =
     \<lparr>mc_client_id = lr_device_id creds, mc_host = bk_host (lr_broker creds), mc_port = bk_port (lr_broker creds),
      mc_tls_mode = (if gc_broker_tls config then ServerOnly else TlsNone), mc_cafile = gc_broker_cafile config,
      mc_certfile = None, mc_keyfile = None,
      mc_username = lr_mqtt_username creds, mc_password = lr_mqtt_password creds\<rparr>"

definition on_connected :: "(json \<Rightarrow> byte list res) \<Rightarrow> login_response \<Rightarrow> gm_action list" where
  "on_connected ser creds =
     [DoSubscribe (dt_cmds (lr_topics creds)) AtLeastOnce, DoSubscribe (dt_connect (lr_topics creds)) AtLeastOnce] @
     (case ser (envelope_json (Alive (lr_device_id creds))) of
        Ok payload \<Rightarrow> [DoPublish (dt_notify (lr_topics creds)) AtLeastOnce payload]
      | Err e \<Rightarrow> [])"

definition credentials :: "gateway_mqtt_config \<Rightarrow> login_request" where
  "credentials config = \<lparr>lq_username = gc_username config, lq_password = gc_password config\<rparr>"

text \<open>The head of the reconnect loop: use the cached credentials, or ask for a login.\<close>

definition reconnect :: "gateway_mqtt_config \<Rightarrow> gm_task \<Rightarrow> gm_task" where
  "reconnect config s =
     (case gt_cached s of
        Some _ \<Rightarrow> s\<lparr>gt_phase := Building\<rparr>
      | None \<Rightarrow> s\<lparr>gt_phase := LoggingIn, gt_actions := gt_actions s @ [DoLogin (credentials config)]\<rparr>)"

definition end_wait :: "gm_task \<Rightarrow> gm_task" where
  "end_wait s = s\<lparr>gt_waits := gt_waits s @ [gt_delay s], gt_delay := next_delay (gt_delay s)\<rparr>"

definition gm_init :: "gateway_mqtt_config \<Rightarrow> gm_task" where
  "gm_init config = reconnect config
     \<lparr>gt_phase = LoggingIn, gt_delay = INITIAL_RECONNECT_DELAY, gt_waits = [], gt_cached = None, gt_actions = []\<rparr>"

definition attempt_login :: "gateway_mqtt_config \<Rightarrow> 'cert login_env \<Rightarrow> (login_response, login_error) result" where
  "attempt_login config le = login le (gc_login_url config) (credentials config) (gc_broker_cafile config)"

definition gm_step ::
  "(json \<Rightarrow> byte list res) \<Rightarrow> gateway_mqtt_config \<Rightarrow> 'cert gm_event \<Rightarrow> gm_task \<Rightarrow> gm_task option" where
  "gm_step ser config ev s =
     (case (gt_phase s, ev) of
        (LoggingIn, GmShutdown) \<Rightarrow> Some (s\<lparr>gt_phase := Finished\<rparr>)
      | (LoggingIn, GmLogin le) \<Rightarrow>
          (case attempt_login config le of
             Ok resp \<Rightarrow> Some (s\<lparr>gt_cached := Some resp, gt_phase := Building\<rparr>)
           | Err Unauthorized \<Rightarrow> Some (s\<lparr>gt_phase := BackingOff\<rparr>)
           | Err (Transient e) \<Rightarrow> Some (s\<lparr>gt_phase := BackingOff\<rparr>))
      | (Building, GmBuilt te) \<Rightarrow>
          (case gt_cached s of
             None \<Rightarrow> None
           | Some creds \<Rightarrow>
               (case build_mqtt_opts te (client_cfg config creds) of
                  Ok opts \<Rightarrow> Some (s\<lparr>gt_phase := Serving\<rparr>)
                | Err e \<Rightarrow> Some (s\<lparr>gt_phase := BackingOff\<rparr>)))
      | (Serving, GmShutdown) \<Rightarrow> Some (s\<lparr>gt_phase := Finished, gt_actions := gt_actions s @ [DoDisconnect]\<rparr>)
      | (Serving, GmOutbound msg ok) \<Rightarrow>
          Some (s\<lparr>gt_actions := gt_actions s @ [DoPublish (mm_topic msg) AtLeastOnce (mm_payload msg)]\<rparr>)
      | (Serving, GmConnAck) \<Rightarrow>
          (case gt_cached s of
             None \<Rightarrow> None
           | Some creds \<Rightarrow> Some (s\<lparr>gt_delay := INITIAL_RECONNECT_DELAY, gt_actions := gt_actions s @ on_connected ser creds\<rparr>))
      | (Serving, GmPublish topic payload) \<Rightarrow> Some s
      | (Serving, GmOther) \<Rightarrow> Some s
      | (Serving, GmRefused) \<Rightarrow> Some (s\<lparr>gt_cached := None, gt_phase := BackingOff\<rparr>)
      | (Serving, GmError e) \<Rightarrow> Some (s\<lparr>gt_phase := BackingOff\<rparr>)
      | (BackingOff, GmShutdown) \<Rightarrow> Some ((end_wait s)\<lparr>gt_phase := Finished\<rparr>)
      | (BackingOff, GmElapsed) \<Rightarrow> Some (reconnect config (end_wait s))
      | _ \<Rightarrow> None)"

lemmas gm_step_simps = gm_step_def reconnect_def end_wait_def

lemmas gm_splits = gm_phase.splits gm_event.splits login_error.splits result.splits option.splits

interpretation gateway_task: reconnector "gm_step ser config" gt_delay gt_waits
  by unfold_locales (auto simp: gm_step_simps split: gm_splits)

subsection \<open>Properties of login\<close>

lemma split_scheme: "CHR '':'' \<notin> set s \<Longrightarrow> split_once ''://'' (s @ ''://'' @ r) = Some (s, r)"
  by (rule split_once_append) simp_all

lemma colon_notin_port: "CHR '':'' \<notin> set (show_u16 p)" and slash_notin_port: "CHR ''/'' \<notin> set (show_u16 p)"
  unfolding show_u16_def using show_nat_set not_digit by blast+

definition split_authority :: "string \<Rightarrow> string \<times> string" where
  "split_authority rest = (case find_char CHR ''/'' rest of Some i \<Rightarrow> (take i rest, drop i rest) | None \<Rightarrow> (rest, ''/''))"

lemma split_authority_append:
  assumes "CHR ''/'' \<notin> set a" and "path = [] \<or> hd path = CHR ''/''"
  shows "split_authority (a @ path) = (a, if path = [] then ''/'' else path)"
proof (cases path)
  case Nil
  then show ?thesis using assms(1) by (simp add: split_authority_def find_char_None_iff [THEN iffD2])
next
  case (Cons x xs)
  then show ?thesis using assms find_char_append [OF assms(1), of xs] by (simp add: split_authority_def)
qed

lemma url_parse_authority:
  assumes "scheme = ''https'' \<or> scheme = ''http''" and "CHR ''/'' \<notin> set a"
    and "path = [] \<or> hd path = CHR ''/''"
  shows "url_parse (scheme @ ''://'' @ a @ path) =
    (case rsplit_once CHR '':'' a of
       Some (h, p) \<Rightarrow>
         if h \<noteq> [] then
           (case parse_u16 p of
              None \<Rightarrow> Err (''invalid port in '' @ sq @ scheme @ ''://'' @ a @ path @ sq)
            | Some port \<Rightarrow> Ok \<lparr>url_tls = (scheme = ''https''), url_host = h, url_port = port,
                url_path = (if path = [] then ''/'' else path)\<rparr>)
         else Ok \<lparr>url_tls = (scheme = ''https''), url_host = a, url_port = (if scheme = ''https'' then 443 else 80),
                url_path = (if path = [] then ''/'' else path)\<rparr>
     | None \<Rightarrow> Ok \<lparr>url_tls = (scheme = ''https''), url_host = a, url_port = (if scheme = ''https'' then 443 else 80),
                url_path = (if path = [] then ''/'' else path)\<rparr>)"
proof -
  have "CHR '':'' \<notin> set scheme" using assms(1) by auto
  from split_scheme [OF this, of "a @ path"] show ?thesis
    using assms(1) split_authority_append [OF assms(2,3)]
    by (auto simp: url_parse_def split_authority_def Let_def split: option.splits prod.splits)
qed

text \<open>
  A gateway URL printed as \<open>scheme://host:port/path\<close> is parsed back into its parts, and one
  without a port gets 443 or 80 by its scheme; an empty path becomes \<open>/\<close>.
\<close>

theorem url_parse_roundtrip:
  assumes "scheme = ''https'' \<or> scheme = ''http''" and "host \<noteq> []" "CHR ''/'' \<notin> set host"
    and "path = [] \<or> hd path = CHR ''/''"
  shows "url_parse (scheme @ ''://'' @ (host @ '':'' @ show_u16 port) @ path) =
      Ok \<lparr>url_tls = (scheme = ''https''), url_host = host, url_port = port,
          url_path = (if path = [] then ''/'' else path)\<rparr> \<and>
    (CHR '':'' \<notin> set host \<longrightarrow> url_parse (scheme @ ''://'' @ host @ path) =
      Ok \<lparr>url_tls = (scheme = ''https''), url_host = host, url_port = (if scheme = ''https'' then 443 else 80),
          url_path = (if path = [] then ''/'' else path)\<rparr>)"
proof
  have a: "CHR ''/'' \<notin> set (host @ '':'' @ show_u16 port)"
    using assms(3) slash_notin_port by simp
  have r: "rsplit_once CHR '':'' (host @ '':'' @ show_u16 port) = Some (host, show_u16 port)"
    using rsplit_once_append [OF colon_notin_port] by simp
  show "url_parse (scheme @ ''://'' @ (host @ '':'' @ show_u16 port) @ path) =
      Ok \<lparr>url_tls = (scheme = ''https''), url_host = host, url_port = port,
          url_path = (if path = [] then ''/'' else path)\<rparr>"
    unfolding url_parse_authority [OF assms(1) a assms(4)] r using assms(2) by simp
  show "CHR '':'' \<notin> set host \<longrightarrow> url_parse (scheme @ ''://'' @ host @ path) =
      Ok \<lparr>url_tls = (scheme = ''https''), url_host = host, url_port = (if scheme = ''https'' then 443 else 80),
          url_path = (if path = [] then ''/'' else path)\<rparr>"
    unfolding url_parse_authority [OF assms(1,3,4)] by (simp add: rsplit_once_None_iff [THEN iffD2])
qed

theorem url_parse_roundtrip_witness:
  "url_parse (''https'' @ ''://'' @ (''gw.example'' @ '':'' @ show_u16 8443) @ ''/v1'') =
     Ok \<lparr>url_tls = True, url_host = ''gw.example'', url_port = 8443, url_path = ''/v1''\<rparr>"
  using url_parse_roundtrip [of "''https''" "''gw.example''" "''/v1''" 8443] by simp

text \<open>
  A URL whose host is a bracketed IPv6 literal without a port is refused: the text after
  the last colon inside the brackets is taken for a port.
\<close>

theorem url_parse_ipv6_refused:
  assumes "scheme = ''https'' \<or> scheme = ''http''" and "CHR '':'' \<in> set a" "CHR ''/'' \<notin> set a"
    and "path = [] \<or> hd path = CHR ''/''"
  shows "\<exists>e. url_parse (scheme @ ''://'' @ (''['' @ a @ '']'') @ path) = Err e"
proof -
  obtain u v where a: "a = u @ CHR '':'' # v" "CHR '':'' \<notin> set v"
    using assms(2) by (metis split_list_last)
  have r: "rsplit_once CHR '':'' (''['' @ a @ '']'') = Some (''['' @ u, v @ '']'')"
    using rsplit_once_append [of "CHR '':''" "v @ '']''" "''['' @ u"] a by simp
  have p: "parse_u16 (v @ '']'') = None"
    by (cases v) (auto simp: parse_u16_def parse_uint_def Let_def is_digit_def chr_code_def)
  have n: "CHR ''/'' \<notin> set (''['' @ a @ '']'')" using assms(3) by simp
  show ?thesis unfolding url_parse_authority [OF assms(1) n assms(4)] r by (simp add: p)
qed

theorem url_parse_ipv6_refused_witness:
  "\<exists>e. url_parse (''https'' @ ''://'' @ (''['' @ ''::1'' @ '']'') @ ''/'') = Err e"
  using url_parse_ipv6_refused [of "''https''" "''::1''" "''/''"] by simp

text \<open>
  A login succeeds only with a 2xx answer to the request posted to the parsed host and port
  at \<open>path/api/login\<close>, over TLS whenever the URL says \<open>https\<close>, with the pinned CA when one is
  configured; and credentials are reported rejected only for an answer with status 401.
\<close>

theorem login_outcome:
  "(login le base req cafile = Ok resp \<longrightarrow>
     (\<exists>u body bytes status. url_parse base = Ok u \<and> le_ser le req = Ok body \<and>
        le_connect le (url_host u) (url_port u) = Ok () \<and>
        (url_tls u \<longrightarrow> (\<exists>roots. tls_connector (le_tls le) cafile = Ok roots \<and>
            le_tls_handshake le roots (url_host u) = Ok () \<and> (cafile \<noteq> None \<longrightarrow> roots \<noteq> WebpkiRoots))) \<and>
        le_send le (url_host u) (trim_end_matches CHR ''/'' (url_path u) @ ''/api/login'') body = Ok status \<and>
        200 \<le> status \<and> status < 300 \<and> le_body le = Ok bytes \<and> le_decode le bytes = Ok resp)) \<and>
   (login le base req cafile = Err Unauthorized \<longrightarrow> (\<exists>host path body. le_send le host path body = Ok 401))"
proof -
  have ok: "\<exists>bytes status. le_send le h p b = Ok status \<and> 200 \<le> status \<and> status < 300 \<and>
      le_body le = Ok bytes \<and> le_decode le bytes = Ok r" if "send_request le h p b = Ok r" for h p b r
    using that by (auto simp: send_request_def split: result.splits if_splits)
  have un: "le_send le h p b = Ok 401" if "send_request le h p b = Err Unauthorized" for h p b
    using that by (auto simp: send_request_def split: result.splits if_splits)
  have roots: "tls_connector (le_tls le) (Some f) \<noteq> Ok WebpkiRoots" for f
    by (auto simp: tls_connector_def split: result.splits)
  show ?thesis
  proof
    show "login le base req cafile = Ok resp \<longrightarrow>
     (\<exists>u body bytes status. url_parse base = Ok u \<and> le_ser le req = Ok body \<and>
        le_connect le (url_host u) (url_port u) = Ok () \<and>
        (url_tls u \<longrightarrow> (\<exists>roots. tls_connector (le_tls le) cafile = Ok roots \<and>
            le_tls_handshake le roots (url_host u) = Ok () \<and> (cafile \<noteq> None \<longrightarrow> roots \<noteq> WebpkiRoots))) \<and>
        le_send le (url_host u) (trim_end_matches CHR ''/'' (url_path u) @ ''/api/login'') body = Ok status \<and>
        200 \<le> status \<and> status < 300 \<and> le_body le = Ok bytes \<and> le_decode le bytes = Ok resp)"
      by (auto simp: login_def Let_def roots dest!: ok split: result.splits if_splits)
    show "login le base req cafile = Err Unauthorized \<longrightarrow> (\<exists>host path body. le_send le host path body = Ok 401)"
      by (auto simp: login_def Let_def dest!: un split: result.splits if_splits)
  qed
qed

definition demo_login :: "nat \<Rightarrow> nat login_env" where
  "demo_login status = \<lparr>le_tls = \<lparr>te_read = (\<lambda>f. Ok []), te_pem_certs = (\<lambda>b. [Ok 1]), te_add = (\<lambda>c. Ok ())\<rparr>,
     le_ser = (\<lambda>r. Ok []), le_connect = (\<lambda>h p. Ok ()), le_server_name = (\<lambda>h. Ok ()),
     le_tls_handshake = (\<lambda>r h. Ok ()), le_http_handshake = Ok (), le_build = (\<lambda>h p b. Ok ()),
     le_send = (\<lambda>h p b. Ok status), le_body = Ok [], le_show = (\<lambda>n b. []),
     le_decode = (\<lambda>b. Ok \<lparr>lr_protocol_version = ''1'', lr_device_id = ''d'', lr_mqtt_username = ''u'',
        lr_mqtt_password = ''p'', lr_broker = \<lparr>bk_host = ''b'', bk_port = 8883\<rparr>,
        lr_topics = \<lparr>dt_cmds = ''c'', dt_connect = ''k'', dt_notify = ''n''\<rparr>\<rparr>)\<rparr>"

definition demo_gmqtt :: gateway_mqtt_config where
  "demo_gmqtt = \<lparr>gc_login_url = ''https://gw'', gc_username = ''me'', gc_password = ''pw'',
     gc_broker_cafile = None, gc_broker_tls = True\<rparr>"

lemma demo_url: "url_parse ''https://gw'' = Ok \<lparr>url_tls = True, url_host = ''gw'', url_port = 443, url_path = ''/''\<rparr>"
  by (simp add: url_parse_def starts_with_def rsplit_once_def)

lemma demo_attempt:
  "\<exists>resp. attempt_login demo_gmqtt (demo_login 200) = Ok resp"
  "attempt_login demo_gmqtt (demo_login 401) = Err Unauthorized"
  by (simp_all add: attempt_login_def login_def demo_gmqtt_def demo_url tls_connector_def send_request_def demo_login_def)

theorem login_outcome_witness:
  "\<exists>host path body. le_send (demo_login 401) host path body = Ok 401"
  using login_outcome [of "demo_login 401" "gc_login_url demo_gmqtt" "credentials demo_gmqtt" "gc_broker_cafile demo_gmqtt"]
    demo_attempt(2) by (simp add: attempt_login_def)

subsection \<open>Properties of the connection task\<close>

fun is_login :: "gm_action \<Rightarrow> bool" where
  "is_login (DoLogin r) = True"
| "is_login _ = False"

definition logins :: "gm_task \<Rightarrow> nat" where
  "logins s = length (filter is_login (gt_actions s))"

definition auth_failure :: "gateway_mqtt_config \<Rightarrow> 'cert gm_event \<Rightarrow> bool" where
  "auth_failure config ev \<longleftrightarrow>
     (case ev of GmRefused \<Rightarrow> True | GmLogin le \<Rightarrow> \<not> is_ok (attempt_login config le) | _ \<Rightarrow> False)"

text \<open>Whether the task will have to log in when it next leaves its backoff.\<close>

definition owes_login :: "gm_task \<Rightarrow> nat" where
  "owes_login s = (if gt_phase s = BackingOff \<and> gt_cached s = None then 1 else 0)"

definition gm_inv :: "gateway_mqtt_config \<Rightarrow> gm_task \<Rightarrow> bool" where
  "gm_inv config s \<longleftrightarrow>
     (gt_phase s \<in> {Building, Serving} \<longrightarrow> gt_cached s \<noteq> None) \<and>
     (gt_phase s = LoggingIn \<longrightarrow> gt_cached s = None) \<and>
     (\<forall>r. DoLogin r \<in> set (gt_actions s) \<longrightarrow> r = credentials config)"

lemma on_connected_no_login: "filter is_login (on_connected ser creds) = []" "DoLogin r \<notin> set (on_connected ser creds)"
  by (auto simp: on_connected_def split: result.splits)

lemma gm_inv_init: "gm_inv config (gm_init config)"
  by (simp add: gm_inv_def gm_init_def reconnect_def)

lemma gm_step_inv:
  assumes "gm_inv config s" and "gm_step ser config ev s = Some s'"
  shows "gm_inv config s'"
  using assms on_connected_no_login(2) [of _ ser]
  by (cases "gt_phase s"; cases ev)
    (auto simp: gm_step_simps gm_inv_def split: result.splits login_error.splits option.splits)

lemma gm_step_logins:
  assumes "gm_inv config s" and "gm_step ser config ev s = Some s'"
  shows "logins s' + owes_login s' \<le> logins s + owes_login s + (if auth_failure config ev then 1 else 0)"
  using assms on_connected_no_login(1) [of ser]
  by (cases "gt_phase s"; cases ev)
    (auto simp: gm_step_simps gm_inv_def logins_def owes_login_def auth_failure_def
      split: result.splits login_error.splits option.splits)

lemma gm_run_logins:
  assumes "run_machine (gm_step ser config) evs s = Some s'" and "gm_inv config s"
  shows "gm_inv config s' \<and>
    logins s' + owes_login s' \<le> logins s + owes_login s + length (filter (auth_failure config) evs)"
  using assms
proof (induction evs arbitrary: s)
  case (Cons ev evs)
  then obtain s1 where s1: "gm_step ser config ev s = Some s1"
    and r: "run_machine (gm_step ser config) evs s1 = Some s'" by (auto split: option.splits)
  have "gm_inv config s1" using Cons.prems(2) s1 by (rule gm_step_inv)
  from Cons.IH [OF r this] gm_step_logins [OF Cons.prems(2) s1] show ?case by auto
qed simp

text \<open>
  C37: Credentials are reused across transport failures: over any run the number of login
  requests is at most one more than the number of failed logins and refused connections, so that
  a lost connection alone never causes another login; every login uses the configured
  credentials.
\<close>

theorem gateway_logins_bounded:
  assumes "run_machine (gm_step ser config) evs (gm_init config) = Some s"
  shows "length (filter is_login (gt_actions s)) \<le> 1 + length (filter (auth_failure config) evs) \<and>
    (\<forall>r. DoLogin r \<in> set (gt_actions s) \<longrightarrow> r = credentials config)"
proof -
  have "logins (gm_init config) = 1" "owes_login (gm_init config) = 0"
    by (simp_all add: logins_def owes_login_def gm_init_def reconnect_def)
  with gm_run_logins [OF assms gm_inv_init] show ?thesis by (simp add: logins_def gm_inv_def)
qed

lemma demo_gm_run:
  "\<exists>s. run_machine (gm_step (\<lambda>j. Ok []) demo_gmqtt)
     [GmLogin (demo_login 200), GmBuilt (le_tls (demo_login 200)), GmError ''x'', GmElapsed,
      GmBuilt (le_tls (demo_login 200)), GmConnAck, GmShutdown] (gm_init demo_gmqtt) = Some s \<and>
     gt_phase s = Finished"
proof -
  obtain resp where r: "attempt_login demo_gmqtt (demo_login 200) = Ok resp" using demo_attempt(1) by blast
  have "\<exists>x. build_mqtt_opts (le_tls (demo_login 200)) (client_cfg demo_gmqtt resp) = Ok x"
    by (simp add: build_mqtt_opts_def client_cfg_def demo_gmqtt_def build_server_tls_def Let_def)
  with r show ?thesis by (auto simp: gm_step_simps gm_init_def)
qed

theorem gateway_logins_bounded_witness:
  "\<exists>s. run_machine (gm_step (\<lambda>j. Ok []) demo_gmqtt)
     [GmLogin (demo_login 200), GmBuilt (le_tls (demo_login 200)), GmError ''x'', GmElapsed,
      GmBuilt (le_tls (demo_login 200)), GmConnAck, GmShutdown] (gm_init demo_gmqtt) = Some s \<and>
     length (filter is_login (gt_actions s)) \<le> 1"
proof -
  obtain s where s: "run_machine (gm_step (\<lambda>j. Ok []) demo_gmqtt)
     [GmLogin (demo_login 200), GmBuilt (le_tls (demo_login 200)), GmError ''x'', GmElapsed,
      GmBuilt (le_tls (demo_login 200)), GmConnAck, GmShutdown] (gm_init demo_gmqtt) = Some s"
    using demo_gm_run by blast
  from gateway_logins_bounded [OF s] demo_attempt(1) s show ?thesis
    by (auto simp: auth_failure_def)
qed

lemma rejected_run:
  assumes "attempt_login config le = Err Unauthorized"
  shows "run_machine (gm_step ser config) (concat (replicate k [GmLogin le, GmElapsed]))
      \<lparr>gt_phase = LoggingIn, gt_delay = d, gt_waits = ws, gt_cached = None, gt_actions = as\<rparr> =
    Some \<lparr>gt_phase = LoggingIn, gt_delay = (next_delay ^^ k) d,
      gt_waits = ws @ map (\<lambda>i. (next_delay ^^ i) d) [0..<k], gt_cached = None,
      gt_actions = as @ replicate k (DoLogin (credentials config))\<rparr>"
proof (induction k arbitrary: d ws as)
  case (Suc k)
  have "map (\<lambda>i. (next_delay ^^ i) d) [0..<Suc k] = d # map (\<lambda>i. (next_delay ^^ i) (next_delay d)) [0..<k]"
    by (simp add: upt_conv_Cons map_Suc_upt [symmetric] funpow_swap1 del: upt_Suc)
  then show ?case
    using Suc.IH [of "next_delay d" "ws @ [d]" "as @ [DoLogin (credentials config)]"] assms
    by (simp add: gm_step_simps funpow_swap1 del: upt_Suc)
qed simp

text \<open>
  Rejected credentials are tried again unchanged after each backoff, without end: after \<open>k\<close>
  rejections the task has sent the same login \<open>k + 1\<close> times and has waited 2, 4, 8, 16, 32, 60,
  60, .. seconds.
\<close>

theorem gateway_rejected_retries:
  assumes "attempt_login config le = Err Unauthorized"
  shows "\<exists>s. run_machine (gm_step ser config) (concat (replicate k [GmLogin le, GmElapsed])) (gm_init config) = Some s \<and>
    gt_phase s = LoggingIn \<and>
    gt_actions s = replicate (Suc k) (DoLogin (credentials config)) \<and>
    gt_waits s = map (\<lambda>i. min (2 ^ Suc i) 60) [0..<k]"
proof -
  have "gm_init config = \<lparr>gt_phase = LoggingIn, gt_delay = 2, gt_waits = [], gt_cached = None,
      gt_actions = [DoLogin (credentials config)]\<rparr>"
    by (simp add: gm_init_def reconnect_def INITIAL_RECONNECT_DELAY_def)
  then show ?thesis by (simp add: rejected_run [OF assms] next_delay_funpow)
qed

theorem gateway_rejected_retries_witness:
  "\<exists>s. run_machine (gm_step (\<lambda>j. Ok []) demo_gmqtt) (concat (replicate 7 [GmLogin (demo_login 401), GmElapsed]))
      (gm_init demo_gmqtt) = Some s \<and> gt_waits s = [2, 4, 8, 16, 32, 60, 60]"
  using gateway_rejected_retries [OF demo_attempt(2), of "\<lambda>j. Ok []" 7] by (auto simp: upt_rec numeral_eq_Suc)

text \<open>
  A shutdown ends the task from wherever it is: it is taken at once while logging in, while
  serving and during the backoff, and directly after the options are built otherwise, whether
  building succeeds or fails. Each wait of the backoff is one of 2, 4, 8, 16, 32, 60 seconds.
\<close>

theorem gateway_task_stops:
  assumes "run_machine (gm_step ser config) evs (gm_init config) = Some s" and "gt_phase s \<noteq> Finished"
  shows "(gt_phase s \<noteq> Building \<longrightarrow> (\<exists>s'. gm_step ser config GmShutdown s = Some s' \<and> gt_phase s' = Finished)) \<and>
    (gt_phase s = Building \<longrightarrow>
       (\<forall>te. \<exists>s'. run_machine (gm_step ser config) [GmBuilt te, GmShutdown] s = Some s' \<and> gt_phase s' = Finished)) \<and>
    set (gt_waits s) \<subseteq> {2, 4, 8, 16, 32, 60}"
proof -
  have inv: "gm_inv config s" using gm_run_logins [OF assms(1) gm_inv_init] by blast
  have "gateway_task.backed_off (gm_init config)"
    by (rule gateway_task.backed_off_init) (simp_all add: gm_init_def reconnect_def)
  from gateway_task.backed_off_run [OF assms(1) this] have "set (gt_waits s) \<subseteq> {2, 4, 8, 16, 32, 60}"
    by (simp add: gateway_task.backed_off_def ladder_def)
  moreover have "\<exists>s'. gm_step ser config GmShutdown s = Some s' \<and> gt_phase s' = Finished" if "gt_phase s \<noteq> Building"
    using that assms(2) by (cases "gt_phase s") (simp_all add: gm_step_def)
  moreover have "\<exists>s'. run_machine (gm_step ser config) [GmBuilt te, GmShutdown] s = Some s' \<and> gt_phase s' = Finished"
    if "gt_phase s = Building" for te
    using that inv by (auto simp: gm_step_def gm_inv_def split: result.splits)
  ultimately show ?thesis by blast
qed

theorem gateway_task_stops_witness:
  "\<exists>s'. gm_step (\<lambda>j. Ok []) demo_gmqtt (GmShutdown :: nat gm_event) (gm_init demo_gmqtt) = Some s' \<and> gt_phase s' = Finished"
proof -
  have r: "run_machine (gm_step (\<lambda>j. Ok []) demo_gmqtt) ([] :: nat gm_event list) (gm_init demo_gmqtt) = Some (gm_init demo_gmqtt)"
    by simp
  show ?thesis using gateway_task_stops [OF r] by (simp add: gm_init_def reconnect_def)
qed

text \<open>
  The options for the gateway's broker, when they can be built, name the broker, device and
  credentials of the login response and always carry the password credentials; the link is
  encrypted unless TLS was switched off, trusting only the pinned CA when one is configured.
\<close>

theorem gateway_link_options:
  assumes "build_mqtt_opts te (client_cfg config creds) = Ok opts"
  shows "mo_host opts = bk_host (lr_broker creds) \<and> mo_port opts = bk_port (lr_broker creds) \<and>
    mo_client_id opts = lr_device_id creds \<and>
    mo_credentials opts = Some (lr_mqtt_username creds, lr_mqtt_password creds) \<and>
    (mo_transport opts = Tcp \<longleftrightarrow> \<not> gc_broker_tls config) \<and>
    (gc_broker_tls config \<longrightarrow> (\<exists>roots. mo_transport opts = TlsServerAuth roots \<and>
       (gc_broker_cafile config = None \<longleftrightarrow> roots = WebpkiRoots)))"
  using assms
  by (auto simp: build_mqtt_opts_def build_server_tls_def client_cfg_def Let_def split: result.splits option.splits if_splits)

theorem gateway_link_options_witness:
  "\<exists>opts. build_mqtt_opts (le_tls (demo_login 200)) (client_cfg demo_gmqtt
      \<lparr>lr_protocol_version = ''1'', lr_device_id = ''d'', lr_mqtt_username = ''u'',
        lr_mqtt_password = ''p'', lr_broker = \<lparr>bk_host = ''b'', bk_port = 8883\<rparr>,
        lr_topics = \<lparr>dt_cmds = ''c'', dt_connect = ''k'', dt_notify = ''n''\<rparr>\<rparr>) = Ok opts \<and>
     mo_transport opts \<noteq> Tcp"
proof -
  let ?r = "\<lparr>lr_protocol_version = ''1'', lr_device_id = ''d'', lr_mqtt_username = ''u'',
        lr_mqtt_password = ''p'', lr_broker = \<lparr>bk_host = ''b'', bk_port = 8883\<rparr>,
        lr_topics = \<lparr>dt_cmds = ''c'', dt_connect = ''k'', dt_notify = ''n''\<rparr>\<rparr>"
  obtain opts where o: "build_mqtt_opts (le_tls (demo_login 200)) (client_cfg demo_gmqtt ?r) = Ok opts"
    by (simp add: build_mqtt_opts_def client_cfg_def demo_gmqtt_def build_server_tls_def Let_def)
  with gateway_link_options [OF o] show ?thesis by (auto simp: demo_gmqtt_def)
qed

end
