(* ===== verification/Services.thy ===== *)
theory Services
  imports Gateway_Http Cloud_Gateway Gateway_Mqtt
begin

section \<open>The managed services together (\<open>src/services/mod.rs\<close>, \<open>src/supervisor.rs\<close>)\<close>

text \<open>
  The trait objects in the supervisor's map are the five services: the sum type \<open>service\<close>, with
  the dispatch of each trait method to the implementation. The contracts proved for the five
  implementations give the contract of the sum, on which the properties of a supervisor run rest.
\<close>

datatype service =
    SGateway gateway_service
  | SMosquitto "ip_addr mosquitto_service"
  | SMqttClient mqtt_client_service
  | SCloudGateway cloud_gateway_service
  | SGatewayMqtt gateway_mqtt_service

record ('kp, 'cert, 'csr, 'der, 'key, 'cfg, 'root) service_env =
  en_gateway :: "('kp, 'cert, 'csr, 'der, 'key, 'cfg) gateway_env"
  en_mosquitto :: mosquitto_env
  en_client :: "'root client_env"
  en_chan :: chan

definition service_start ::
  "('kp, 'cert, 'csr, 'der, 'key, 'cfg, 'root) service_env \<Rightarrow> service \<Rightarrow> 32 word res \<times> service" where
  "service_start e s =
     (case s of
        SGateway g \<Rightarrow> map_prod id SGateway (gateway_start (en_gateway e) g)
      | SMosquitto m \<Rightarrow> map_prod id SMosquitto (mosquitto_start (en_mosquitto e) m)
      | SMqttClient c \<Rightarrow> map_prod id SMqttClient (mqtt_client_start (en_client e) c)
      | SCloudGateway c \<Rightarrow> map_prod id SCloudGateway (cloud_gateway_start (en_chan e) c)
      | SGatewayMqtt c \<Rightarrow> map_prod id SGatewayMqtt (gateway_mqtt_start (en_chan e) c))"

definition service_stop ::
  "('kp, 'cert, 'csr, 'der, 'key, 'cfg, 'root) service_env \<Rightarrow> service \<Rightarrow> unit res \<times> service" where
  "service_stop e s =
     (case s of
        SGateway g \<Rightarrow> map_prod id SGateway (gateway_stop (en_gateway e) g)
      | SMosquitto m \<Rightarrow> map_prod id SMosquitto (mosquitto_stop (en_mosquitto e) m)
      | SMqttClient c \<Rightarrow> map_prod id SMqttClient (mqtt_client_stop (en_client e) c)
      | SCloudGateway c \<Rightarrow> map_prod id SCloudGateway (cloud_gateway_stop (en_chan e) c)
      | SGatewayMqtt c \<Rightarrow> map_prod id SGatewayMqtt (gateway_mqtt_stop (en_chan e) c))"

definition service_is_running ::
  "('kp, 'cert, 'csr, 'der, 'key, 'cfg, 'root) service_env \<Rightarrow> service \<Rightarrow> bool \<times> service" where
  "service_is_running e s =
     (case s of
        SGateway g \<Rightarrow> map_prod id SGateway (gateway_is_running (en_gateway e) g)
      | SMosquitto m \<Rightarrow> map_prod id SMosquitto (mosquitto_is_running (en_mosquitto e) m)
      | SMqttClient c \<Rightarrow> map_prod id SMqttClient (mqtt_client_is_running (en_client e) c)
      | SCloudGateway c \<Rightarrow> map_prod id SCloudGateway (cloud_gateway_is_running (en_chan e) c)
      | SGatewayMqtt c \<Rightarrow> map_prod id SGatewayMqtt (gateway_mqtt_is_running (en_chan e) c))"

definition services_vt ::
  "(('kp, 'cert, 'csr, 'der, 'key, 'cfg, 'root) service_env, service) managed_service" where
  "services_vt = \<lparr>svc_start = service_start, svc_stop = service_stop, svc_is_running = service_is_running\<rparr>"

fun service_up :: "service \<Rightarrow> bool" where
  "service_up (SGateway g) = gateway_up g"
| "service_up (SMosquitto m) = mosquitto_up m"
| "service_up (SMqttClient c) = client_up c"
| "service_up (SCloudGateway c) = cloud_up c"
| "service_up (SGatewayMqtt c) = gmqtt_up c"

fun service_ok :: "service \<Rightarrow> bool" where
  "service_ok (SCloudGateway c) = cloud_ok c"
| "service_ok (SGatewayMqtt c) = gmqtt_ok c"
| "service_ok _ = True"

text \<open>The three clients, whose channel ends are handed over at the first start.\<close>

fun is_client :: "service \<Rightarrow> bool" where
  "is_client (SMqttClient c) = True"
| "is_client (SCloudGateway c) = True"
| "is_client (SGatewayMqtt c) = True"
| "is_client _ = False"

fun service_spent :: "service \<Rightarrow> bool" where
  "service_spent (SMqttClient c) = client_spent c"
| "service_spent (SCloudGateway c) = cloud_spent c"
| "service_spent (SGatewayMqtt c) = gmqtt_spent c"
| "service_spent _ = False"

lemmas services_defs = services_vt_def service_start_def service_stop_def

text \<open>
  The laws of the sum, one implementation at a time: an implementation that obeys the contract,
  wrapped in its constructor, still does.
\<close>

lemma wrap_result:
  "map_prod id C p = (r, s') \<longleftrightarrow> (\<exists>c. p = (r, c) \<and> s' = C c)"
  by (cases p) auto

lemma service_start_ok:
  assumes "service_start e s = (Ok pid, s')"
  shows "service_up s'"
  using assms
  by (cases s)
    (auto simp: service_start_def wrap_result gateway_svc_defs mosquitto_svc_defs client_svc_defs cloud_svc_defs
      gmqtt_svc_defs Let_def split: option.splits result.splits if_splits)

lemma service_start_up:
  assumes "service_ok s" and "service_up s"
  shows "\<exists>er. service_start e s = (Err er, s)"
  using assms
  by (cases s)
    (auto simp: service_start_def gateway_svc_defs mosquitto_svc_defs client_svc_defs cloud_svc_defs gmqtt_svc_defs)

lemma service_stop_cases:
  assumes "service_ok s"
  shows "service_up s \<Longrightarrow> \<exists>s'. service_stop e s = (Ok (), s')"
    and "service_stop e s = (Ok (), s') \<Longrightarrow> \<not> service_up s'"
    and "service_stop e s = (Err er, s') \<Longrightarrow> s' = s"
    and "service_ok (snd (service_stop e s))"
  using assms
  by (cases s;
      auto simp: service_stop_def gateway_svc_defs mosquitto_svc_defs client_svc_defs cloud_svc_defs gmqtt_svc_defs
        split: option.splits)+

lemma service_start_keeps_ok: "service_ok s \<Longrightarrow> service_ok (snd (service_start e s))"
  using cloud.ok_start gateway_mqtt.ok_start
  by (cases s) (auto simp: service_start_def cloud_gateway_vt_def gateway_mqtt_vt_def)

interpretation all_services: one_shot services_vt service_up service_ok service_spent is_client
proof unfold_locales
  fix s s' :: service and e pid er
  show "service_ok s \<Longrightarrow> svc_start services_vt e s = (Ok pid, s') \<Longrightarrow> service_up s'"
    by (simp add: services_vt_def service_start_ok)
  show "service_ok s \<Longrightarrow> service_up s \<Longrightarrow> \<exists>er. svc_start services_vt e s = (Err er, s)"
    by (simp add: services_vt_def service_start_up)
  show "service_ok s \<Longrightarrow> service_up s \<Longrightarrow> \<exists>s'. svc_stop services_vt e s = (Ok (), s')"
    by (simp add: services_vt_def service_stop_cases(1))
  show "service_ok s \<Longrightarrow> svc_stop services_vt e s = (Ok (), s') \<Longrightarrow> \<not> service_up s'"
    using service_stop_cases(2) [of s e s'] by (simp add: services_vt_def)
  show "service_ok s \<Longrightarrow> svc_stop services_vt e s = (Err er, s') \<Longrightarrow> s' = s"
    using service_stop_cases(3) [of s e er s'] by (simp add: services_vt_def)
  show "service_ok s \<Longrightarrow> service_ok (snd (svc_start services_vt e s))"
    by (simp add: services_vt_def service_start_keeps_ok)
  show "service_ok s \<Longrightarrow> service_ok (snd (svc_stop services_vt e s))"
    by (simp add: services_vt_def service_stop_cases(4))
  show "service_ok s \<Longrightarrow> is_client s \<Longrightarrow> svc_start services_vt e s = (Ok pid, s') \<Longrightarrow> service_spent s'"
    by (cases s) (auto simp: services_defs wrap_result client_svc_defs cloud_svc_defs gmqtt_svc_defs Let_def
        split: option.splits result.splits if_splits)
  show "service_ok s \<Longrightarrow> service_spent s \<Longrightarrow> \<exists>er. fst (svc_start services_vt e s) = Err er"
    by (cases s) (auto simp: services_defs client_svc_defs cloud_svc_defs gmqtt_svc_defs)
  show "service_ok s \<Longrightarrow> service_spent s \<Longrightarrow> service_spent (snd (svc_start services_vt e s))"
    by (cases s) (auto simp: services_defs client_svc_defs cloud_svc_defs gmqtt_svc_defs)
  show "service_ok s \<Longrightarrow> service_spent s \<Longrightarrow> service_spent (snd (svc_stop services_vt e s))"
    by (cases s) (auto simp: services_defs client_svc_defs cloud_svc_defs gmqtt_svc_defs split: option.splits)
qed

subsection \<open>Supervisors as the application assembles them\<close>

inductive assembled :: "service supervisor \<Rightarrow> bool" where
  empty: "assembled supervisor_new"
| more: "assembled sv \<Longrightarrow> service_ok s \<Longrightarrow> \<not> service_up s \<Longrightarrow> assembled (register sid s available sv)"

lemma assembled_agrees: "assembled sv \<Longrightarrow> all_services.sup_agrees sv"
proof (induction rule: assembled.induct)
  case empty
  then show ?case by (simp add: all_services.sup_agrees_def sup_wf_new) (simp add: supervisor_new_def)
next
  case more
  then show ?case by (simp add: all_services.sup_agrees_register)
qed

lemma agrees_statuses:
  assumes "all_services.sup_agrees sv"
  shows "dom (services sv) = dom (statuses sv)" "statuses sv sid \<noteq> Some Starting"
    "statuses sv sid = Some (Running p) \<Longrightarrow> \<exists>s. services sv sid = Some s \<and> service_up s"
    "statuses sv sid = Some Stopped \<Longrightarrow> \<exists>s. services sv sid = Some s \<and> \<not> service_up s"
proof -
  have wf: "sup_wf sv" using assms by (simp add: all_services.sup_agrees_def)
  then show "dom (services sv) = dom (statuses sv)" "statuses sv sid \<noteq> Some Starting"
    by (auto simp: sup_wf_def ran_def)
  have "\<exists>s. services sv sid = Some s \<and> all_services.svc_agrees s st" if st: "statuses sv sid = Some st" for st
  proof -
    obtain s where s: "services sv sid = Some s" using sup_wf_registered [OF wf st] by blast
    moreover have "all_services.svc_agrees s st"
      using assms s st by (simp add: all_services.sup_agrees_def)
    ultimately show ?thesis by blast
  qed
  then show "statuses sv sid = Some (Running p) \<Longrightarrow> \<exists>s. services sv sid = Some s \<and> service_up s"
    and "statuses sv sid = Some Stopped \<Longrightarrow> \<exists>s. services sv sid = Some s \<and> \<not> service_up s"
    by (auto simp: all_services.svc_agrees_def)
qed

subsection \<open>Properties of a supervisor run\<close>

text \<open>
  Whatever commands arrive and however the services fail, the statuses the supervisor
  reports are true of the services it holds: a service reported running holds a live task or
  process handle, one reported stopped does not, none is stuck in \<open>Starting\<close>, and exactly the
  registered services have a status.
\<close>

theorem supervisor_statuses_true:
  assumes "assembled sv" and "sv' = snd (supervisor_loop services_vt cmds sv)"
  shows "dom (services sv') = dom (statuses sv') \<and> statuses sv' sid \<noteq> Some Starting \<and>
    (\<forall>p. statuses sv' sid = Some (Running p) \<longrightarrow> (\<exists>s. services sv' sid = Some s \<and> service_up s)) \<and>
    (statuses sv' sid = Some Stopped \<longrightarrow> (\<exists>s. services sv' sid = Some s \<and> \<not> service_up s))"
proof -
  have "all_services.sup_agrees sv'"
    unfolding assms(2) by (rule all_services.sup_agrees_loop) (rule assembled_agrees [OF assms(1)])
  from agrees_statuses [OF this] show ?thesis by blast
qed

definition demo_broker :: "ip_addr mosquitto_service" where
  "demo_broker = mosquitto_new ''/usr/bin/mosquitto'' None demo_cfg"

definition demo_client :: mqtt_client_service where
  "demo_client = mqtt_client_new (mqtt_client_from_env Map.empty ''/c'') 1 2 3"

definition demo_supervisor :: "service supervisor" where
  "demo_supervisor = register Mosquitto (SMosquitto demo_broker) True
     (register MqttClient (SMqttClient demo_client) True supervisor_new)"

definition demo_senv :: "(nat, nat \<times> nat, string, nat, nat, unit, nat) service_env" where
  "demo_senv = \<lparr>en_gateway = demo_genv,
     en_mosquitto = \<lparr>me_exists = (\<lambda>p. True), me_spawn = (\<lambda>b a. Ok (Some 77)), me_try_wait = StillRunning\<rparr>,
     en_client = \<lparr>ce_tls = \<lparr>te_read = (\<lambda>f. Ok []), te_pem_certs = (\<lambda>b. []), te_add = (\<lambda>c. Ok ())\<rparr>,
        ce_shutdown = 5, ce_cmd_shutdown = 6\<rparr>, en_chan = 9\<rparr>"

lemma demo_assembled: "assembled demo_supervisor"
  unfolding demo_supervisor_def demo_broker_def demo_client_def
  by (intro assembled.intros)
    (simp_all add: mosquitto_up_def mosquitto_new_def client_up_def mqtt_client_new_def)

lemma demo_broker_start:
  "handle_start services_vt demo_senv Mosquitto demo_supervisor =
     (Ok (), demo_supervisor\<lparr>services := (services demo_supervisor)(Mosquitto \<mapsto> SMosquitto (demo_broker\<lparr>mq_child := Some 77\<rparr>)),
        statuses := (statuses demo_supervisor)(Mosquitto \<mapsto> Running 77)\<rparr>)"
  by (simp add: handle_start_def demo_supervisor_def register_def services_defs mosquitto_start_def demo_senv_def
      demo_broker_def mosquitto_new_def Let_def)

theorem supervisor_statuses_true_witness:
  "statuses (snd (supervisor_loop services_vt [((demo_senv, demo_senv), Start Mosquitto)] demo_supervisor)) Mosquitto =
     Some (Running 77) \<and>
   (\<exists>s. services (snd (supervisor_loop services_vt [((demo_senv, demo_senv), Start Mosquitto)] demo_supervisor)) Mosquitto =
     Some s \<and> service_up s)"
proof -
  have "statuses (snd (supervisor_loop services_vt [((demo_senv, demo_senv), Start Mosquitto)] demo_supervisor)) Mosquitto =
     Some (Running 77)"
    by (simp add: supervisor_loop_Cons_snd handle_command_snd demo_broker_start del: supervisor_loop.simps(2))
  with supervisor_statuses_true [OF demo_assembled refl, of "[((demo_senv, demo_senv), Start Mosquitto)]" Mosquitto]
  show ?thesis by blast
qed

text \<open>
  Services do not interfere: commands that do not name a service leave its state and its
  status exactly as they were, whatever they do to the others.
\<close>

theorem supervisor_isolation:
  assumes "\<forall>c\<in>set cmds. target (snd c) \<noteq> Some sid"
  shows "services (snd (supervisor_loop services_vt cmds sv)) sid = services sv sid \<and>
    statuses (snd (supervisor_loop services_vt cmds sv)) sid = statuses sv sid"
proof -
  have "view sid (snd (supervisor_loop services_vt cmds sv)) = view sid sv"
    by (rule supervisor_loop_induct) (use assms in \<open>force simp: view_handle_command\<close>)+
  then show ?thesis by (simp add: view_def)
qed

theorem supervisor_isolation_witness:
  "statuses (snd (supervisor_loop services_vt [((demo_senv, demo_senv), Start Mosquitto)] demo_supervisor)) MqttClient =
     Some Stopped"
  using supervisor_isolation [of "[((demo_senv, demo_senv), Start Mosquitto)]" MqttClient demo_supervisor]
  by (simp add: demo_supervisor_def register_def Let_def)

text \<open>
  A service registered as unavailable stays so for the whole life of the supervisor, is
  never started or stopped, and every attempt to start it is answered with an error.
\<close>

theorem unavailable_is_permanent:
  assumes "assembled sv" and "statuses sv sid = Some Unavailable"
    and "sv' = snd (supervisor_loop services_vt cmds sv)"
  shows "statuses sv' sid = Some Unavailable \<and> services sv' sid = services sv sid \<and>
    handle_start services_vt e sid sv' = (Err (debug_service_id sid @ '' is not installed on this system''), sv')"
proof -
  have wf: "sup_wf sv" using assembled_agrees [OF assms(1)] by (simp add: all_services.sup_agrees_def)
  from unavailable_loop [OF wf assms(2), of services_vt cmds] have "view sid sv' = view sid sv"
    unfolding assms(3) ..
  with assms(2) show ?thesis by (simp add: view_def handle_start_def)
qed

theorem unavailable_is_permanent_witness:
  "fst (handle_start services_vt demo_senv Mosquitto (snd (supervisor_loop services_vt
      [((demo_senv, demo_senv), Restart Mosquitto)] (register Mosquitto (SMosquitto demo_broker) False supervisor_new)))) =
     Err ''Mosquitto is not installed on this system''"
proof -
  have a: "assembled (register Mosquitto (SMosquitto demo_broker) False supervisor_new)"
    by (intro assembled.intros) (simp_all add: demo_broker_def mosquitto_up_def mosquitto_new_def)
  show ?thesis
    using unavailable_is_permanent [OF a _ refl, of Mosquitto "[((demo_senv, demo_senv), Restart Mosquitto)]" demo_senv]
    by (simp add: register_def Let_def)
qed

text \<open>
  When the last handle is dropped, the supervisor leaves no service up, in whatever order
  it visits its map: every live task has been signalled and the broker process stopped.
\<close>

theorem shutdown_leaves_none_up:
  assumes "assembled sv" and "spawn services_vt cmds order sv = (replies, sv')"
    and "dom (services sv) \<subseteq> fst ` set order" and "services sv' sid = Some s"
  shows "\<not> service_up s"
proof -
  define sv1 where "sv1 = snd (supervisor_loop services_vt cmds sv)"
  have sv': "sv' = shutdown_services services_vt order sv1"
    using assms(2) by (auto simp: spawn_def sv1_def split: prod.splits)
  have ag: "all_services.sup_agrees sv1"
    unfolding sv1_def by (rule all_services.sup_agrees_loop) (rule assembled_agrees [OF assms(1)])
  have wf: "sup_wf sv" using assembled_agrees [OF assms(1)] by (simp add: all_services.sup_agrees_def)
  have "dom (services sv1) = dom (services sv)"
    unfolding sv1_def by (rule supervisor_loop_dom [OF wf])
  then have "service_ok t \<and> (i \<in> fst ` set order \<or> \<not> service_up t)" if "services sv1 i = Some t" for i t
    using that assms(3) all_services.sup_agrees_ok [OF ag that] by blast
  from all_services.shutdown_down [OF this assms(4) [unfolded sv']] show ?thesis by simp
qed

theorem shutdown_leaves_none_up_witness:
  "services (snd (spawn services_vt [((demo_senv, demo_senv), Start Mosquitto)]
       [(Mosquitto, demo_senv), (MqttClient, demo_senv)] demo_supervisor)) Mosquitto =
     Some (SMosquitto demo_broker) \<and> \<not> service_up (SMosquitto demo_broker)"
proof -
  have l: "supervisor_loop services_vt [((demo_senv, demo_senv), Start Mosquitto)] demo_supervisor =
      ([Done (Ok ())], demo_supervisor\<lparr>services := (services demo_supervisor)(Mosquitto \<mapsto> SMosquitto (demo_broker\<lparr>mq_child := Some 77\<rparr>)),
        statuses := (statuses demo_supervisor)(Mosquitto \<mapsto> Running 77)\<rparr>)"
    by (simp add: handle_command.simps demo_broker_start)
  have s: "services (snd (spawn services_vt [((demo_senv, demo_senv), Start Mosquitto)]
       [(Mosquitto, demo_senv), (MqttClient, demo_senv)] demo_supervisor)) Mosquitto = Some (SMosquitto demo_broker)"
    unfolding spawn_def l
    by (simp add: services_defs mosquitto_stop_def demo_supervisor_def register_def demo_broker_def
        mosquitto_new_def Let_def)
  have d: "dom (services demo_supervisor) \<subseteq> fst ` set [(Mosquitto, demo_senv), (MqttClient, demo_senv)]"
    by (auto simp: demo_supervisor_def register_def supervisor_new_def Let_def split: if_splits)
  from shutdown_leaves_none_up [OF demo_assembled prod.collapse [symmetric] d s] s show ?thesis by simp
qed

text \<open>
  C21: The MQTT client and the two gateway clients can be started once: after a successful start,
  whatever commands follow, every further start and every restart fails, because the channel
  ends handed to the first task are not given back by a stop.
\<close>

theorem clients_never_restart:
  fixes e e' e'' :: "('kp, 'cert, 'csr, 'der, 'key, 'cfg, 'root) service_env"
    and cmds cmds' :: "((('kp, 'cert, 'csr, 'der, 'key, 'cfg, 'root) service_env \<times> _) \<times> supervisor_command) list"
  assumes "assembled sv0" and "sv = snd (supervisor_loop services_vt cmds sv0)"
    and "services sv sid = Some s" and "is_client s"
    and "handle_start services_vt e sid sv = (Ok (), sv1)"
    and "sv2 = snd (supervisor_loop services_vt cmds' sv1)"
  shows "(\<exists>er. fst (handle_start services_vt e' sid sv2) = Err er) \<and>
    (\<exists>er. fst (handle_restart services_vt e' e'' sid sv2) = Err er)"
proof -
  have "all_services.sup_agrees sv"
    unfolding assms(2) by (rule all_services.sup_agrees_loop) (rule assembled_agrees [OF assms(1)])
  from all_services.never_again [OF this assms(5,3,4,6)] show ?thesis by blast
qed

lemma demo_client_start:
  "\<exists>sv1. handle_start services_vt demo_senv MqttClient demo_supervisor = (Ok (), sv1)"
proof -
  have "mc_tls_mode (mqtt_client_from_env Map.empty ''/c'') = TlsNone"
    by (simp add: mqtt_client_from_env_def env_or_def Let_def flag_true_def eq_ignore_ascii_case_def
        trim_def trim_end_by_def is_whitespace_def chr_code_def ascii_lower_def)
  then have "\<exists>c. mqtt_client_start (en_client demo_senv) demo_client = (Ok 0, c)"
    by (simp add: mqtt_client_start_def take_channels_def demo_client_def mqtt_client_new_def build_mqtt_opts_def Let_def)
  then show ?thesis
    by (auto simp: handle_start_def demo_supervisor_def register_def services_defs Let_def)
qed

theorem clients_never_restart_witness:
  "\<exists>sv1. handle_start services_vt demo_senv MqttClient demo_supervisor = (Ok (), sv1) \<and>
     (\<exists>er. fst (handle_start services_vt demo_senv MqttClient
        (snd (supervisor_loop services_vt [((demo_senv, demo_senv), Stop MqttClient)] sv1))) = Err er)"
proof -
  obtain sv1 where h: "handle_start services_vt demo_senv MqttClient demo_supervisor = (Ok (), sv1)"
    using demo_client_start by blast
  have s: "services demo_supervisor MqttClient = Some (SMqttClient demo_client)" "is_client (SMqttClient demo_client)"
    by (simp_all add: demo_supervisor_def register_def Let_def)
  have l: "demo_supervisor = snd (supervisor_loop services_vt
      ([] :: (((nat, nat \<times> nat, string, nat, nat, unit, nat) service_env \<times> _) \<times> _) list) demo_supervisor)" by simp
  from h clients_never_restart [OF demo_assembled l s h refl] show ?thesis by blast
qed

text \<open>
  Restarting a running service first stops it, always successfully, and is then the start
  of a stopped service: the broker and the HTTP gateway come back whenever their start succeeds.
\<close>

theorem restart_running_spec:
  assumes "assembled sv0" and "sv = snd (supervisor_loop services_vt cmds sv0)"
    and "statuses sv sid = Some (Running p)"
  shows "\<exists>s s1. services sv sid = Some s \<and> svc_stop services_vt e1 s = (Ok (), s1) \<and> \<not> service_up s1 \<and>
    handle_restart services_vt e1 e2 sid sv =
      (case svc_start services_vt e2 s1 of
         (Ok pid, s2) \<Rightarrow> (Ok (), sv\<lparr>services := (services sv)(sid \<mapsto> s2), statuses := (statuses sv)(sid \<mapsto> Running pid)\<rparr>)
       | (Err er, s2) \<Rightarrow> (Err er, sv\<lparr>services := (services sv)(sid \<mapsto> s2), statuses := (statuses sv)(sid \<mapsto> Failed er)\<rparr>))"
proof -
  have "all_services.sup_agrees sv"
    unfolding assms(2) by (rule all_services.sup_agrees_loop) (rule assembled_agrees [OF assms(1)])
  then show ?thesis
    by (rule all_services.restart_running [OF _ assms(3), of e1 e2])
      (auto simp: handle_start_def Let_def split: prod.split result.split)
qed

theorem restart_running_spec_witness:
  "\<exists>sv1 s s1. handle_start services_vt demo_senv Mosquitto demo_supervisor = (Ok (), sv1) \<and>
     services sv1 Mosquitto = Some s \<and> svc_stop services_vt demo_senv s = (Ok (), s1) \<and> \<not> service_up s1"
proof -
  let ?sv1 = "snd (supervisor_loop services_vt [((demo_senv, demo_senv), Start Mosquitto)] demo_supervisor)"
  have e: "?sv1 = snd (handle_start services_vt demo_senv Mosquitto demo_supervisor)"
    by (simp add: supervisor_loop_Cons_snd handle_command_snd del: supervisor_loop.simps(2))
  then have "statuses ?sv1 Mosquitto = Some (Running 77)" by (simp add: demo_broker_start)
  from restart_running_spec [OF demo_assembled refl this, of demo_senv demo_senv] e show ?thesis
    by (auto simp: demo_broker_start)
qed

text \<open>
  The supervisor never asks a service whether it is still running: replacing the
  \<open>is_running\<close> methods by any others changes no reply and no state, so a broker process that
  has exited on its own stays reported as running.
\<close>

theorem supervisor_never_polls:
  "spawn (services_vt\<lparr>svc_is_running := f\<rparr>) cmds order sv = spawn services_vt cmds order sv"
proof -
  let ?vt = "services_vt\<lparr>svc_is_running := f\<rparr>"
  have v: "svc_start ?vt = svc_start services_vt" "svc_stop ?vt = svc_stop services_vt" by simp_all
  have h: "handle_start ?vt = handle_start services_vt" "handle_stop ?vt = handle_stop services_vt"
    by (intro ext; unfold handle_start_def handle_stop_def v; rule refl)+
  have r: "handle_restart ?vt = handle_restart services_vt"
    by (intro ext; unfold handle_restart_def h; rule refl)
  have c: "handle_command ?vt e cmd s = handle_command services_vt e cmd s" for e cmd s
    by (cases e; cases cmd) (simp_all add: handle_command.simps h r)
  have l: "supervisor_loop ?vt cmds s = supervisor_loop services_vt cmds s" for s
    by (induction cmds arbitrary: s) (auto simp: c split: prod.split)
  have "shutdown_services ?vt order s = shutdown_services services_vt order s" for s
    by (induction order arbitrary: s) (auto split: option.split)
  with l show ?thesis by (simp add: spawn_def)
qed

end
