(* ===== verification/Beacon_Loop.thy ===== *)
theory Beacon_Loop
  imports Key_Management Services
begin

section \<open>The two loops of the application (\<open>src/app.rs\<close>)\<close>

text \<open>
  \<open>run_broadcast_loop\<close>: one cycle over the key table and the topic list, and the waits of a
  cycle. \<open>run_beacon_message_loop\<close>: one step per branch of its \<open>select!\<close>, on the registry and the
  list of gateway connections opened so far. JSON parsing, the lossy conversion of bytes and
  the outcomes of MQTT calls are arguments.
\<close>

subsection \<open>The broadcast loop\<close>

record broadcast_state =
  bs_server_url :: string
  bs_use_jitter :: bool
  bs_broadcast_interval :: "16 word"
  bs_key_management :: key_management

text \<open>
  The clock readings, random bytes and faults of one cycle, and the outcome of each publish.
\<close>

record cycle_env =
  cy_now_key :: int
  cy_rotate :: rotate_env
  cy_now_sweep :: int
  cy_sweep_faults :: key_faults
  cy_now_token :: int
  cy_hmac :: "byte list \<Rightarrow> byte list \<Rightarrow> byte list"
  cy_publish :: "string \<Rightarrow> qos \<Rightarrow> string \<Rightarrow> unit res"

definition broadcast_payload :: "string \<Rightarrow> string \<times> string \<Rightarrow> json" where
  "broadcast_payload server_url f =
     JObj [(''url'', JStr server_url), (''kid'', JStr (fst f)), (''tok'', JStr (snd f))]"

text \<open>
  One cycle: the calls to \<open>publish\<close> in order with their outcomes, and the key table afterwards.
  A failed sweep is only logged; a failed publish does not stop the others.
\<close>

definition broadcast_cycle ::
  "(json \<Rightarrow> string) \<Rightarrow> broadcast_state \<Rightarrow> cycle_env \<Rightarrow> string list \<Rightarrow> key_table \<Rightarrow>
     (string \<times> qos \<times> string \<times> unit res) list \<times> key_table" where
  "broadcast_cycle render st env topics t =
     (case get_or_rotate_key (bs_key_management st) (cy_now_key env) (cy_rotate env) t of
        (Err e, t1) \<Rightarrow> ([], t1)
      | (Ok key, t1) \<Rightarrow>
          (let t2 = snd (sweep_expired (cy_now_sweep env) (cy_sweep_faults env) t1);
               fields = ota_fields (cy_hmac env) (bs_key_management st) (cy_now_token env) key;
               payload_str = render (broadcast_payload (bs_server_url st) fields)
           in (map (\<lambda>topic. (topic, AtLeastOnce, payload_str, cy_publish env topic AtLeastOnce payload_str)) topics, t2)))"

definition jitter_secs :: "64 word \<Rightarrow> 64 word" where
  "jitter_secs r = r mod 10 + 1"

text \<open>
  Seconds spent waiting inside a cycle that takes \<open>work\<close> seconds of publishing besides, with one
  random number per topic: the jitter sleeps, then what remains of the base interval.
\<close>

definition cycle_waits :: "broadcast_state \<Rightarrow> nat \<Rightarrow> 64 word list \<Rightarrow> nat" where
  "cycle_waits st work rnds =
     (if bs_use_jitter st
      then let jit = sum_list (map (\<lambda>r. unat (jitter_secs r)) rnds);
               elapsed = jit + work
           in jit + (unat (bs_broadcast_interval st) - elapsed)
      else 0)"

subsection \<open>The message loop\<close>

record dial =
  dl_gateway :: string
  dl_first :: gateway_message
  dl_shutdown :: chan

record beacon_loop =
  bl_registry :: registry
  bl_dials :: "dial list"
  bl_next_chan :: chan

definition beacon_loop_init :: "string option \<Rightarrow> string list \<Rightarrow> beacon_loop" where
  "beacon_loop_init own topics = \<lparr>bl_registry = registry_new own topics, bl_dials = [], bl_next_chan = 0\<rparr>"

record payload_env =
  pv_parse :: "byte list \<Rightarrow> json option"
  pv_lossy :: "byte list \<Rightarrow> string"

definition beacon_payload :: "payload_env \<Rightarrow> byte list \<Rightarrow> json" where
  "beacon_payload pv payload = (case pv_parse pv payload of Some j \<Rightarrow> j | None \<Rightarrow> JStr (pv_lossy pv payload))"

definition advertised_gateway :: "json \<Rightarrow> string option" where
  "advertised_gateway j =
     Option.bind (Option.bind (as_object j) (json_get ''gateway_url'')) as_str"

definition touch :: "nat \<Rightarrow> string \<Rightarrow> registry \<Rightarrow> registry" where
  "touch now topic reg =
     (case strip_suffix topic ''/rec'' of Some bid \<Rightarrow> update_last_seen now bid reg | None \<Rightarrow> reg)"

text \<open>
  A gateway seen for the first time: it is recorded as known, dialled with a fresh shutdown
  channel, the beacon's payload is queued on the connection, and the channel's sender is kept on
  the beacon's record, or dropped when there is none.
\<close>

definition open_gateway :: "string \<Rightarrow> string \<Rightarrow> string \<Rightarrow> json \<Rightarrow> beacon_loop \<Rightarrow> beacon_loop" where
  "open_gateway server_url topic gw_url payload s =
     (let reg1 = insert_gateway gw_url (bl_registry s);
          c = bl_next_chan s;
          reg2 = (case strip_suffix topic ''/rec'' of
                    Some bid \<Rightarrow> associate_gateway bid gw_url c reg1
                  | None \<Rightarrow> reg1)
      in s\<lparr>bl_registry := reg2,
           bl_dials := bl_dials s @ [\<lparr>dl_gateway = gw_url, dl_first = BeaconRegistration server_url payload, dl_shutdown = c\<rparr>],
           bl_next_chan := Suc c\<rparr>)"

definition beacon_message :: "payload_env \<Rightarrow> string \<Rightarrow> nat \<Rightarrow> mqtt_message \<Rightarrow> beacon_loop \<Rightarrow> beacon_loop" where
  "beacon_message pv server_url now msg s =
     (let s1 = s\<lparr>bl_registry := touch now (mm_topic msg) (bl_registry s)\<rparr>;
          payload = beacon_payload pv (mm_payload msg)
      in case advertised_gateway payload of
           None \<Rightarrow> s1
         | Some gw_url \<Rightarrow>
             if is_gateway_known gw_url (bl_registry s1) then s1
             else open_gateway server_url (mm_topic msg) gw_url payload s1)"

datatype loop_input =
    NewChannel "string \<Rightarrow> qos \<Rightarrow> unit res" nat topic_channel
  | TimeoutSweep "string list" nat "nat option"
  | Inbound nat mqtt_message

fun beacon_step :: "payload_env \<Rightarrow> string \<Rightarrow> loop_input \<Rightarrow> beacon_loop \<Rightarrow> beacon_loop" where
  "beacon_step pv server_url (NewChannel subscribe now channel) s =
     s\<lparr>bl_registry := register_channel subscribe now channel (bl_registry s)\<rparr>"
| "beacon_step pv server_url (TimeoutSweep order now budget) s =
     s\<lparr>bl_registry := check_timeouts order now budget (bl_registry s)\<rparr>"
| "beacon_step pv server_url (Inbound now msg) s = beacon_message pv server_url now msg s"

text \<open>The loop: its inputs in the order \<open>select!\<close> took them, until the inbound queue is closed.\<close>

definition run_beacon_message_loop ::
  "payload_env \<Rightarrow> string \<Rightarrow> string option \<Rightarrow> string list \<Rightarrow> loop_input list \<Rightarrow> beacon_loop" where
  "run_beacon_message_loop pv server_url own topics inputs =
     fold (beacon_step pv server_url) inputs (beacon_loop_init own topics)"

subsection \<open>Facts\<close>

lemma known_touch [simp]: "rr_known_gateways (touch now topic reg) = rr_known_gateways reg"
  by (simp add: touch_def update_last_seen_def split: option.splits)

lemma gateway_of_touch [simp]: "gateway_of (touch now topic reg) = gateway_of reg"
  by (simp add: touch_def update_last_seen_def gateway_of_update_other split: option.splits)

lemma gateway_inv_touch [inv_intros]: "gateway_inv own reg \<Longrightarrow> gateway_inv own (touch now topic reg)"
  by (simp add: touch_def gateway_inv_last_seen split: option.splits)

lemma gateway_inv_open:
  assumes "gateway_inv own (bl_registry s)" and "\<not> is_gateway_known u (bl_registry s)"
  shows "gateway_inv own (bl_registry (open_gateway server_url topic u payload s))"
  using gateway_inv_connect [OF assms] by (simp add: open_gateway_def Let_def split: option.split)

lemma gateway_inv_message:
  "gateway_inv own (bl_registry s) \<Longrightarrow> gateway_inv own (bl_registry (beacon_message pv server_url now msg s))"
  by (simp add: beacon_message_def Let_def gateway_inv_open gateway_inv_touch is_gateway_known_def split: option.split)

lemma gateway_inv_step:
  "gateway_inv own (bl_registry s) \<Longrightarrow> gateway_inv own (bl_registry (beacon_step pv server_url i s))"
  by (cases i) (simp_all add: gateway_inv_message gateway_inv_register gateway_inv_check_timeouts)

lemma gateway_inv_run:
  "gateway_inv own (bl_registry s) \<Longrightarrow> gateway_inv own (bl_registry (fold (beacon_step pv server_url) is s))"
  by (induction "is" arbitrary: s) (simp_all add: gateway_inv_step)

lemma gateway_inv_start: "gateway_inv own (bl_registry (beacon_loop_init own topics))"
  by (simp add: beacon_loop_init_def gateway_inv_new)

text \<open>A gateway is orphaned when it is known but on no record.\<close>

definition orphan :: "string \<Rightarrow> registry \<Rightarrow> bool" where
  "orphan u reg \<longleftrightarrow> u \<in> rr_known_gateways reg \<and> (\<forall>r\<in>ran (rr_records reg). br_gateway_url r \<noteq> Some u)"

definition dials_to :: "string \<Rightarrow> beacon_loop \<Rightarrow> dial list" where
  "dials_to u s = filter (\<lambda>d. dl_gateway d = u) (bl_dials s)"

lemma orphan_not_connected: "orphan u reg \<Longrightarrow> \<not> connected reg u"
  by (auto simp: orphan_def connected_def gateway_of_def ran_def split: option.splits if_splits)

lemma orphan_update:
  assumes "orphan u reg" and "\<And>r. br_gateway_url (f r) = br_gateway_url r \<or> br_gateway_url (f r) \<noteq> Some u"
  shows "orphan u (update_record bid f reg)"
  using assms ball_update_record [of reg "\<lambda>r. br_gateway_url r \<noteq> Some u" f bid]
  by (metis known_update_record orphan_def)

lemma orphan_ensure:
  assumes "orphan u reg"
  shows "orphan u (ensure_record bid now reg)"
proof -
  have "ran (rr_records (ensure_record bid now reg)) \<subseteq> insert \<lparr>br_listen_topic = [], br_broadcast_topic = [],
      br_last_seen = now, br_gateway_url = None, br_gateway_shutdown_tx = None\<rparr> (ran (rr_records reg))"
    by (auto simp: ensure_record_def ran_def split: option.splits)
  with assms show ?thesis by (auto simp: orphan_def)
qed

lemma orphan_push: "orphan u reg \<Longrightarrow> orphan u (push_topic t reg)"
  by (simp add: orphan_def push_topic_def)

lemma orphan_register: "orphan u reg \<Longrightarrow> orphan u (register_channel subscribe now c reg)"
  by (auto simp: register_channel_def Let_def split: topic_type.splits result.splits
      intro!: orphan_update orphan_push orphan_ensure)

lemma orphan_touch: "orphan u reg \<Longrightarrow> orphan u (touch now topic reg)"
  by (auto simp: touch_def update_last_seen_def split: option.splits intro!: orphan_update)

lemma orphan_deregister:
  assumes "orphan u reg" and "rr_records reg bid = Some r"
  shows "orphan u (snd (deregister bid r budget reg))"
proof -
  have "br_gateway_url r \<noteq> Some u" using assms by (auto simp: orphan_def ran_def)
  moreover have "ran ((rr_records reg)(bid := None)) \<subseteq> ran (rr_records reg)"
    by (auto simp: ran_def split: if_splits)
  ultimately show ?thesis
    using assms(1) by (auto simp: deregister_def Let_def orphan_def split: option.split)
qed

lemma orphan_deregister_all: "orphan u reg \<Longrightarrow> orphan u (deregister_all bids budget reg)"
proof (induction bids budget reg rule: deregister_all.induct)
  case (2 bid bids budget reg)
  show ?case
  proof (cases "rr_records reg bid")
    case (Some r)
    obtain b reg' where d: "deregister bid r budget reg = (b, reg')" by fastforce
    with orphan_deregister [OF 2(3) Some, of budget] have "orphan u reg'" by simp
    with Some d 2(2) show ?thesis by (cases b) (simp_all add: 2(2))
  qed (use 2 in simp)
qed simp

lemma orphan_associate: "orphan u reg \<Longrightarrow> u \<noteq> v \<Longrightarrow> orphan u (associate_gateway bid v c (insert_gateway v reg))"
proof -
  assume "orphan u reg" "u \<noteq> v"
  then have "orphan u (insert_gateway v reg)" by (simp add: orphan_def insert_gateway_def)
  with \<open>u \<noteq> v\<close> show ?thesis unfolding associate_gateway_def by (auto intro: orphan_update)
qed

lemma orphan_open:
  assumes "orphan u (bl_registry s)" and "u \<noteq> v"
  shows "orphan u (bl_registry (open_gateway server_url topic v payload s)) \<and>
    dials_to u (open_gateway server_url topic v payload s) = dials_to u s"
  using assms orphan_associate [OF assms]
  by (auto simp: open_gateway_def Let_def dials_to_def split: option.split) (simp add: orphan_def insert_gateway_def)

lemma orphan_step:
  assumes "orphan u (bl_registry s)"
  shows "orphan u (bl_registry (beacon_step pv server_url i s)) \<and>
    dials_to u (beacon_step pv server_url i s) = dials_to u s"
proof (cases i)
  case (NewChannel subscribe now c)
  with assms show ?thesis by (simp add: orphan_register dials_to_def)
next
  case (TimeoutSweep order now budget)
  with assms show ?thesis by (simp add: check_timeouts_def orphan_deregister_all dials_to_def)
next
  case (Inbound now msg)
  let ?s1 = "s\<lparr>bl_registry := touch now (mm_topic msg) (bl_registry s)\<rparr>"
  have o: "orphan u (bl_registry ?s1)" using assms by (simp add: orphan_touch)
  then have k: "is_gateway_known u (bl_registry ?s1)" by (simp add: orphan_def is_gateway_known_def)
  have d: "dials_to u ?s1 = dials_to u s" by (simp add: dials_to_def)
  show ?thesis
  proof (cases "advertised_gateway (beacon_payload pv (mm_payload msg))")
    case None
    with Inbound o d show ?thesis by (simp add: beacon_message_def Let_def)
  next
    case (Some v)
    show ?thesis
    proof (cases "is_gateway_known v (bl_registry ?s1)")
      case True
      with Inbound Some o d show ?thesis by (simp add: beacon_message_def Let_def)
    next
      case False
      then have "u \<noteq> v" using k by auto
      with False Inbound Some orphan_open [OF o, of v] d show ?thesis
        by (simp add: beacon_message_def Let_def)
    qed
  qed
qed

lemma orphan_run:
  "orphan u (bl_registry s) \<Longrightarrow>
   orphan u (bl_registry (fold (beacon_step pv server_url) is s)) \<and>
   dials_to u (fold (beacon_step pv server_url) is s) = dials_to u s"
  by (induction "is" arbitrary: s) (use orphan_step in \<open>simp_all\<close>)

text \<open>The own gateway is known from the start and so is never dialled.\<close>

lemma own_step:
  assumes "gateway_inv (Some u) (bl_registry s)"
  shows "dials_to u (beacon_step pv server_url i s) = dials_to u s"
proof -
  have "u \<in> rr_known_gateways (bl_registry s)" using assms by (simp add: gateway_inv_def)
  then show ?thesis
    by (cases i) (auto simp: beacon_message_def open_gateway_def dials_to_def is_gateway_known_def Let_def split: option.splits)
qed

lemma own_run:
  "gateway_inv (Some u) (bl_registry s) \<Longrightarrow> dials_to u (fold (beacon_step pv server_url) is s) = dials_to u s"
  by (induction "is" arbitrary: s) (simp_all add: own_step gateway_inv_step)

lemma not_connected_url:
  assumes "gateway_inv own reg" and "\<not> connected reg u" and "r \<in> ran (rr_records reg)"
  shows "br_gateway_url r \<noteq> Some u"
proof
  assume a: "br_gateway_url r = Some u"
  from assms(3) obtain b where b: "rr_records reg b = Some r" by (auto simp: ran_def)
  have "br_gateway_shutdown_tx r \<noteq> None" using assms(1,3) a by (auto simp: gateway_inv_def)
  with b a have "gateway_of reg b = Some u" by (simp add: gateway_of_def)
  then have "connected reg u" by (simp add: connected_def ranI)
  with assms(2) show False ..
qed

subsection \<open>Properties of the message loop\<close>

text \<open>
  C10: At any time, whatever channels, sweeps (also interrupted ones) and beacon messages came:
  two beacons never keep connections to the same gateway, every connected gateway is known, and
  the Hamlet's own gateway is neither dialled nor connected on behalf of a beacon.
\<close>

theorem one_connection_per_gateway:
  assumes "s = run_beacon_message_loop pv server_url own topics inputs"
  shows "(gateway_of (bl_registry s) a = Some u \<and> gateway_of (bl_registry s) b = Some u \<longrightarrow> a = b) \<and>
    (connected (bl_registry s) u \<longrightarrow> is_gateway_known u (bl_registry s)) \<and>
    (own = Some u \<longrightarrow> \<not> connected (bl_registry s) u \<and> dials_to u s = [])"
proof -
  have inv: "gateway_inv own (bl_registry s)"
    unfolding assms run_beacon_message_loop_def by (rule gateway_inv_run) (rule gateway_inv_start)
  then have "gateway_of (bl_registry s) a = Some u \<and> gateway_of (bl_registry s) b = Some u \<longrightarrow> a = b"
    unfolding gateway_inv_def inj_on_def by (metis domI)
  moreover have "own = Some u \<Longrightarrow> dials_to u s = []"
    using own_run [of u "beacon_loop_init own topics"] gateway_inv_start [of own topics]
    by (simp add: assms run_beacon_message_loop_def) (simp add: dials_to_def beacon_loop_init_def)
  ultimately show ?thesis using inv by (auto simp: gateway_inv_def connected_def is_gateway_known_def)
qed

definition demo_pv :: payload_env where
  "demo_pv = \<lparr>pv_parse = (\<lambda>b. Some (JObj [(''gateway_url'', JStr (if b = [] then ''http://g'' else ''http://own''))])),
     pv_lossy = (\<lambda>b. [])\<rparr>"

definition demo_msg :: "string \<Rightarrow> mqtt_message" where
  "demo_msg topic = \<lparr>mm_topic = topic, mm_payload = []\<rparr>"

theorem one_connection_per_gateway_witness:
  "dials_to ''http://own'' (run_beacon_message_loop demo_pv ''http://me'' (Some ''http://own'') []
     [Inbound 1 \<lparr>mm_topic = ''b/rec'', mm_payload = [1]\<rparr>]) = []"
  using one_connection_per_gateway [OF refl, of demo_pv "''http://me''" "Some ''http://own''" "[]"
      "[Inbound 1 \<lparr>mm_topic = ''b/rec'', mm_payload = [1]\<rparr>]" _ "''http://own''"] by blast

text \<open>
  A message on a topic that is not a beacon's own (such as the subscribed \<open>registration\<close>)
  and advertises a new gateway has the gateway dialled, but nobody keeps the connection's
  shutdown sender, so it ends at once; and as the gateway stays known, whatever comes later it
  is never dialled again and no beacon is ever connected to it.
\<close>

theorem registration_gateway_lost:
  assumes "strip_suffix (mm_topic msg) ''/rec'' = None"
    and "advertised_gateway (beacon_payload pv (mm_payload msg)) = Some u"
    and "\<not> is_gateway_known u (bl_registry s)" and "gateway_inv own (bl_registry s)"
    and "s' = beacon_message pv server_url now msg s"
    and "s'' = fold (beacon_step pv server_url) later s'"
  shows "length (dials_to u s') = Suc (length (dials_to u s)) \<and> dials_to u s'' = dials_to u s' \<and>
    \<not> connected (bl_registry s'') u \<and> is_gateway_known u (bl_registry s'')"
proof -
  have s': "s' = open_gateway server_url (mm_topic msg) u (beacon_payload pv (mm_payload msg)) s"
    using assms(1,2,3,5) by (simp add: beacon_message_def touch_def Let_def)
  have "\<not> connected (bl_registry s) u"
    using assms(3,4) by (auto simp: gateway_inv_def connected_def is_gateway_known_def)
  then have "br_gateway_url r \<noteq> Some u" if "r \<in> ran (rr_records (bl_registry s))" for r
    using not_connected_url [OF assms(4) _ that] by blast
  then have o: "orphan u (bl_registry s')"
    using assms(1) by (simp add: s' open_gateway_def orphan_def insert_gateway_def Let_def)
  from orphan_run [OF o, of pv server_url later] have "orphan u (bl_registry s'')" "dials_to u s'' = dials_to u s'"
    using assms(6) by simp_all
  moreover have "length (dials_to u s') = Suc (length (dials_to u s))"
    by (simp add: s' open_gateway_def dials_to_def Let_def)
  ultimately show ?thesis using orphan_not_connected by (simp add: orphan_def is_gateway_known_def)
qed

theorem registration_gateway_lost_witness:
  "\<not> connected (bl_registry (fold (beacon_step demo_pv ''http://me'') [Inbound 2 (demo_msg ''b/rec'')]
      (beacon_message demo_pv ''http://me'' 1 (demo_msg ''registration'') (beacon_loop_init None [])))) ''http://g''"
proof -
  have 1: "strip_suffix (mm_topic (demo_msg ''registration'')) ''/rec'' = None"
    by (simp add: demo_msg_def strip_suffix_def ends_with_def)
  have 2: "advertised_gateway (beacon_payload demo_pv (mm_payload (demo_msg ''registration''))) = Some ''http://g''"
    by (simp add: demo_msg_def demo_pv_def beacon_payload_def advertised_gateway_def json_get_def)
  have 3: "\<not> is_gateway_known ''http://g'' (bl_registry (beacon_loop_init None []))"
    by (simp add: beacon_loop_init_def registry_new_def is_gateway_known_def)
  show ?thesis using registration_gateway_lost [OF 1 2 3 gateway_inv_start refl refl] by blast
qed

text \<open>
  A gateway whose beacon goes stale can be lost as well: when the sweep is dropped while it
  unsubscribes, the connection is closed with the record, but the gateway stays known, and
  whatever comes later no beacon's advertisement has it dialled again. A sweep that runs to its
  end forgets it.
\<close>

theorem dropped_sweep_loses_gateway:
  assumes "gateway_inv own (bl_registry s)" and "rr_records (bl_registry s) bid = Some r"
    and "is_stale now r" and "br_listen_topic r \<noteq> []" and "br_gateway_url r = Some u"
    and "s' = beacon_step pv server_url (TimeoutSweep (bid # order) now (Some 0)) s"
    and "s'' = fold (beacon_step pv server_url) later s'"
  shows "dials_to u s'' = dials_to u s \<and> \<not> connected (bl_registry s'') u \<and> is_gateway_known u (bl_registry s'') \<and>
    \<not> is_gateway_known u (check_timeouts (bid # order) now None (bl_registry s))"
proof -
  let ?reg = "bl_registry s"
  let ?reg1 = "?reg\<lparr>rr_records := (rr_records ?reg)(bid := None)\<rparr>"
  have inv1: "gateway_inv own ?reg1" using assms(1) by (rule gateway_inv_remove)
  have s': "bl_registry s' = ?reg1"
    using assms(2,3,4,6) by (simp add: check_timeouts_def stale_ids_def deregister_def Let_def)
  have known: "u \<in> rr_known_gateways ?reg"
  proof -
    have "r \<in> ran (rr_records ?reg)" using assms(2) by (rule ranI)
    then have "br_gateway_shutdown_tx r \<noteq> None" using assms(1,5) by (auto simp: gateway_inv_def)
    then have "gateway_of ?reg bid = Some u" using assms(2,5) by (simp add: gateway_of_def)
    then have "u \<in> ran (gateway_of ?reg)" by (rule ranI)
    then show ?thesis using assms(1) by (auto simp: gateway_inv_def)
  qed
  have nc: "\<not> connected ?reg1 u" by (rule removed_not_connected [OF assms(1,2,5)])
  have "br_gateway_url q \<noteq> Some u" if "q \<in> ran (rr_records ?reg1)" for q
    using not_connected_url [OF inv1 nc that] .
  with known have o: "orphan u (bl_registry s')" by (simp add: s' orphan_def)
  from orphan_run [OF o, of pv server_url later] have o'': "orphan u (bl_registry s'')" "dials_to u s'' = dials_to u s'"
    using assms(7) by simp_all
  moreover have "dials_to u s' = dials_to u s" using assms(6) by (simp add: dials_to_def)
  moreover have "u \<in> dead_gateways (set (stale_ids (bid # order) now ?reg)) ?reg"
    using assms(2,3,5) by (auto simp: dead_gateways_def stale_ids_def)
  then have "\<not> is_gateway_known u (check_timeouts (bid # order) now None ?reg)"
    by (simp add: check_timeouts_def deregister_all_without without_def is_gateway_known_def)
  ultimately show ?thesis using orphan_not_connected [OF o''(1)] by (simp add: orphan_def is_gateway_known_def)
qed

lemma two_beacons_inv: "gateway_inv (Some ''http://own'') two_beacons"
proof -
  have "gateway_of two_beacons = [''a'' \<mapsto> ''http://g'']"
    by (auto simp: gateway_of_def two_beacons_def fun_eq_iff)
  then show ?thesis
    by (auto simp: gateway_inv_def connected_def) (auto simp: two_beacons_def ran_def split: if_splits)
qed

theorem dropped_sweep_loses_gateway_witness:
  "\<not> connected (bl_registry (beacon_step demo_pv ''http://me'' (TimeoutSweep [''a'', ''b''] (121 * 10 ^ 9) (Some 0))
      \<lparr>bl_registry = two_beacons, bl_dials = [], bl_next_chan = 8\<rparr>)) ''http://g''"
proof -
  let ?s = "\<lparr>bl_registry = two_beacons, bl_dials = [], bl_next_chan = 8\<rparr>"
  let ?r = "\<lparr>br_listen_topic = ''a/rec'', br_broadcast_topic = ''a/cast'',
       br_last_seen = 0, br_gateway_url = Some ''http://g'', br_gateway_shutdown_tx = Some 7\<rparr>"
  have 1: "gateway_inv (Some ''http://own'') (bl_registry ?s)" by (simp add: two_beacons_inv)
  have 2: "rr_records (bl_registry ?s) ''a'' = Some ?r" by (simp add: two_beacons_def)
  have 3: "is_stale (121 * 10 ^ 9) ?r" "br_listen_topic ?r \<noteq> []" "br_gateway_url ?r = Some ''http://g''"
    by (simp_all add: is_stale_def BEACON_TIMEOUT_def)
  show ?thesis
    using dropped_sweep_loses_gateway [OF 1 2 3 refl refl, where order = "[''b'']" and later = "[]"] by simp
qed

text \<open>The time of an input, and the record of a beacon that has been heard of since \<open>t\<close>.\<close>

fun input_time :: "loop_input \<Rightarrow> nat" where
  "input_time (NewChannel subscribe now c) = now"
| "input_time (TimeoutSweep order now budget) = now"
| "input_time (Inbound now msg) = now"

definition seen_since :: "nat \<Rightarrow> string \<Rightarrow> registry \<Rightarrow> bool" where
  "seen_since t bid reg \<longleftrightarrow> (\<exists>r. rr_records reg bid = Some r \<and> t \<le> br_last_seen r)"

lemma seen_since_update:
  "seen_since t bid reg \<Longrightarrow> (\<And>r. t \<le> br_last_seen r \<Longrightarrow> t \<le> br_last_seen (f r)) \<Longrightarrow>
   seen_since t bid (update_record b f reg)"
  by (auto simp: seen_since_def update_record_def split: option.splits)

lemma seen_since_ensure: "seen_since t bid reg \<Longrightarrow> seen_since t bid (ensure_record b now reg)"
  by (auto simp: seen_since_def ensure_record_def split: option.splits)

lemma seen_since_push: "seen_since t bid reg \<Longrightarrow> seen_since t bid (push_topic x reg)"
  by (simp add: seen_since_def push_topic_def)

lemma seen_since_register: "seen_since t bid reg \<Longrightarrow> seen_since t bid (register_channel subscribe now c reg)"
  by (auto simp: register_channel_def Let_def split: topic_type.splits result.splits
      intro!: seen_since_update seen_since_push seen_since_ensure)

lemma seen_since_touch: "seen_since t bid reg \<Longrightarrow> t \<le> now \<Longrightarrow> seen_since t bid (touch now topic reg)"
  by (auto simp: touch_def update_last_seen_def split: option.splits intro!: seen_since_update)

lemma deregister_records: "rr_records (snd (deregister bid r budget reg)) = (rr_records reg)(bid := None)"
  by (simp add: deregister_def Let_def split: option.split)

lemma deregister_all_keeps:
  "bid \<notin> set bids \<Longrightarrow> rr_records (deregister_all bids budget reg) bid = rr_records reg bid"
proof (induction bids budget reg rule: deregister_all.induct)
  case (2 b bids budget reg)
  show ?case
  proof (cases "rr_records reg b")
    case (Some r)
    obtain bu reg' where d: "deregister b r budget reg = (bu, reg')" by fastforce
    with deregister_records [of b r budget reg] 2(3) have "rr_records reg' bid = rr_records reg bid" by auto
    with Some d 2(2,3) show ?thesis by (cases bu) auto
  qed (use 2 in simp)
qed simp

lemma seen_since_sweep:
  assumes "seen_since t bid reg" and "now \<le> t + BEACON_TIMEOUT"
  shows "seen_since t bid (check_timeouts order now budget reg)"
proof -
  have "bid \<notin> set (stale_ids order now reg)"
    using assms by (auto simp: stale_ids_def is_stale_def seen_since_def)
  with assms(1) show ?thesis by (simp add: check_timeouts_def seen_since_def deregister_all_keeps)
qed

lemma seen_since_open:
  assumes "seen_since t bid (bl_registry s)"
  shows "seen_since t bid (bl_registry (open_gateway server_url topic u payload s))"
proof -
  have "seen_since t bid (insert_gateway u (bl_registry s))"
    using assms by (simp add: seen_since_def insert_gateway_def)
  then show ?thesis
    by (auto simp: open_gateway_def associate_gateway_def Let_def split: option.split intro!: seen_since_update)
qed

lemma seen_since_step:
  assumes "seen_since t bid (bl_registry s)" and "t \<le> input_time i" "input_time i \<le> t + BEACON_TIMEOUT"
  shows "seen_since t bid (bl_registry (beacon_step pv server_url i s))"
  using assms
  by (cases i)
    (simp_all add: seen_since_register seen_since_sweep beacon_message_def Let_def seen_since_open seen_since_touch
      split: option.split)

text \<open>
  C13: A registered beacon that is heard on its own topic at time \<open>t\<close> stays registered for the
  next two minutes, whatever else happens in between.
\<close>

theorem heard_beacon_stays:
  assumes "rr_records (bl_registry s) bid \<noteq> None" and "mm_topic msg = bid @ ''/rec''"
    and "s' = fold (beacon_step pv server_url) later (beacon_message pv server_url t msg s)"
    and "\<forall>i\<in>set later. t \<le> input_time i \<and> input_time i \<le> t + 120 * 10 ^ 9"
  shows "rr_records (bl_registry s') bid \<noteq> None"
proof -
  have "seen_since t bid (touch t (mm_topic msg) (bl_registry s))"
    using assms(1,2) by (auto simp: touch_def update_last_seen_def seen_since_def update_record_def)
  then have "seen_since t bid (bl_registry (beacon_message pv server_url t msg s))"
    by (simp add: beacon_message_def Let_def seen_since_open split: option.split)
  moreover have "seen_since t bid (bl_registry (fold (beacon_step pv server_url) later x))"
    if "seen_since t bid (bl_registry x)" for x
    using that assms(4)
    by (induction later arbitrary: x) (simp_all add: seen_since_step BEACON_TIMEOUT_def)
  ultimately show ?thesis using assms(3) by (auto simp: seen_since_def)
qed

theorem heard_beacon_stays_witness:
  "rr_records (bl_registry (fold (beacon_step demo_pv ''http://me'') [TimeoutSweep [''a'', ''b''] (220 * 10 ^ 9) None]
      (beacon_message demo_pv ''http://me'' (100 * 10 ^ 9) (demo_msg ''a/rec'')
         \<lparr>bl_registry = two_beacons, bl_dials = [], bl_next_chan = 8\<rparr>))) ''a'' \<noteq> None"
  using heard_beacon_stays [OF _ _ refl, of "\<lparr>bl_registry = two_beacons, bl_dials = [], bl_next_chan = 8\<rparr>" "''a''"
      "demo_msg ''a/rec''" "[TimeoutSweep [''a'', ''b''] (220 * 10 ^ 9) None]" "100 * 10 ^ 9" demo_pv "''http://me''"]
  by (simp add: two_beacons_def demo_msg_def)

subsection \<open>Properties of the broadcast loop\<close>

text \<open>
  A cycle in which a key could be obtained publishes exactly once to every registered
  topic, in list order and at QoS 1, one and the same payload, which carries the server URL and
  the id of the one active key of the table; a failing publish does not keep the others from
  being sent. Without a key nothing is published. Either way the key table stays well formed.
\<close>

theorem broadcast_cycle_spec:
  assumes "key_wf (bs_key_management st) t" and "env_ok (cy_rotate env)"
    and "broadcast_cycle render st env topics t = (pubs, t')"
  shows "key_wf (bs_key_management st) t' \<and>
    (case get_or_rotate_key (bs_key_management st) (cy_now_key env) (cy_rotate env) t of
       (Err e, t1) \<Rightarrow> pubs = []
     | (Ok key, t1) \<Rightarrow>
         (\<exists>r tok payload. active_rows t1 = [r] \<and>
            payload = render (JObj [(''url'', JStr (bs_server_url st)),
               (''kid'', JStr (hex_encode (kr_key_id r))), (''tok'', JStr tok)]) \<and>
            map fst pubs = topics \<and>
            (\<forall>p\<in>set pubs. fst (snd p) = AtLeastOnce \<and> fst (snd (snd p)) = payload)))"
proof -
  obtain res t1 where g: "get_or_rotate_key (bs_key_management st) (cy_now_key env) (cy_rotate env) t = (res, t1)"
    by fastforce
  have wf1: "key_wf (bs_key_management st) t1"
    using key_wf_get_or_rotate [OF assms(1,2), of "cy_now_key env"] g by simp
  show ?thesis
  proof (cases res)
    case (Err e)
    with g assms(3) wf1 show ?thesis by (simp add: broadcast_cycle_def)
  next
    case (Ok key)
    note gk = g [unfolded Ok]
    obtain r where r: "active_rows t1 = [r]" "key = key_of_row r"
      using get_or_rotate_active [OF assms(1,2) gk] by metis
    have "key_wf (bs_key_management st) t'"
      using assms(3) gk key_wf_sweep [OF wf1, of "cy_now_sweep env" "cy_sweep_faults env"]
      by (auto simp: broadcast_cycle_def Let_def)
    moreover have "map fst pubs = topics"
      using assms(3) gk by (auto simp: broadcast_cycle_def Let_def comp_def)
    moreover have "\<forall>p\<in>set pubs. fst (snd p) = AtLeastOnce \<and> fst (snd (snd p)) =
        render (JObj [(''url'', JStr (bs_server_url st)), (''kid'', JStr (hex_encode (kr_key_id r))),
          (''tok'', JStr (hex_encode (generate_token (cy_hmac env) (bs_key_management st) (cy_now_token env) key)))])"
      using assms(3) gk r(2)
      by (auto simp: broadcast_cycle_def broadcast_payload_def ota_fields_def key_of_row_def Let_def)
    ultimately show ?thesis using gk r(1) by auto
  qed
qed

definition demo_bstate :: broadcast_state where
  "demo_bstate = \<lparr>bs_server_url = ''http://me'', bs_use_jitter = False, bs_broadcast_interval = 60, bs_key_management = ex_km\<rparr>"

definition demo_cycle :: cycle_env where
  "demo_cycle = \<lparr>cy_now_key = 1000, cy_rotate = ex_env 1000 7, cy_now_sweep = 1000, cy_sweep_faults = (\<lambda>s. None),
     cy_now_token = 1000, cy_hmac = (\<lambda>k m. replicate 32 7), cy_publish = (\<lambda>t q p. Err ''offline'')\<rparr>"

theorem broadcast_cycle_spec_witness:
  "map fst (fst (broadcast_cycle (\<lambda>j. ''payload'') demo_bstate demo_cycle [''a/cast'', ''b/cast''] [])) = [''a/cast'', ''b/cast'']"
proof -
  have k: "key_wf (bs_key_management demo_bstate) []" "env_ok (cy_rotate demo_cycle)"
    by (simp_all add: key_wf_def active_rows_def demo_cycle_def env_ok_def ex_env_def)
  have "\<exists>key t1. get_or_rotate_key (bs_key_management demo_bstate) (cy_now_key demo_cycle) (cy_rotate demo_cycle) [] = (Ok key, t1)"
    by (simp add: demo_bstate_def demo_cycle_def ex_simps)
  with broadcast_cycle_spec [OF k prod.collapse [symmetric], of "\<lambda>j. ''payload''" "[''a/cast'', ''b/cast'']"]
  show ?thesis by auto
qed

text \<open>The random pause before a publication is between one and ten seconds.\<close>

theorem jitter_bounds: "1 \<le> unat (jitter_secs r) \<and> unat (jitter_secs r) \<le> 10"
proof -
  have m: "unat (r mod 10) < 10" by (simp add: unat_mod)
  then have "unat (r mod 10 + 1) = unat (r mod 10) + 1"
    by (subst unat_plus_if') simp
  with m show ?thesis by (simp add: jitter_secs_def)
qed

end
