(* ===== verification/Connections.thy ===== *)
theory Connections
  imports Beacon_Loop
begin

section \<open>The message loop and the gateway connections it opens\<close>

text \<open>
  \<open>run_beacon_message_loop\<close> (\<open>app.rs\<close>) spawns one WebSocket task per gateway it dials
  (\<open>connect_to_gateway\<close>, \<open>cloud_gateway_service.rs\<close>) and keeps only the sender of the task's shutdown
  channel, on the record of the beacon. Here the loop and its tasks run together: a state has the
  loop's state and the tasks by their shutdown channel. A channel whose sender no record holds has
  been dropped, which is the shutdown signal of its task.
\<close>

subsection \<open>State and steps\<close>

type_synonym tasks = "chan \<rightharpoonup> string \<times> cg_task"

definition connect_to_gateway :: "string \<Rightarrow> chan \<Rightarrow> tasks \<Rightarrow> tasks" where
  "connect_to_gateway gateway_url shutdown tasks = tasks(shutdown \<mapsto> (compute_ws_url gateway_url, cg_init))"

text \<open>\<open>CloudGatewayHandle::send\<close>: the queue of the task takes the message unless the task has ended.\<close>

definition cloud_send ::
  "(json \<Rightarrow> string res) \<Rightarrow> (string \<Rightarrow> json option) \<Rightarrow> string \<Rightarrow> chan \<Rightarrow> gateway_message \<Rightarrow> tasks \<Rightarrow> unit res \<times> tasks" where
  "cloud_send ser parse server_url c msg tasks =
     (case tasks c of
        None \<Rightarrow> (Err ''cloud gateway channel closed'', tasks)
      | Some (ws_url, t) \<Rightarrow>
          (case cg_step ser parse server_url (EvEnqueue msg) t of
             None \<Rightarrow> (Err ''cloud gateway channel closed'', tasks)
           | Some t' \<Rightarrow> (Ok (), tasks(c \<mapsto> (ws_url, t')))))"

definition open_connection ::
  "(json \<Rightarrow> string res) \<Rightarrow> (string \<Rightarrow> json option) \<Rightarrow> string \<Rightarrow> dial \<Rightarrow> tasks \<Rightarrow> tasks" where
  "open_connection ser parse server_url d tasks =
     snd (cloud_send ser parse server_url (dl_shutdown d) (dl_first d)
       (connect_to_gateway (dl_gateway d) (dl_shutdown d) tasks))"

record network =
  nw_loop :: beacon_loop
  nw_tasks :: tasks

definition network_init :: "string option \<Rightarrow> string list \<Rightarrow> network" where
  "network_init own topics = \<lparr>nw_loop = beacon_loop_init own topics, nw_tasks = Map.empty\<rparr>"

text \<open>A record holds the sender of the shutdown channel.\<close>

definition held :: "chan \<Rightarrow> registry \<Rightarrow> bool" where
  "held c reg \<longleftrightarrow> (\<exists>r\<in>ran (rr_records reg). br_gateway_shutdown_tx r = Some c)"

definition dialled :: "beacon_loop \<Rightarrow> beacon_loop \<Rightarrow> dial list" where
  "dialled s s' = drop (length (bl_dials s)) (bl_dials s')"

text \<open>
  A step of the message loop opens the connections it dials; a step of a task is one of its events,
  where a shutdown needs the sender to be gone and no one can queue more messages, the handle having
  been dropped after the first.
\<close>

inductive net_step ::
  "payload_env \<Rightarrow> (json \<Rightarrow> string res) \<Rightarrow> (string \<Rightarrow> json option) \<Rightarrow> string \<Rightarrow> network \<Rightarrow> network \<Rightarrow> bool"
  for pv ser parse server_url where
  loop_input: "s' = beacon_step pv server_url i (nw_loop n) \<Longrightarrow>
     net_step pv ser parse server_url n
       (n\<lparr>nw_loop := s', nw_tasks := fold (open_connection ser parse server_url) (dialled (nw_loop n) s') (nw_tasks n)\<rparr>)"
| task_event: "nw_tasks n c = Some (ws_url, t) \<Longrightarrow> cg_step ser parse server_url ev t = Some t' \<Longrightarrow>
     \<forall>m. ev \<noteq> EvEnqueue m \<Longrightarrow> (ev = EvShutdown \<Longrightarrow> \<not> held c (bl_registry (nw_loop n))) \<Longrightarrow>
     net_step pv ser parse server_url n (n\<lparr>nw_tasks := (nw_tasks n)(c \<mapsto> (ws_url, t'))\<rparr>)"

inductive net_reach ::
  "payload_env \<Rightarrow> (json \<Rightarrow> string res) \<Rightarrow> (string \<Rightarrow> json option) \<Rightarrow> string \<Rightarrow> string option \<Rightarrow> string list \<Rightarrow> network \<Rightarrow> bool"
  for pv ser parse server_url own topics where
  net_start: "net_reach pv ser parse server_url own topics (network_init own topics)"
| net_next: "net_reach pv ser parse server_url own topics n \<Longrightarrow> net_step pv ser parse server_url n n' \<Longrightarrow>
     net_reach pv ser parse server_url own topics n'"

inductive_cases net_step_elim: "net_step pv ser parse server_url n n'"

subsection \<open>What the loop does to the gateway fields of its records\<close>

text \<open>A property of the gateway fields of all records; only \<open>open_gateway\<close> writes them.\<close>

definition all_gateways :: "(string option \<Rightarrow> chan option \<Rightarrow> bool) \<Rightarrow> registry \<Rightarrow> bool" where
  "all_gateways Q reg \<longleftrightarrow> (\<forall>r\<in>ran (rr_records reg). Q (br_gateway_url r) (br_gateway_shutdown_tx r))"

lemma all_gateways_update:
  assumes "all_gateways Q reg"
    and "\<And>r. Q (br_gateway_url r) (br_gateway_shutdown_tx r) \<Longrightarrow> Q (br_gateway_url (f r)) (br_gateway_shutdown_tx (f r))"
  shows "all_gateways Q (update_record bid f reg)"
  using assms ball_update_record [of reg "\<lambda>r. Q (br_gateway_url r) (br_gateway_shutdown_tx r)" f bid]
  by (simp add: all_gateways_def)

lemma all_gateways_ensure: "all_gateways Q reg \<Longrightarrow> Q None None \<Longrightarrow> all_gateways Q (ensure_record bid now reg)"
  by (auto simp: all_gateways_def ensure_record_def ran_def split: option.splits if_splits)

lemma all_gateways_push [simp]: "all_gateways Q (push_topic t reg) = all_gateways Q reg"
  by (simp add: all_gateways_def push_topic_def)

lemma all_gateways_register:
  "all_gateways Q reg \<Longrightarrow> Q None None \<Longrightarrow> all_gateways Q (register_channel subscribe now c reg)"
  by (auto simp: register_channel_def Let_def split: topic_type.splits result.splits
      intro!: all_gateways_update all_gateways_ensure)

lemma all_gateways_touch: "all_gateways Q reg \<Longrightarrow> all_gateways Q (touch now topic reg)"
  by (auto simp: touch_def update_last_seen_def split: option.splits intro!: all_gateways_update)

lemma all_gateways_deregister: "all_gateways Q reg \<Longrightarrow> all_gateways Q (snd (deregister bid r budget reg))"
  by (auto simp: deregister_def Let_def all_gateways_def ran_def split: option.split if_splits)

lemma all_gateways_deregister_all: "all_gateways Q reg \<Longrightarrow> all_gateways Q (deregister_all bids budget reg)"
proof (induction bids budget reg rule: deregister_all.induct)
  case (2 bid bids budget reg)
  show ?case
  proof (cases "rr_records reg bid")
    case (Some r)
    obtain b reg' where d: "deregister bid r budget reg = (b, reg')" by fastforce
    with all_gateways_deregister [OF 2(3), of bid r budget] have "all_gateways Q reg'" by simp
    with Some d 2(2) show ?thesis by (cases b) (simp_all add: 2(2))
  qed (use 2 in simp)
qed simp

lemma all_gateways_associate:
  assumes "all_gateways Q reg" and "Q (Some u) (Some c)"
  shows "all_gateways Q (associate_gateway bid u c (insert_gateway u reg))"
proof -
  have "all_gateways Q (insert_gateway u reg)" using assms(1) by (simp add: all_gateways_def insert_gateway_def)
  then show ?thesis unfolding associate_gateway_def using assms(2) by (intro all_gateways_update) simp_all
qed

text \<open>
  A step of the loop either dials nothing and only drops senders, or dials one gateway on the next
  channel and may store its sender.
\<close>

lemma beacon_step_cases:
  assumes "Q None None" and "all_gateways Q (bl_registry s)"
  obtains (quiet) "bl_dials (beacon_step pv server_url i s) = bl_dials s"
      "bl_next_chan (beacon_step pv server_url i s) = bl_next_chan s"
      "all_gateways Q (bl_registry (beacon_step pv server_url i s))"
  | (dials) u payload where
      "bl_dials (beacon_step pv server_url i s) =
         bl_dials s @ [\<lparr>dl_gateway = u, dl_first = BeaconRegistration server_url payload, dl_shutdown = bl_next_chan s\<rparr>]"
      "bl_next_chan (beacon_step pv server_url i s) = Suc (bl_next_chan s)"
      "Q (Some u) (Some (bl_next_chan s)) \<Longrightarrow> all_gateways Q (bl_registry (beacon_step pv server_url i s))"
proof (cases i)
  case (NewChannel subscribe now c)
  with assms show ?thesis by (intro quiet) (simp_all add: all_gateways_register)
next
  case (TimeoutSweep order now budget)
  with assms show ?thesis by (intro quiet) (simp_all add: check_timeouts_def all_gateways_deregister_all)
next
  case (Inbound now msg)
  let ?reg = "touch now (mm_topic msg) (bl_registry s)" and ?p = "beacon_payload pv (mm_payload msg)"
  have t: "all_gateways Q ?reg" using assms(2) by (rule all_gateways_touch)
  show ?thesis
  proof (cases "\<exists>u. advertised_gateway ?p = Some u \<and> \<not> is_gateway_known u ?reg")
    case True
    then obtain u where u: "advertised_gateway ?p = Some u" "\<not> is_gateway_known u ?reg" by blast
    have st: "beacon_step pv server_url i s = open_gateway server_url (mm_topic msg) u ?p (s\<lparr>bl_registry := ?reg\<rparr>)"
      using Inbound u by (simp add: beacon_message_def Let_def)
    have "all_gateways Q (insert_gateway u ?reg)" using t by (simp add: all_gateways_def insert_gateway_def)
    then have "all_gateways Q (bl_registry (beacon_step pv server_url i s))" if "Q (Some u) (Some (bl_next_chan s))"
      using all_gateways_associate [OF t that] by (simp add: st open_gateway_def Let_def split: option.split)
    then show ?thesis by (intro dials [of u ?p]) (simp_all add: st open_gateway_def Let_def)
  next
    case False
    with Inbound t show ?thesis by (intro quiet) (auto simp: beacon_message_def Let_def split: option.split)
  qed
qed

subsection \<open>The invariant of the network\<close>

lemma held_all_gateways: "\<not> held c reg \<longleftrightarrow> all_gateways (\<lambda>u x. x \<noteq> Some c) reg"
  by (auto simp: held_def all_gateways_def)

lemma dialled_simps [simp]:
  "bl_dials s' = bl_dials s \<Longrightarrow> dialled s s' = []" "bl_dials s' = bl_dials s @ ds \<Longrightarrow> dialled s s' = ds"
  by (simp_all add: dialled_def)

lemma open_connection_new:
  "open_connection ser parse u d tasks = tasks(dl_shutdown d \<mapsto> (compute_ws_url (dl_gateway d), cg_init\<lparr>ct_queue := [dl_first d]\<rparr>))"
  by (simp add: open_connection_def cloud_send_def connect_to_gateway_def cg_step_def cg_init_def)

lemma receive_ended: "ct_phase (receive parse m t) = Ended \<longleftrightarrow> ct_phase t = Ended \<and> m \<noteq> WsClose"
  by (cases m) auto

lemma cg_ended: "cg_step ser parse u ev t = Some t' \<Longrightarrow> ct_phase t' = Ended \<Longrightarrow> ev = EvShutdown"
  by (cases ev; cases "ct_phase t"; cases "ct_queue t")
    (auto simp: cg_step_simps receive_ended split: if_splits)

definition task_inv :: "string \<Rightarrow> dial \<Rightarrow> string \<times> cg_task \<Rightarrow> bool" where
  "task_inv server_url d wt \<longleftrightarrow> fst wt = compute_ws_url (dl_gateway d) \<and> link_inv server_url (snd wt) \<and>
     subseq (frames (snd wt) @ ct_queue (snd wt)) [dl_first d]"

definition sender_inv :: "beacon_loop \<Rightarrow> string option \<Rightarrow> chan option \<Rightarrow> bool" where
  "sender_inv s u x \<longleftrightarrow> (\<forall>c. x = Some c \<longrightarrow> c < bl_next_chan s \<and> u = Some (dl_gateway (bl_dials s ! c)))"

definition loop_inv :: "string option \<Rightarrow> string \<Rightarrow> beacon_loop \<Rightarrow> bool" where
  "loop_inv own server_url s \<longleftrightarrow> gateway_inv own (bl_registry s) \<and>
     map dl_shutdown (bl_dials s) = [0..<bl_next_chan s] \<and>
     (\<forall>d\<in>set (bl_dials s). \<exists>payload. dl_first d = BeaconRegistration server_url payload) \<and>
     all_gateways (sender_inv s) (bl_registry s)"

definition net_inv :: "string option \<Rightarrow> string \<Rightarrow> network \<Rightarrow> bool" where
  "net_inv own server_url n \<longleftrightarrow> loop_inv own server_url (nw_loop n) \<and>
     dom (nw_tasks n) = {..<bl_next_chan (nw_loop n)} \<and>
     (\<forall>c wt. nw_tasks n c = Some wt \<longrightarrow> task_inv server_url (bl_dials (nw_loop n) ! c) wt \<and>
        (ct_phase (snd wt) = Ended \<longrightarrow> \<not> held c (bl_registry (nw_loop n))))"

lemma loop_inv_length: "loop_inv own u s \<Longrightarrow> length (bl_dials s) = bl_next_chan s"
  by (metis loop_inv_def length_map length_upt minus_nat.diff_0)

lemma all_gateways_mono: "all_gateways Q reg \<Longrightarrow> (\<And>u x. Q u x \<Longrightarrow> R u x) \<Longrightarrow> all_gateways R reg"
  by (auto simp: all_gateways_def)

lemma loop_inv_step:
  assumes "loop_inv own server_url s"
  shows "loop_inv own server_url (beacon_step pv server_url i s)"
proof -
  let ?s' = "beacon_step pv server_url i s"
  have g: "gateway_inv own (bl_registry ?s')"
    using assms by (intro gateway_inv_step) (simp add: loop_inv_def)
  have len: "length (bl_dials s) = bl_next_chan s" using assms by (rule loop_inv_length)
  let ?Q = "\<lambda>u x. sender_inv s u x \<or> sender_inv ?s' u x"
  have "?Q None None" by (simp add: sender_inv_def)
  moreover have "all_gateways ?Q (bl_registry s)"
    using assms by (auto simp: loop_inv_def elim: all_gateways_mono)
  ultimately show ?thesis
  proof (cases rule: beacon_step_cases [where pv = pv and server_url = server_url and i = i])
    case quiet
    then have "all_gateways (sender_inv ?s') (bl_registry ?s')"
      by (elim all_gateways_mono) (auto simp: sender_inv_def)
    with quiet g assms show ?thesis by (simp add: loop_inv_def)
  next
    case (dials u payload)
    have "sender_inv ?s' (Some u) (Some (bl_next_chan s))"
      using dials(1,2) len by (simp add: sender_inv_def nth_append)
    then have "all_gateways ?Q (bl_registry ?s')" using dials(3) by blast
    then have "all_gateways (sender_inv ?s') (bl_registry ?s')"
      using dials(1,2) len by (elim all_gateways_mono) (auto simp: sender_inv_def nth_append)
    with dials(1,2) g assms show ?thesis by (auto simp: loop_inv_def)
  qed
qed

lemma held_step:
  assumes "\<not> held c (bl_registry s)" and "c < bl_next_chan s"
  shows "\<not> held c (bl_registry (beacon_step pv server_url i s)) \<and> c < bl_next_chan (beacon_step pv server_url i s)"
proof -
  let ?Q = "\<lambda>u x. x \<noteq> Some c"
  have "?Q None None" "all_gateways ?Q (bl_registry s)" using assms(1) by (simp_all add: held_all_gateways)
  then show ?thesis unfolding held_all_gateways
    by (cases rule: beacon_step_cases [where Q = ?Q and pv = pv and server_url = server_url and i = i]) (use assms(2) in auto)
qed

lemma task_inv_step:
  assumes "task_inv server_url d (ws, t)" and "cg_step ser parse server_url ev t = Some t'" and "\<forall>m. ev \<noteq> EvEnqueue m"
  shows "task_inv server_url d (ws, t')"
proof -
  have "enq1 ev = []" using assms(3) by (cases ev) auto
  then have "subseq (frames t' @ ct_queue t') (frames t @ ct_queue t)" using frames_step [OF assms(2)] by simp
  then show ?thesis using assms(1) link_inv_step [OF _ assms(2)] subseq_order.order_trans
    unfolding task_inv_def by auto
qed

lemma net_inv_input:
  assumes "net_inv own server_url n" and "s' = beacon_step pv server_url i (nw_loop n)"
  shows "net_inv own server_url
    (n\<lparr>nw_loop := s', nw_tasks := fold (open_connection ser parse server_url) (dialled (nw_loop n) s') (nw_tasks n)\<rparr>)"
proof -
  let ?s = "nw_loop n"
  have li: "loop_inv own server_url ?s" using assms(1) by (simp add: net_inv_def)
  have li': "loop_inv own server_url s'" unfolding assms(2) using li by (rule loop_inv_step)
  have len: "length (bl_dials ?s) = bl_next_chan ?s" using li by (rule loop_inv_length)
  have old: "c < bl_next_chan ?s \<and> task_inv server_url (bl_dials ?s ! c) wt \<and> (ct_phase (snd wt) = Ended \<longrightarrow> \<not> held c (bl_registry s'))"
    if "nw_tasks n c = Some wt" for c wt
  proof -
    have c: "c < bl_next_chan ?s" using that assms(1) by (auto simp: net_inv_def)
    with that assms(1) held_step [of c ?s pv server_url i] show ?thesis by (cases wt) (auto simp: net_inv_def assms(2))
  qed
  have "True" "all_gateways (\<lambda>_ _. True) (bl_registry ?s)" by (simp_all add: all_gateways_def)
  then show ?thesis
  proof (cases rule: beacon_step_cases [where Q = "\<lambda>_ _. True" and pv = pv and server_url = server_url and i = i])
    case quiet
    then have "bl_dials s' = bl_dials ?s" "bl_next_chan s' = bl_next_chan ?s" by (simp_all add: assms(2))
    with li' old assms(1) show ?thesis by (simp add: net_inv_def)
  next
    case (dials u payload)
    let ?d = "\<lparr>dl_gateway = u, dl_first = BeaconRegistration server_url payload, dl_shutdown = bl_next_chan ?s\<rparr>"
    have d: "bl_dials s' = bl_dials ?s @ [?d]" "bl_next_chan s' = Suc (bl_next_chan ?s)"
      using dials(1,2) by (simp_all add: assms(2))
    have "task_inv server_url ?d (compute_ws_url u, cg_init\<lparr>ct_queue := [dl_first ?d]\<rparr>)"
      by (simp add: task_inv_def link_inv_def cg_init_def frames_def wire_link_def)
    moreover have "dom (nw_tasks n) = {..<bl_next_chan ?s}" using assms(1) by (simp add: net_inv_def)
    ultimately show ?thesis using li' old d len
      by (auto simp: net_inv_def open_connection_new nth_append lessThan_Suc cg_init_def)
  qed
qed

lemma net_inv_step:
  assumes "net_inv own server_url n" and "net_step pv ser parse server_url n n'"
  shows "net_inv own server_url n'"
  using assms(2)
proof (cases rule: net_step.cases)
  case (loop_input s' i)
  then show ?thesis using net_inv_input [OF assms(1)] by simp
next
  case (task_event c ws_url t ev t')
  then have "task_inv server_url (bl_dials (nw_loop n) ! c) (ws_url, t)" "c < bl_next_chan (nw_loop n)"
    using assms(1) by (auto simp: net_inv_def)
  with task_event task_inv_step [OF this(1) task_event(3,4)] assms(1) cg_ended [OF task_event(3)]
  show ?thesis by (auto simp: net_inv_def)
qed

lemma net_inv_reach: "net_reach pv ser parse server_url own topics n \<Longrightarrow> net_inv own server_url n"
proof (induction rule: net_reach.induct)
  case net_start
  show ?case using gateway_inv_start [of own topics]
    by (auto simp: net_inv_def loop_inv_def network_init_def beacon_loop_init_def all_gateways_def registry_new_def)
qed (rule net_inv_step)

subsection \<open>Properties\<close>

lemma sender_unique:
  assumes "loop_inv own u s"
    and "rr_records (bl_registry s) b = Some r" "br_gateway_shutdown_tx r = Some c"
    and "rr_records (bl_registry s) b' = Some r'" "br_gateway_shutdown_tx r' = Some c'"
    and "dl_gateway (bl_dials s ! c) = dl_gateway (bl_dials s ! c')"
  shows "b = b'"
proof -
  have "br_gateway_url r = Some (dl_gateway (bl_dials s ! c))" "br_gateway_url r' = Some (dl_gateway (bl_dials s ! c'))"
    using assms(1-5) by (auto simp: loop_inv_def all_gateways_def sender_inv_def ran_def)
  then have "gateway_of (bl_registry s) b = gateway_of (bl_registry s) b'" "b \<in> dom (gateway_of (bl_registry s))"
    "b' \<in> dom (gateway_of (bl_registry s))" using assms by (auto simp: gateway_of_def)
  then show ?thesis using assms(1) by (auto simp: loop_inv_def gateway_inv_def dest: inj_onD)
qed

lemma held_unique:
  assumes "loop_inv own u s" and "held c (bl_registry s)" and "held c' (bl_registry s)"
    and "dl_gateway (bl_dials s ! c) = dl_gateway (bl_dials s ! c')"
  shows "c = c'"
  using assms(2,3) sender_unique [OF assms(1) _ _ _ _ assms(4)] by (fastforce simp: held_def ran_def)

lemma subseq_singleton: "subseq xs [a] \<Longrightarrow> xs = [] \<or> xs = [a]"
  by (cases xs) (auto split: if_splits)


lemma two_steps_to_end:
  assumes "nw_tasks n c = Some (ws, t)" and "\<not> held c (bl_registry (nw_loop n))" and "ct_phase t \<noteq> Ended"
  shows "\<exists>k\<le>2. \<exists>n' t'. (net_step pv ser parse server_url ^^ k) n n' \<and> nw_tasks n' c = Some (ws, t') \<and> ct_phase t' = Ended"
proof -
  have one: "\<exists>n' t'. net_step pv ser parse server_url m n' \<and> nw_tasks n' c = Some (ws, t') \<and> ct_phase t' = Ended"
    if m: "nw_tasks m c = Some (ws, u)" "ct_phase u \<in> {Connecting, Looping}" "nw_loop m = nw_loop n" for m u
  proof -
    obtain u' where "cg_step ser parse server_url EvShutdown u = Some u'" "ct_phase u' = Ended"
      using m(2) by (auto simp: cg_step_def)
    with net_step.task_event [OF m(1) this(1)] assms(2) m(3) show ?thesis by fastforce
  qed
  show ?thesis
  proof (cases "ct_phase t \<in> {Connecting, Looping}")
    case True
    with one [OF assms(1) True refl] show ?thesis by (intro exI [of _ 1]) auto
  next
    case False
    define ev where "ev = (if ct_phase t = Registering then EvSent False else EvSlept)"
    have "\<exists>t1. cg_step ser parse server_url ev t = Some t1 \<and> ct_phase t1 = Connecting"
      using False assms(3) by (cases "ct_phase t") (auto simp: cg_step_simps ev_def)
    then obtain t1 where t1: "cg_step ser parse server_url ev t = Some t1" "ct_phase t1 = Connecting" by blast
    let ?m = "n\<lparr>nw_tasks := (nw_tasks n)(c \<mapsto> (ws, t1))\<rparr>"
    have m: "net_step pv ser parse server_url n ?m"
      using assms(1) t1(1) by (rule net_step.task_event) (auto simp: ev_def split: if_splits)
    obtain n' t' where "net_step pv ser parse server_url ?m n'" "nw_tasks n' c = Some (ws, t')" "ct_phase t' = Ended"
      using one [of ?m t1] t1 by auto
    with m show ?thesis by (intro exI [of _ 2]) (auto simp: numeral_2_eq_2 intro!: relcomppI)
  qed
qed

lemma not_held_run:
  assumes "(net_step pv ser parse server_url)\<^sup>*\<^sup>* n n'" and "\<not> held c (bl_registry (nw_loop n))" and "c < bl_next_chan (nw_loop n)"
  shows "\<not> held c (bl_registry (nw_loop n')) \<and> c < bl_next_chan (nw_loop n')"
  using assms
proof (induction rule: rtranclp_induct)
  case (step n1 n2)
  from step(2) show ?case
    by (cases rule: net_step.cases) (use step.IH [OF step.prems] held_step in auto)
qed simp

lemma net_reach_run:
  "(net_step pv ser parse server_url)\<^sup>*\<^sup>* n n' \<Longrightarrow> net_reach pv ser parse server_url own topics n \<Longrightarrow>
   net_reach pv ser parse server_url own topics n'"
  by (induction rule: rtranclp_induct) (auto intro: net_reach.net_next)

text \<open>
  C34: A connection whose beacon is gone can always be finished: once no record holds the sender of a
  task's shutdown channel none ever will again, and at any later time the task has ended or is at
  most two of its own steps away from its end.
\<close>

theorem dropped_connection_ends:
  assumes "net_reach pv ser parse server_url own topics n" and "c < bl_next_chan (nw_loop n)"
    and "\<not> held c (bl_registry (nw_loop n))" and "(net_step pv ser parse server_url)\<^sup>*\<^sup>* n n'"
  shows "\<not> held c (bl_registry (nw_loop n')) \<and>
    (\<exists>k\<le>2. \<exists>n'' ws t. (net_step pv ser parse server_url ^^ k) n' n'' \<and> nw_tasks n'' c = Some (ws, t) \<and> ct_phase t = Ended)"
proof -
  have nh: "\<not> held c (bl_registry (nw_loop n'))" "c < bl_next_chan (nw_loop n')"
    using not_held_run [OF assms(4,3,2)] by simp_all
  have "net_inv own server_url n'" using net_reach_run [OF assms(4,1)] by (rule net_inv_reach)
  then have "c \<in> dom (nw_tasks n')" using nh(2) by (simp add: net_inv_def)
  then obtain ws t where t: "nw_tasks n' c = Some (ws, t)" by (auto simp: dom_def)
  show ?thesis
  proof (cases "ct_phase t = Ended")
    case True
    with t nh(1) show ?thesis by (auto intro!: exI [of _ 0])
  next
    case False
    with two_steps_to_end [OF t nh(1)] nh(1) show ?thesis by blast
  qed
qed

text \<open>
  A sweep that runs to its end releases the gateway of every stale beacon: nobody holds the
  connection's sender any more, so the task can end, and the gateway is unknown again, so the
  next advertisement of it opens a new connection.
\<close>

theorem stale_connection_released:
  assumes "net_reach pv ser parse server_url own topics n" and "s = nw_loop n"
    and "rr_records (bl_registry s) bid = Some r" and "is_stale now r"
    and "br_gateway_shutdown_tx r = Some c" and "set order = dom (rr_records (bl_registry s))"
    and "s' = beacon_step pv server_url (TimeoutSweep order now None) s"
  shows "\<not> held c (bl_registry s') \<and> \<not> is_gateway_known (dl_gateway (bl_dials s ! c)) (bl_registry s') \<and>
    (\<forall>t msg. advertised_gateway (beacon_payload pv (mm_payload msg)) = Some (dl_gateway (bl_dials s ! c)) \<longrightarrow>
       length (bl_dials (beacon_message pv server_url t msg s')) = Suc (length (bl_dials s')))"
proof -
  have li: "loop_inv own server_url s" using net_inv_reach [OF assms(1)] by (simp add: net_inv_def assms(2))
  let ?B = "stale_set now (bl_registry s)" and ?u = "dl_gateway (bl_dials s ! c)"
  have reg': "bl_registry s' = without ?B (bl_registry s)"
    using set_stale_ids [OF assms(6)] by (simp add: assms(7) check_timeouts_def deregister_all_without)
  have bid: "bid \<in> ?B" using assms(3,4) by (auto simp: stale_set_def)
  have "\<not> held c (bl_registry s')"
  proof
    assume "held c (bl_registry s')"
    then obtain b r' where "b \<notin> ?B" "rr_records (bl_registry s) b = Some r'" "br_gateway_shutdown_tx r' = Some c"
      by (auto simp: held_def reg' without_def ran_def restrict_map_def split: if_splits)
    with sender_unique [OF li assms(3,5)] bid show False by auto
  qed
  moreover have "br_gateway_url r = Some ?u"
    using li assms(3,5) by (auto simp: loop_inv_def all_gateways_def sender_inv_def ran_def)
  then have known: "\<not> is_gateway_known ?u (bl_registry s')"
    using bid assms(3) by (auto simp: reg' without_def is_gateway_known_def dead_gateways_def)
  moreover have "length (bl_dials (beacon_message pv server_url t msg s')) = Suc (length (bl_dials s'))"
    if "advertised_gateway (beacon_payload pv (mm_payload msg)) = Some ?u" for t msg
    using known that by (simp add: beacon_message_def open_gateway_def is_gateway_known_def Let_def)
  ultimately show ?thesis by blast
qed

text \<open>A beacon \<open>b\<close> that advertises the gateway \<open>http://g\<close>, and the network after that.\<close>

definition demo_channel :: topic_channel where
  "demo_channel = \<lparr>ch_beacon_id = ''b'', ch_topic = \<lparr>tc_topic = ''b/cast'', tc_qos = 1\<rparr>, ch_topic_type = Broadcast\<rparr>"

definition demo_inputs :: "loop_input list" where
  "demo_inputs = [NewChannel (\<lambda>_ _. Ok ()) 0 demo_channel, Inbound 0 (demo_msg ''b/rec'')]"

definition demo_after :: "loop_input list \<Rightarrow> network" where
  "demo_after is = fold (\<lambda>i n. let s' = beacon_step demo_pv ''http://me'' i (nw_loop n) in
      n\<lparr>nw_loop := s', nw_tasks := fold (open_connection (\<lambda>j. Ok []) (\<lambda>t. None) ''http://me'') (dialled (nw_loop n) s') (nw_tasks n)\<rparr>)
    is (network_init None [])"

lemma demo_reach: "net_reach demo_pv (\<lambda>j. Ok []) (\<lambda>t. None) ''http://me'' None [] (demo_after is)"
proof (induction "is" rule: rev_induct)
  case Nil
  show ?case by (simp add: demo_after_def net_reach.net_start)
next
  case (snoc i "is")
  let ?n = "demo_after is"
  have "net_step demo_pv (\<lambda>j. Ok []) (\<lambda>t. None) ''http://me'' ?n (demo_after (is @ [i]))"
    using net_step.loop_input [OF refl, of demo_pv "\<lambda>j. Ok []" "\<lambda>t. None" "''http://me''" ?n i]
    by (simp add: demo_after_def Let_def)
  with snoc show ?case by (rule net_reach.net_next)
qed

lemmas demo_eval = demo_inputs_def demo_after_def demo_channel_def demo_pv_def demo_msg_def network_init_def beacon_loop_init_def
  registry_defs beacon_message_def beacon_payload_def advertised_gateway_def json_get_def register_channel_def touch_def
  open_gateway_def strip_suffix_def ends_with_def held_def dialled_def

lemma demo_loop:
  "bl_registry (nw_loop (demo_after demo_inputs)) = \<lparr>rr_records = [''b'' \<mapsto> \<lparr>br_listen_topic = [], br_broadcast_topic = ''b/cast'',
      br_last_seen = 0, br_gateway_url = Some ''http://g'', br_gateway_shutdown_tx = Some 0\<rparr>],
     rr_known_gateways = {''http://g''}, rr_broadcast_topics = [''b/cast'']\<rparr>"
  "bl_dials (nw_loop (demo_after demo_inputs)) =
     [\<lparr>dl_gateway = ''http://g'', dl_first = BeaconRegistration ''http://me'' (JObj [(''gateway_url'', JStr ''http://g'')]), dl_shutdown = 0\<rparr>]"
  by (simp_all add: demo_eval Let_def)


theorem dropped_connection_ends_witness:
  "\<exists>n'' ws t. (net_step demo_pv (\<lambda>j. Ok []) (\<lambda>t. None) ''http://me'')\<^sup>*\<^sup>* (demo_after [Inbound 0 (demo_msg ''b/rec'')]) n'' \<and>
     nw_tasks n'' 0 = Some (ws, t) \<and> ct_phase t = Ended"
proof -
  let ?n = "demo_after [Inbound 0 (demo_msg ''b/rec'')]"
  have "0 < bl_next_chan (nw_loop ?n)" "\<not> held 0 (bl_registry (nw_loop ?n))" by (simp_all add: demo_eval Let_def)
  from dropped_connection_ends [OF demo_reach this rtranclp.rtrancl_refl] show ?thesis by (meson relpowp_imp_rtranclp)
qed

theorem stale_connection_released_witness:
  "\<not> held 0 (bl_registry (beacon_step demo_pv ''http://me'' (TimeoutSweep [''b''] (121 * 10 ^ 9) None)
      (nw_loop (demo_after demo_inputs))))"
proof -
  let ?s = "nw_loop (demo_after demo_inputs)"
  obtain r where r: "rr_records (bl_registry ?s) ''b'' = Some r" "br_gateway_shutdown_tx r = Some 0" "br_last_seen r = 0"
    by (simp add: demo_loop)
  have "is_stale (121 * 10 ^ 9) r" using r(3) by (simp add: is_stale_def BEACON_TIMEOUT_def)
  moreover have "set [''b''] = dom (rr_records (bl_registry ?s))" by (simp add: demo_loop)
  ultimately show ?thesis using stale_connection_released [OF demo_reach refl r(1) _ r(2) _ refl] by blast
qed

end
