(* ===== verification/Broadcast_Schedule.thy ===== *)
theory Broadcast_Schedule
  imports Beacon_Loop
begin

section \<open>The broadcast loop over time (\<open>run_broadcast_loop\<close>, \<open>src/app.rs\<close>)\<close>

text \<open>
  The cycles of the loop under its timer, in nanoseconds since the timer was made. Of
  \<open>tokio::time::interval\<close> the documented behaviour is used: a period of zero panics; tick \<open>k\<close> is due at
  \<open>k\<close> periods; a tick that is late completes at once and does not move the later ones. What a cycle
  meets is its \<open>cycle_input\<close>: the environment of its calls, the topics at that time, the time its key
  calls take, the time its publications take, and the random number per topic.
\<close>

record cycle_input =
  ci_env :: cycle_env
  ci_topics :: "string list"
  ci_key_time :: nat
  ci_publish_time :: nat
  ci_random :: "64 word list"

definition base_interval :: "broadcast_state \<Rightarrow> nat" where
  "base_interval st = unat (bs_broadcast_interval st) * 10 ^ 9"

definition key_obtained :: "broadcast_state \<Rightarrow> cycle_input \<Rightarrow> key_table \<Rightarrow> bool" where
  "key_obtained st ci t \<longleftrightarrow>
     is_ok (fst (get_or_rotate_key (bs_key_management st) (cy_now_key (ci_env ci)) (cy_rotate (ci_env ci)) t))"

text \<open>
  How long a cycle takes: only its key call when that fails (\<open>continue\<close>); with jitter the sleeps
  and publications, then a sleep for what remains of the interval.
\<close>

definition cycle_time :: "broadcast_state \<Rightarrow> cycle_input \<Rightarrow> key_table \<Rightarrow> nat" where
  "cycle_time st ci t =
     (if \<not> key_obtained st ci t then ci_key_time ci
      else if bs_use_jitter st
      then let elapsed = sum_list (map (\<lambda>r. unat (jitter_secs r) * 10 ^ 9) (ci_random ci)) + ci_publish_time ci
           in ci_key_time ci + elapsed + (base_interval st - elapsed)
      else ci_key_time ci + ci_publish_time ci)"

type_synonym publication = "string \<times> qos \<times> string \<times> unit res"

text \<open>Cycle \<open>k\<close> starts when tick \<open>k\<close> is due and the cycle before has ended.\<close>

fun broadcast_cycles ::
  "(json \<Rightarrow> string) \<Rightarrow> broadcast_state \<Rightarrow> nat \<Rightarrow> nat \<Rightarrow> cycle_input list \<Rightarrow> key_table \<Rightarrow>
     (nat \<times> publication list) list \<times> key_table" where
  "broadcast_cycles render st k now [] t = ([], t)"
| "broadcast_cycles render st k now (ci # cis) t =
     (let start = max now (k * base_interval st);
          (pubs, t1) = broadcast_cycle render st (ci_env ci) (ci_topics ci) t;
          (runs, t2) = broadcast_cycles render st (Suc k) (start + cycle_time st ci t) cis t1
      in ((start, pubs) # runs, t2))"

text \<open>\<open>None\<close> is the panic of the timer.\<close>

definition run_broadcast_loop ::
  "(json \<Rightarrow> string) \<Rightarrow> broadcast_state \<Rightarrow> cycle_input list \<Rightarrow> key_table \<Rightarrow>
     ((nat \<times> publication list) list \<times> key_table) option" where
  "run_broadcast_loop render st cis t =
     (if bs_broadcast_interval st = 0 then None else Some (broadcast_cycles render st 0 0 cis t))"

subsection \<open>Facts\<close>

lemma broadcast_cycles_Cons:
  "fst (broadcast_cycles render st k now (ci # cis) t) =
     (max now (k * base_interval st), fst (broadcast_cycle render st (ci_env ci) (ci_topics ci) t)) #
     fst (broadcast_cycles render st (Suc k) (max now (k * base_interval st) + cycle_time st ci t) cis
       (snd (broadcast_cycle render st (ci_env ci) (ci_topics ci) t)))"
  "snd (broadcast_cycles render st k now (ci # cis) t) =
     snd (broadcast_cycles render st (Suc k) (max now (k * base_interval st) + cycle_time st ci t) cis
       (snd (broadcast_cycle render st (ci_env ci) (ci_topics ci) t)))"
  by (simp_all add: Let_def split: prod.splits)

lemma broadcast_cycles_length [simp]: "length (fst (broadcast_cycles render st k now cis t)) = length cis"
  by (induction cis arbitrary: k now t) (simp_all add: broadcast_cycles_Cons del: broadcast_cycles.simps(2))

text \<open>The key table at the start of each cycle.\<close>

fun tables :: "(json \<Rightarrow> string) \<Rightarrow> broadcast_state \<Rightarrow> cycle_input list \<Rightarrow> key_table \<Rightarrow> key_table list" where
  "tables render st [] t = []"
| "tables render st (ci # cis) t =
     t # tables render st cis (snd (broadcast_cycle render st (ci_env ci) (ci_topics ci) t))"

lemma broadcast_cycles_nth:
  assumes "i < length cis"
  shows "fst (broadcast_cycles render st k now cis t) ! i =
     (fst (fst (broadcast_cycles render st k now cis t) ! i),
      fst (broadcast_cycle render st (ci_env (cis ! i)) (ci_topics (cis ! i)) (tables render st cis t ! i)))"
  using assms
  by (induction cis arbitrary: k now t i)
    (auto simp: broadcast_cycles_Cons nth_Cons split: nat.splits simp del: broadcast_cycles.simps(2))

lemma cycle_starts:
  assumes "i < length cis"
  shows "(k + i) * base_interval st \<le> fst (fst (broadcast_cycles render st k now cis t) ! i)"
    and "Suc i < length cis \<Longrightarrow>
      fst (fst (broadcast_cycles render st k now cis t) ! Suc i) =
        max (fst (fst (broadcast_cycles render st k now cis t) ! i) + cycle_time st (cis ! i) (tables render st cis t ! i))
            ((k + Suc i) * base_interval st)"
  using assms
proof (induction cis arbitrary: k now t i)
  case (Cons ci cis)
  {
    case 1
    then show ?case using Cons.IH(1) [where k = "Suc k"]
      by (cases i) (auto simp: broadcast_cycles_Cons simp del: broadcast_cycles.simps(2))
  next
    case 2
    show ?case
    proof (cases i)
      case 0
      with 2 show ?thesis
        by (cases cis) (auto simp: broadcast_cycles_Cons simp del: broadcast_cycles.simps(2))
    next
      case (Suc j)
      with 2 Cons.IH(2) [where k = "Suc k" and i = j] show ?thesis
        by (simp add: broadcast_cycles_Cons del: broadcast_cycles.simps(2))
    qed
  }
qed simp_all

lemma key_wf_cycle:
  assumes "key_wf (bs_key_management st) t" and "env_ok (cy_rotate env)"
  shows "key_wf (bs_key_management st) (snd (broadcast_cycle render st env topics t))"
proof -
  have "key_wf (bs_key_management st) (snd (get_or_rotate_key (bs_key_management st) (cy_now_key env) (cy_rotate env) t))"
    using assms by (rule key_wf_get_or_rotate)
  then show ?thesis
    by (auto simp: broadcast_cycle_def Let_def key_wf_sweep split: prod.splits result.splits)
qed

lemma tables_wf:
  assumes "key_wf (bs_key_management st) t" and "\<forall>ci\<in>set cis. env_ok (cy_rotate (ci_env ci))"
  shows "list_all (key_wf (bs_key_management st)) (tables render st cis t)"
    and "key_wf (bs_key_management st) (snd (broadcast_cycles render st k now cis t))"
  using assms by (induction cis arbitrary: t k now)
    (simp_all add: key_wf_cycle broadcast_cycles_Cons del: broadcast_cycles.simps(2))

subsection \<open>Properties\<close>

text \<open>
  C26: The schedule of the broadcasts. A zero interval ends the loop at once with a panic. Otherwise
  cycle \<open>i\<close> never starts before \<open>i\<close> intervals have passed; as long as no cycle takes longer than the
  interval it starts exactly then; a cycle that follows one with a key and jitter starts at least
  one interval later; and a cycle that follows a late one starts as soon as that one has ended.
\<close>

theorem broadcast_schedule:
  assumes "P = unat (bs_broadcast_interval st) * 10 ^ 9"
    and "start = (\<lambda>i. fst (fst (broadcast_cycles render st 0 0 cis t) ! i))"
    and "lasts = (\<lambda>i. cycle_time st (cis ! i) (tables render st cis t ! i))"
  shows "(run_broadcast_loop render st cis t = None \<longleftrightarrow> P = 0) \<and>
    (\<forall>i<length cis. i * P \<le> start i \<and>
       ((\<forall>j<i. lasts j \<le> P) \<longrightarrow> start i = i * P) \<and>
       (Suc i < length cis \<longrightarrow>
          (bs_use_jitter st \<and> key_obtained st (cis ! i) (tables render st cis t ! i) \<longrightarrow> start i + P \<le> start (Suc i)) \<and>
          (Suc i * P \<le> start i + lasts i \<longrightarrow> start (Suc i) = start i + lasts i)))"
proof -
  have P: "base_interval st = P" by (simp add: base_interval_def assms(1))
  have "unat (bs_broadcast_interval st) = 0 \<longleftrightarrow> bs_broadcast_interval st = 0" by (rule unat_eq_zero)
  then have zero: "run_broadcast_loop render st cis t = None \<longleftrightarrow> P = 0" by (simp add: run_broadcast_loop_def assms(1))
  have low: "i * P \<le> start i" if "i < length cis" for i
    using cycle_starts(1) [OF that, of 0 st render 0 t] by (simp add: P assms(2))
  have nxt: "start (Suc i) = max (start i + lasts i) (Suc i * P)" if "Suc i < length cis" for i
    using cycle_starts(2) [of i cis render st 0 0 t] that by (simp add: P assms(2,3))
  have exact: "start i = i * P" if "i < length cis" "\<forall>j<i. lasts j \<le> P" for i
    using that
  proof (induction i)
    case 0
    then show ?case by (cases cis) (simp_all add: assms(2) broadcast_cycles_Cons del: broadcast_cycles.simps(2))
  next
    case (Suc i)
    then show ?case using nxt [of i] by simp
  qed
  have "P \<le> lasts i" if "bs_use_jitter st" "key_obtained st (cis ! i) (tables render st cis t ! i)" for i
    using that by (simp add: assms(3) cycle_time_def Let_def P)
  then have jit: "start i + P \<le> start (Suc i)"
    if "Suc i < length cis" "bs_use_jitter st" "key_obtained st (cis ! i) (tables render st cis t ! i)" for i
    using nxt [OF that(1)] that(2,3) by (metis add_left_mono le_max_iff_disj)
  have late: "start (Suc i) = start i + lasts i" if "Suc i < length cis" "Suc i * P \<le> start i + lasts i" for i
    using nxt [OF that(1)] that(2) by (simp add: max_absorb1)
  from zero low exact jit late show ?thesis by blast
qed

lemma broadcast_interval_demo: "bs_broadcast_interval demo_bstate \<noteq> 0"
  by (simp add: demo_bstate_def)

definition demo_cycle_input :: cycle_input where
  "demo_cycle_input = \<lparr>ci_env = demo_cycle, ci_topics = [''a/cast''], ci_key_time = 0, ci_publish_time = 10 ^ 9, ci_random = []\<rparr>"

theorem broadcast_schedule_witness:
  "fst (fst (broadcast_cycles (\<lambda>j. []) demo_bstate 0 0 [demo_cycle_input, demo_cycle_input] []) ! 1) = 60 * 10 ^ 9"
proof -
  have "cycle_time demo_bstate demo_cycle_input t \<le> 60 * 10 ^ 9" for t
    by (simp add: cycle_time_def demo_bstate_def demo_cycle_input_def)
  then show ?thesis
    using broadcast_schedule [OF refl refl refl, of "\<lambda>j. []" demo_bstate "[demo_cycle_input, demo_cycle_input]" "[]"]
    by (auto simp: demo_bstate_def)
qed

text \<open>
  C25: Over the whole run of the loop, from any well-formed key table, cycle \<open>i\<close> publishes to the topics
  registered at its time exactly when it obtains a key, in list order, all with one payload that
  names the one active key; and the key table stays well formed throughout.
\<close>

theorem broadcast_run_spec:
  assumes "key_wf (bs_key_management st) t" and "\<forall>ci\<in>set cis. env_ok (cy_rotate (ci_env ci))"
    and "run_broadcast_loop render st cis t = Some (runs, t')" and "i < length cis"
    and "ti = tables render st cis t ! i" and "pubs = snd (runs ! i)"
  shows "key_wf (bs_key_management st) t' \<and> length runs = length cis \<and> key_wf (bs_key_management st) ti \<and>
    (if key_obtained st (cis ! i) ti
     then map fst pubs = ci_topics (cis ! i) \<and>
       (\<exists>r tok. active_rows (snd (get_or_rotate_key (bs_key_management st) (cy_now_key (ci_env (cis ! i))) (cy_rotate (ci_env (cis ! i))) ti)) = [r] \<and>
          (\<forall>p\<in>set pubs. fst (snd p) = AtLeastOnce \<and> fst (snd (snd p)) =
             render (broadcast_payload (bs_server_url st) (hex_encode (kr_key_id r), tok))))
     else pubs = [])"
proof -
  let ?km = "bs_key_management st" and ?env = "ci_env (cis ! i)"
  have runs: "runs = fst (broadcast_cycles render st 0 0 cis t)" "t' = snd (broadcast_cycles render st 0 0 cis t)"
    using assms(3) by (auto simp: run_broadcast_loop_def split: if_splits)
  have len: "length (tables render st cis t) = length cis" by (induction cis arbitrary: t) simp_all
  have wf: "key_wf ?km ti" using tables_wf(1) [OF assms(1,2)] assms(4,5) len by (simp add: list_all_length)
  have ok: "env_ok (cy_rotate ?env)" using assms(2,4) by simp
  have pubs: "pubs = fst (broadcast_cycle render st ?env (ci_topics (cis ! i)) ti)"
    using broadcast_cycles_nth [OF assms(4), of render st 0 0 t] runs assms(5,6) by (metis snd_conv)
  obtain res t1 where g: "get_or_rotate_key ?km (cy_now_key ?env) (cy_rotate ?env) ti = (res, t1)" by fastforce
  show ?thesis
  proof (cases res)
    case (Err e)
    then show ?thesis using tables_wf(2) [OF assms(1,2)] wf g pubs runs
      by (simp add: key_obtained_def broadcast_cycle_def)
  next
    case (Ok k)
    obtain r where r: "active_rows t1 = [r]" "key_of_row r = k"
      using get_or_rotate_active [OF wf ok] g Ok by metis
    then have "fst (ota_fields (cy_hmac ?env) ?km (cy_now_token ?env) k) = hex_encode (kr_key_id r)"
      by (auto simp: ota_fields_def key_of_row_def)
    then obtain tok where "ota_fields (cy_hmac ?env) ?km (cy_now_token ?env) k = (hex_encode (kr_key_id r), tok)"
      by (metis prod.collapse)
    then show ?thesis using tables_wf(2) [OF assms(1,2)] wf g Ok pubs runs r
      by (auto simp: key_obtained_def broadcast_cycle_def Let_def comp_def)
  qed
qed

theorem broadcast_run_spec_witness:
  "key_wf ex_km (snd (the (run_broadcast_loop (\<lambda>j. []) demo_bstate [demo_cycle_input] [])))"
proof -
  have 1: "key_wf (bs_key_management demo_bstate) []" "\<forall>ci\<in>set [demo_cycle_input]. env_ok (cy_rotate (ci_env ci))"
    by (simp_all add: key_wf_def active_rows_def demo_cycle_input_def demo_cycle_def env_ok_def ex_env_def)
  obtain runs t' where 2: "run_broadcast_loop (\<lambda>j. []) demo_bstate [demo_cycle_input] [] = Some (runs, t')"
    by (metis (no_types) broadcast_interval_demo run_broadcast_loop_def prod.collapse)
  have "0 < length [demo_cycle_input]" by simp
  from broadcast_run_spec [OF 1 2 this refl refl] 2 show ?thesis by (simp add: demo_bstate_def)
qed

end
