(* ===== verification/App.thy ===== *)
theory App
  imports Beacon_Loop
begin

section \<open>Start-up of the application (\<open>src/app.rs\<close>)\<close>

text \<open>
  \<open>App::initialize\<close> from the detection of binaries to the running services, in the source's
  order: an error of the CA or of a certificate file ends the process; the broker, the HTTP
  gateway, the MQTT client and the cloud gateway client are registered on one supervisor, which
  is then spawned and asked to start them. The start-up waits for the MQTT client's first
  connection when a broker is installed: \<open>ie_connected\<close> is what that wait returned, \<open>None\<close> when
  it never returns.
\<close>

subsection \<open>Start-up of the MQTT client (\<open>mqtt_client/manager.rs\<close>)\<close>

definition provision_node_identity ::
  "('kp, 'cert, 'csr, 'ip) rcgen \<Rightarrow> 'kp res \<Rightarrow> int \<Rightarrow> ca_faults \<Rightarrow> (string \<Rightarrow> unit res) \<Rightarrow> io_faults \<Rightarrow>
     mqtt_client_config \<Rightarrow> ('kp, 'cert) ca_service \<Rightarrow> files \<Rightarrow> unit res \<times> ('kp, 'cert) ca_service \<times> files" where
  "provision_node_identity rg generated now db create_dir_all faults cfg ca fs =
     (case mc_certfile cfg of
        None \<Rightarrow> (Err ''provision_node_identity requires a client cert path'', ca, fs) | Some certfile \<Rightarrow>
      case mc_keyfile cfg of
        None \<Rightarrow> (Err ''provision_node_identity requires a client key path'', ca, fs) | Some keyfile \<Rightarrow>
      case ensure_node_identity rg generated now db ca of
        (Err e, ca1) \<Rightarrow> (Err e, ca1, fs) | (Ok (cert_pem, key_pem), ca1) \<Rightarrow>
      case (case path_parent certfile of Some parent \<Rightarrow> create_dir_all parent | None \<Rightarrow> Ok ()) of
        Err e \<Rightarrow> (Err (''Failed to create cert dir: '' @ e), ca1, fs) | Ok _ \<Rightarrow>
      case fs_write faults certfile cert_pem fs of
        (Err e, fs1) \<Rightarrow> (Err (''Failed to write node cert: '' @ e), ca1, fs1) | (Ok _, fs1) \<Rightarrow>
      case fs_write faults keyfile key_pem fs1 of
        (Err e, fs2) \<Rightarrow> (Err (''Failed to write node key: '' @ e), ca1, fs2) | (Ok _, fs2) \<Rightarrow>
      (Ok (), ca1, fs2))"

definition mqtt_client_register_onto ::
  "(mqtt_client_service \<Rightarrow> 's) \<Rightarrow> chan \<Rightarrow> chan \<Rightarrow> chan \<Rightarrow> mqtt_client_config \<Rightarrow> bool \<Rightarrow> 's supervisor \<Rightarrow> 's supervisor" where
  "mqtt_client_register_onto wrap cmd_rx out_rx connected_tx config available sv =
     register MqttClient (wrap (mqtt_client_new config cmd_rx out_rx connected_tx)) available sv"

subsection \<open>Registration of the services\<close>

record ('kp, 'cert, 'csr, 'der, 'key, 'cfg, 'root) init_env =
  ie_run :: runner
  ie_ca :: "('kp, 'cert) ca_service res"
  ie_rcgen :: "('kp, 'cert, 'csr, ip_addr) rcgen"
  ie_broker_key :: "'kp res"
  ie_node_key :: "'kp res"
  ie_now :: int
  ie_db :: ca_faults
  ie_mkdir :: "string \<Rightarrow> unit res"
  ie_io :: io_faults
  ie_ifaddrs :: "sock_addr list option"
  ie_passwd :: passwd_tool
  ie_chans :: "nat \<Rightarrow> chan"
  ie_start :: "service_id \<Rightarrow> ('kp, 'cert, 'csr, 'der, 'key, 'cfg, 'root) service_env"
  ie_connected :: "bool option"
  ie_subscribe :: "string \<Rightarrow> qos \<Rightarrow> unit res"

definition assemble ::
  "('kp, 'cert, 'csr, 'der, 'key, 'cfg, 'root) init_env \<Rightarrow> ip_addr config \<Rightarrow> capabilities \<Rightarrow> string \<Rightarrow> files \<Rightarrow>
     bool \<times> bool \<times> service supervisor \<times> files" where
  "assemble ie config caps ca_pem fs =
     (let info = build_brokerage_info (cf_mqtt_brokerage config) ca_pem;
          (available, sv1, fs1) = brokerage_register_onto SMosquitto (ie_mkdir ie) (ie_io ie) (ie_passwd ie) caps
             (cf_mqtt_brokerage config) supervisor_new fs;
          sv2 = gateway_register_onto SGateway (cf_http config) info
             (if available then Some (cf_mqtt_brokerage config) else None) True sv1;
          sv3 = mqtt_client_register_onto SMqttClient (ie_chans ie 0) (ie_chans ie 1) (ie_chans ie 2)
             (cf_mqtt_client config) available sv2;
          (cloud, sv4) = gateway_mqtt_register_onto SGatewayMqtt (ie_chans ie 3) (cf_gateway_registration config) sv3
      in (available, cloud, sv4, fs1))"

subsection \<open>The start sequence\<close>

text \<open>
  The commands sent to the supervisor: up to the wait for the broker connection, and after it.
  Each \<open>start_*\<close> helper only logs an error, so a failed start does not stop the sequence.
\<close>

text \<open>
  The commands each start function of the managers sends; a failed start is logged and the
  start-up goes on.
\<close>

definition start_mosquitto_brokerage :: "bool \<Rightarrow> supervisor_command list" where
  "start_mosquitto_brokerage mosquitto_available = (if mosquitto_available then [Start Mosquitto] else [])"

definition start_mqtt_client :: "bool \<Rightarrow> supervisor_command list" where
  "start_mqtt_client mosquitto_available = (if mosquitto_available then [Start MqttClient] else [])"

definition start_gateway :: "supervisor_command list" where
  "start_gateway = [Start Gateway]"

definition start_gateway_mqtt :: "supervisor_command list" where
  "start_gateway_mqtt = [Start GatewayMqttClient]"

definition start_cloud_gateway :: "supervisor_command list" where
  "start_cloud_gateway = [Start CloudGateway]"

definition first_commands :: "bool \<Rightarrow> supervisor_command list" where
  "first_commands available = start_mosquitto_brokerage available @ start_mqtt_client available"

definition last_commands :: "bool \<Rightarrow> supervisor_command list" where
  "last_commands cloud = start_gateway @ (if cloud then start_gateway_mqtt else [])"

definition with_envs ::
  "('kp, 'cert, 'csr, 'der, 'key, 'cfg, 'root) init_env \<Rightarrow> supervisor_command list \<Rightarrow>
     ((('kp, 'cert, 'csr, 'der, 'key, 'cfg, 'root) service_env \<times>
       ('kp, 'cert, 'csr, 'der, 'key, 'cfg, 'root) service_env) \<times> supervisor_command) list" where
  "with_envs ie cmds = map (\<lambda>c. case target c of
      Some sid \<Rightarrow> ((ie_start ie sid, ie_start ie sid), c)
    | None \<Rightarrow> ((ie_start ie Gateway, ie_start ie Gateway), c)) cmds"

datatype ('kp, 'cert) init_outcome =
    Exits string
  | Waits "service supervisor"
  | Initialized "service supervisor" "(string \<times> qos) list" "('kp, 'cert) ca_service" files key_management

definition start_services ::
  "('kp, 'cert, 'csr, 'der, 'key, 'cfg, 'root) init_env \<Rightarrow> bool \<Rightarrow> bool \<Rightarrow> service supervisor \<Rightarrow>
     (service supervisor \<times> (string \<times> qos) list) option \<times> service supervisor" where
  "start_services ie available cloud sv =
     (let sv1 = snd (supervisor_loop services_vt (with_envs ie (first_commands available)) sv);
          finish = (\<lambda>subs. (Some (snd (supervisor_loop services_vt (with_envs ie (last_commands cloud)) sv1), subs), sv1))
      in if \<not> available then finish []
         else case ie_connected ie of
           None \<Rightarrow> (None, sv1)
         | Some False \<Rightarrow> finish []
         | Some True \<Rightarrow> finish (snd (subscribe_all (ie_subscribe ie) required_subscriptions)))"

definition initialize ::
  "('kp, 'cert, 'csr, 'der, 'key, 'cfg, 'root) init_env \<Rightarrow> ip_addr config \<Rightarrow> files \<Rightarrow> ('kp, 'cert) init_outcome" where
  "initialize ie config fs =
     (let caps = detect_capabilities (ie_run ie) [''mosquitto'', ''mosquitto_passwd''] in
      case ie_ca ie of Err e \<Rightarrow> Exits (''Failed to initialise CA: '' @ e) | Ok ca \<Rightarrow>
      case ca_cert_pem (ie_rcgen ie) ca of Err e \<Rightarrow> Exits (''Failed to retrieve CA cert PEM: '' @ e) | Ok ca_pem \<Rightarrow>
      case (if mb_tls_enabled (cf_mqtt_brokerage config)
            then provision_mqtt_broker_cert (ie_rcgen ie) (ie_broker_key ie) (ie_mkdir ie) (ie_io ie) (ie_ifaddrs ie) ca
                   (cf_mqtt_brokerage config) fs
            else (Ok (), fs)) of (Err e, fs1) \<Rightarrow> Exits e | (Ok _, fs1) \<Rightarrow>
      (case assemble ie config caps ca_pem fs1 of (available, cloud, sv, fs2) \<Rightarrow>
       case (if mc_tls_mode (cf_mqtt_client config) = Mutual
             then provision_node_identity (ie_rcgen ie) (ie_node_key ie) (ie_now ie) (ie_db ie) (ie_mkdir ie) (ie_io ie)
                    (cf_mqtt_client config) ca fs2
             else (Ok (), ca, fs2)) of (Err e, ca1, fs3) \<Rightarrow> Exits e | (Ok _, ca1, fs3) \<Rightarrow>
       (case start_services ie available cloud sv of
          (None, sv') \<Rightarrow> Waits sv'
        | (Some (sv', subs), _) \<Rightarrow>
            Initialized sv' subs ca1 fs3
              (key_management_new (unat (bm_key_rotation_interval (cf_beacon_management config)))
                 (unat (bm_key_expiry (cf_beacon_management config)))))))"

text \<open>\<open>broadcast_state\<close>: what the broadcast loop is given of the application.\<close>

definition app_broadcast_state :: "ip_addr config \<Rightarrow> key_management \<Rightarrow> broadcast_state" where
  "app_broadcast_state config km =
     \<lparr>bs_server_url = gr_server_url (cf_gateway_registration config),
      bs_use_jitter = bm_use_jitter (cf_beacon_management config),
      bs_broadcast_interval = bm_broadcast_interval (cf_beacon_management config),
      bs_key_management = km\<rparr>"

subsection \<open>Facts\<close>

lemma assembled_assemble:
  "assemble ie config caps ca_pem fs = (available, cloud, sv, fs') \<Longrightarrow> assembled sv"
  by (auto simp: assemble_def brokerage_register_onto_def gateway_register_onto_def mqtt_client_register_onto_def
      gateway_mqtt_register_onto_def Let_def split: option.splits if_splits
      intro!: assembled.intros)
    (simp_all add: brokerage_service_of_def mosquitto_new_def mosquitto_up_def gateway_new_def gateway_up_def
      mqtt_client_new_def client_up_def gateway_mqtt_new_def gmqtt_svc_defs)

lemma supervisor_loop_snd:
  "snd (supervisor_loop vt cmds sv) = fold (\<lambda>(e, cmd). \<lambda>s. snd (handle_command vt e cmd s)) cmds sv"
  by (induction cmds arbitrary: sv)
    (auto simp: supervisor_loop_Cons_snd simp del: supervisor_loop.simps(2))

lemma supervisor_loop_append:
  "snd (supervisor_loop vt (xs @ ys) sv) = snd (supervisor_loop vt ys (snd (supervisor_loop vt xs sv)))"
  by (simp add: supervisor_loop_snd)

lemma assemble_statuses:
  assumes "assemble ie config caps ca_pem fs = (available, cloud, sv, fs')"
  shows "available = is_available caps ''mosquitto''"
    and "cloud \<longleftrightarrow> gr_gateway_url (cf_gateway_registration config) \<noteq> None \<and>
      gr_username (cf_gateway_registration config) \<noteq> [] \<and> gr_password (cf_gateway_registration config) \<noteq> []"
    and "statuses sv =
        [Mosquitto \<mapsto> (if available then Stopped else Unavailable), Gateway \<mapsto> Stopped,
         MqttClient \<mapsto> (if available then Stopped else Unavailable)]
        (GatewayMqttClient := (if cloud then Some Stopped else None))"
  using assms
  by (auto simp: assemble_def brokerage_register_onto_def gateway_register_onto_def mqtt_client_register_onto_def
      gateway_mqtt_register_onto_def register_def supervisor_new_def Let_def fun_eq_iff split: option.splits if_splits)

lemma start_stopped:
  assumes "sup_wf sv" and "statuses sv sid = Some Stopped"
  shows "(\<exists>p. statuses (snd (handle_start vt e sid sv)) sid = Some (Running p)) \<or>
    (\<exists>er. statuses (snd (handle_start vt e sid sv)) sid = Some (Failed er))"
  using assms by (cases rule: handle_start_cases [of sv sid vt e]) auto

lemma with_envs_snd [simp]: "map snd (with_envs ie cmds) = cmds"
  by (induction cmds) (auto simp: with_envs_def split: option.splits)

lemma with_envs_targets: "c \<in> set (with_envs ie cmds) \<Longrightarrow> snd c \<in> set cmds"
  using with_envs_snd [of ie cmds] by (metis image_eqI list.set_map)

lemma view_loop:
  "\<forall>c\<in>set cmds. target (snd c) \<noteq> Some sid \<Longrightarrow> view sid (snd (supervisor_loop vt cmds sv)) = view sid sv"
  by (rule supervisor_loop_induct) (force simp: view_handle_command)+

text \<open>What the start sequence leaves of the HTTP gateway, before and after the wait.\<close>

lemma command_lists:
  "first_commands available = (if available then [Start Mosquitto, Start MqttClient] else [])"
  "last_commands cloud = Start Gateway # (if cloud then [Start GatewayMqttClient] else [])"
  by (simp_all add: first_commands_def last_commands_def start_mosquitto_brokerage_def start_mqtt_client_def
      start_gateway_def start_gateway_mqtt_def)

lemma first_keeps_gateway:
  "view Gateway (snd (supervisor_loop vt (with_envs ie (first_commands available)) sv)) = view Gateway sv"
  by (rule view_loop) (auto simp: command_lists dest!: with_envs_targets split: if_splits)

lemma last_starts_gateway:
  assumes "sup_wf sv" and "statuses sv Gateway = Some Stopped"
  shows "(\<exists>p. statuses (snd (supervisor_loop vt (with_envs ie (last_commands cloud)) sv)) Gateway = Some (Running p)) \<or>
    (\<exists>er. statuses (snd (supervisor_loop vt (with_envs ie (last_commands cloud)) sv)) Gateway = Some (Failed er))"
proof -
  let ?e = "ie_start ie Gateway"
  let ?sv1 = "snd (handle_start vt ?e Gateway sv)"
  have "snd (supervisor_loop vt (with_envs ie (last_commands cloud)) sv) =
      snd (supervisor_loop vt (with_envs ie (if cloud then [Start GatewayMqttClient] else [])) ?sv1)"
    by (simp add: with_envs_def command_lists supervisor_loop_Cons_snd handle_command_snd del: supervisor_loop.simps(2))
  moreover have "view Gateway (snd (supervisor_loop vt (with_envs ie (if cloud then [Start GatewayMqttClient] else [])) ?sv1)) =
      view Gateway ?sv1"
    by (rule view_loop) (auto dest!: with_envs_targets split: if_splits)
  ultimately show ?thesis using start_stopped [OF assms, of vt ?e] by (simp add: view_def)
qed

lemma initialize_started:
  assumes "initialize ie config fs = out" and "\<forall>e. out \<noteq> Exits e"
  obtains available cloud sv ca_pem fs1 fs2 r sv1 where
    "assemble ie config (detect_capabilities (ie_run ie) [''mosquitto'', ''mosquitto_passwd'']) ca_pem fs1 =
       (available, cloud, sv, fs2)"
    "start_services ie available cloud sv = (r, sv1)"
    "out = Waits sv1 \<and> r = None \<or> (\<exists>sv' subs ca' fs' km. out = Initialized sv' subs ca' fs' km \<and> r = Some (sv', subs))"
proof -
  from assms obtain ca where ca: "ie_ca ie = Ok ca" by (cases "ie_ca ie") (auto simp: initialize_def)
  with assms obtain ca_pem where pem: "ca_cert_pem (ie_rcgen ie) ca = Ok ca_pem"
    by (cases "ca_cert_pem (ie_rcgen ie) ca") (auto simp: initialize_def)
  define prov where "prov = (if mb_tls_enabled (cf_mqtt_brokerage config)
            then provision_mqtt_broker_cert (ie_rcgen ie) (ie_broker_key ie) (ie_mkdir ie) (ie_io ie) (ie_ifaddrs ie) ca
                   (cf_mqtt_brokerage config) fs
            else (Ok (), fs))"
  obtain pr fs1 where p: "prov = (pr, fs1)" by fastforce
  obtain available cloud sv fs2 where a:
    "assemble ie config (detect_capabilities (ie_run ie) [''mosquitto'', ''mosquitto_passwd'']) ca_pem fs1 =
       (available, cloud, sv, fs2)" by (metis prod_cases4)
  define node where "node = (if mc_tls_mode (cf_mqtt_client config) = Mutual
             then provision_node_identity (ie_rcgen ie) (ie_node_key ie) (ie_now ie) (ie_db ie) (ie_mkdir ie) (ie_io ie)
                    (cf_mqtt_client config) ca fs2
             else (Ok (), ca, fs2))"
  obtain nr ca1 fs3 where n: "node = (nr, ca1, fs3)" by (metis prod_cases3)
  obtain r sv1 where st: "start_services ie available cloud sv = (r, sv1)" by fastforce
  note unf = initialize_def ca pem prov_def [symmetric] p a node_def [symmetric] n st Let_def
  from assms obtain u where "pr = Ok u" by (cases pr) (auto simp: unf)
  moreover from assms calculation obtain v where "nr = Ok v" by (cases nr) (auto simp: unf)
  ultimately have "out = (case r of None \<Rightarrow> Waits sv1 | Some (sv', subs) \<Rightarrow> Initialized sv' subs ca1 fs3
      (key_management_new (unat (bm_key_rotation_interval (cf_beacon_management config)))
         (unat (bm_key_expiry (cf_beacon_management config)))))"
    using assms(1) by (auto simp: unf split: option.splits)
  then show ?thesis by (intro that [OF a st]) (auto split: option.splits)
qed

subsection \<open>Properties\<close>

text \<open>
  C40: When initialisation completes, the supervisor manages the broker, the HTTP gateway, the
  MQTT client and, when its URL and credentials are configured, the cloud gateway client, and
  nothing else; the HTTP gateway has been started, or its start has failed and is reported so;
  a service reported running is up; and without an installed broker both MQTT services are
  unavailable and no topic is subscribed.
\<close>

theorem initialize_result:
  assumes "initialize ie config fs = Initialized sv' subs ca' fs' km"
  shows "dom (statuses sv') = {Mosquitto, Gateway, MqttClient} \<union>
      (if gr_gateway_url (cf_gateway_registration config) \<noteq> None \<and>
          gr_username (cf_gateway_registration config) \<noteq> [] \<and> gr_password (cf_gateway_registration config) \<noteq> []
       then {GatewayMqttClient} else {}) \<and>
    ((\<exists>p. statuses sv' Gateway = Some (Running p)) \<or> (\<exists>er. statuses sv' Gateway = Some (Failed er))) \<and>
    (\<forall>sid p. statuses sv' sid = Some (Running p) \<longrightarrow> (\<exists>s. services sv' sid = Some s \<and> service_up s)) \<and>
    (\<not> is_available (detect_capabilities (ie_run ie) [''mosquitto'', ''mosquitto_passwd'']) ''mosquitto'' \<longrightarrow>
       statuses sv' Mosquitto = Some Unavailable \<and> statuses sv' MqttClient = Some Unavailable \<and> subs = [])"
proof -
  obtain available cloud sv ca_pem fs1 fs2 r sv1 where
    a: "assemble ie config (detect_capabilities (ie_run ie) [''mosquitto'', ''mosquitto_passwd'']) ca_pem fs1 =
       (available, cloud, sv, fs2)"
    and st: "start_services ie available cloud sv = (r, sv1)" and r: "r = Some (sv', subs)"
    using initialize_started [OF assms] by (metis init_outcome.distinct(3,5) init_outcome.inject(3))
  let ?first = "with_envs ie (first_commands available)" and ?last = "with_envs ie (last_commands cloud)"
  have sv1: "sv1 = snd (supervisor_loop services_vt ?first sv)"
    and sv': "sv' = snd (supervisor_loop services_vt ?last sv1)"
    and subs: "\<not> available \<Longrightarrow> subs = []"
    using st r by (auto simp: start_services_def Let_def split: if_splits option.splits bool.splits)
  have ag: "all_services.sup_agrees sv" using assembled_assemble [OF a] by (rule assembled_agrees)
  have ag1: "all_services.sup_agrees sv1" unfolding sv1 by (rule all_services.sup_agrees_loop [OF ag])
  have ag': "all_services.sup_agrees sv'" unfolding sv' by (rule all_services.sup_agrees_loop [OF ag1])
  note stat = assemble_statuses [OF a]
  have wf: "sup_wf sv" "sup_wf sv1" using ag ag1 by (simp_all add: all_services.sup_agrees_def)
  have "dom (services sv') = dom (services sv)"
    using supervisor_loop_dom [OF wf(1), of services_vt ?first] supervisor_loop_dom [OF wf(2), of services_vt ?last]
    by (simp add: sv' sv1)
  then have d: "dom (statuses sv') = dom (statuses sv)"
    using agrees_statuses(1) [OF ag] agrees_statuses(1) [OF ag'] by simp
  have "statuses sv1 Gateway = Some Stopped"
    using first_keeps_gateway [of services_vt ie available sv] stat(3) by (simp add: sv1 view_def)
  from last_starts_gateway [OF wf(2) this, of services_vt ie cloud]
  have g: "(\<exists>p. statuses sv' Gateway = Some (Running p)) \<or> (\<exists>er. statuses sv' Gateway = Some (Failed er))"
    by (simp add: sv')
  have un: "statuses sv' sid = Some Unavailable" if "statuses sv sid = Some Unavailable" for sid
    using unavailable_loop [OF wf(1) that, of services_vt "?first @ ?last"] that
    by (simp add: supervisor_loop_append sv' sv1 view_def)
  have "dom (statuses sv) = {Mosquitto, Gateway, MqttClient} \<union> (if cloud then {GatewayMqttClient} else {})"
    by (auto simp: stat(3))
  with d g un agrees_statuses(3) [OF ag'] subs stat show ?thesis by simp
qed

text \<open>
  The WebSocket client, which the start-up above leaves out: registered with a gateway URL it is
  running after its start function, without one it is not known to the supervisor at all.
\<close>

theorem cloud_gateway_starts:
  assumes "cloud_register_onto SCloudGateway rx server_url url sv = (registered, sv1)"
    and "supervisor_loop services_vt (with_envs ie start_cloud_gateway) sv1 = (replies, sv2)"
    and "statuses sv CloudGateway = None"
  shows "if url = None then registered = False \<and> sv2 = sv \<and> replies = [Done (Err ''CloudGateway is not registered'')]
    else registered \<and> replies = [Done (Ok ())] \<and> (\<exists>p. statuses sv2 CloudGateway = Some (Running p))"
  using assms
  by (auto simp: cloud_register_onto_def start_cloud_gateway_def with_envs_def handle_command.simps handle_start_def register_def services_vt_def
      cloud_gateway_new_def cloud_gateway_vt_def cloud_gateway_start_def Let_def service_start_def
      split: option.splits)

definition demo_config :: "ip_addr config" where
  "demo_config = \<lparr>cf_mqtt_brokerage = demo_cfg\<lparr>mb_tls_enabled := False\<rparr>,
     cf_mqtt_client = \<lparr>mc_client_id = ''hamlet'', mc_host = ''localhost'', mc_port = 1883, mc_tls_mode = TlsNone,
       mc_cafile = None, mc_certfile = None, mc_keyfile = None, mc_username = ''u'', mc_password = ''p''\<rparr>,
     cf_http = \<lparr>hc_host = ''0.0.0.0'', hc_port = 8080, hc_tls_enabled = False, hc_upstream_port = 3000\<rparr>,
     cf_gateway_registration = \<lparr>gr_server_url = ''http://me'', gr_gateway_url = None, gr_username = [], gr_password = [],
       gr_broker_cafile = None, gr_broker_tls = True\<rparr>,
     cf_beacon_management = \<lparr>bm_use_jitter = False, bm_broadcast_interval = 60, bm_key_rotation_interval = 3600,
       bm_key_expiry = 7200\<rparr>,
     cf_config_dir = ''/c''\<rparr>"

definition demo_init :: "bool \<Rightarrow> (nat, nat \<times> nat, string, nat, nat, unit, nat) init_env" where
  "demo_init installed = \<lparr>ie_run = (\<lambda>b a. Some \<lparr>po_success = installed, po_stdout = ''/bin/m'', po_stderr = []\<rparr>),
     ie_ca = Ok demo_ca, ie_rcgen = demo_rcgen, ie_broker_key = Ok 3, ie_node_key = Ok 4, ie_now = 1000,
     ie_db = (\<lambda>s. None), ie_mkdir = (\<lambda>d. Ok ()), ie_io = (\<lambda>p. None), ie_ifaddrs = None,
     ie_passwd = (\<lambda>b a fs. (Err ''none'', fs)), ie_chans = id, ie_start = (\<lambda>sid. demo_senv),
     ie_connected = None, ie_subscribe = (\<lambda>t q. Ok ())\<rparr>"

lemma demo_available:
  "is_available (detect_capabilities (ie_run (demo_init installed)) [''mosquitto'', ''mosquitto_passwd'']) ''mosquitto'' = installed"
  by (simp add: is_available_def detect_capabilities_def detect_binary_def demo_init_def Let_def)

lemma demo_assemble:
  obtains cloud sv fs2 where "assemble (demo_init b) demo_config
      (detect_capabilities (ie_run (demo_init b)) [''mosquitto'', ''mosquitto_passwd'']) ''cc/ii'' Map.empty = (b, cloud, sv, fs2)"
proof (cases "assemble (demo_init b) demo_config
      (detect_capabilities (ie_run (demo_init b)) [''mosquitto'', ''mosquitto_passwd'']) ''cc/ii'' Map.empty")
  case (fields av cloud sv fs2)
  moreover have "av = b" using assemble_statuses(1) [OF fields] by (simp add: demo_available)
  ultimately show ?thesis using that by blast
qed

lemma demo_initialize:
  "\<exists>sv' subs ca' fs' km. initialize (demo_init False) demo_config Map.empty = Initialized sv' subs ca' fs' km"
  "\<exists>sv'. initialize (demo_init True) demo_config Map.empty = Waits sv'"
proof -
  have i: "ie_ca (demo_init b) = Ok demo_ca" "ie_rcgen (demo_init b) = demo_rcgen" "ie_connected (demo_init b) = None" for b
    by (simp_all add: demo_init_def)
  have c: "\<not> mb_tls_enabled (cf_mqtt_brokerage demo_config)" "mc_tls_mode (cf_mqtt_client demo_config) = TlsNone"
    by (simp_all add: demo_config_def)
  have pem: "ca_cert_pem demo_rcgen demo_ca = Ok ''cc/ii''"
    by (simp add: ca_cert_pem_def demo_defs numeral_eq_Suc)
  show "\<exists>sv' subs ca' fs' km. initialize (demo_init False) demo_config Map.empty = Initialized sv' subs ca' fs' km"
    by (rule demo_assemble [of False]) (simp add: initialize_def i c pem start_services_def Let_def)
  show "\<exists>sv'. initialize (demo_init True) demo_config Map.empty = Waits sv'"
    by (rule demo_assemble [of True]) (simp add: initialize_def i c pem start_services_def Let_def)
qed

theorem initialize_result_witness:
  "\<exists>sv' subs ca' fs' km. initialize (demo_init False) demo_config Map.empty = Initialized sv' subs ca' fs' km \<and>
     statuses sv' MqttClient = Some Unavailable"
proof -
  obtain sv' subs ca' fs' km where
    i: "initialize (demo_init False) demo_config Map.empty = Initialized sv' subs ca' fs' km"
    using demo_initialize(1) by blast
  from initialize_result [OF i] i show ?thesis by (auto simp: demo_available)
qed

text \<open>
  While the MQTT client has not connected to an installed broker, initialisation waits, for
  ever if need be, and the HTTP gateway is registered but not started: no device can reach it.
\<close>

theorem initialize_waits_before_gateway:
  assumes "initialize ie config fs = Waits sv'"
  shows "statuses sv' Gateway = Some Stopped \<and> ie_connected ie = None \<and>
    is_available (detect_capabilities (ie_run ie) [''mosquitto'', ''mosquitto_passwd'']) ''mosquitto''"
proof -
  obtain available cloud sv ca_pem fs1 fs2 r where
    a: "assemble ie config (detect_capabilities (ie_run ie) [''mosquitto'', ''mosquitto_passwd'']) ca_pem fs1 =
       (available, cloud, sv, fs2)"
    and st: "start_services ie available cloud sv = (r, sv')" and r: "r = None"
    using initialize_started [OF assms] by (metis init_outcome.distinct(1,5) init_outcome.inject(2))
  have av: "available" "ie_connected ie = None" "sv' = snd (supervisor_loop services_vt (with_envs ie (first_commands available)) sv)"
    using st r by (auto simp: start_services_def Let_def split: if_splits option.splits bool.splits)
  with first_keeps_gateway [of services_vt ie available sv] assemble_statuses [OF a] show ?thesis
    by (simp add: view_def)
qed

theorem initialize_waits_before_gateway_witness:
  "\<exists>sv'. initialize (demo_init True) demo_config Map.empty = Waits sv' \<and> statuses sv' Gateway = Some Stopped"
proof -
  obtain sv' where i: "initialize (demo_init True) demo_config Map.empty = Waits sv'" using demo_initialize(2) by blast
  from initialize_waits_before_gateway [OF i] i show ?thesis by blast
qed

text \<open>
  When the node identity has been provisioned, the certificate and key files hold the
  identity kept in the database, the same one at every start; only these two files change.
\<close>

theorem node_identity_written:
  assumes "provision_node_identity rg generated now db create_dir_all faults cfg ca fs = (Ok (), ca', fs')"
    and "mc_certfile cfg \<noteq> mc_keyfile cfg"
  shows "\<exists>cert key row. mc_certfile cfg = Some cert \<and> mc_keyfile cfg = Some key \<and>
    db_node_identity (ca_pool ca') = Some row \<and> fs' = fs(cert \<mapsto> ni_cert_pem row, key \<mapsto> ni_key_pem row) \<and>
    (\<forall>old. db_node_identity (ca_pool ca) = Some old \<longrightarrow> row = old)"
proof -
  obtain cert key where f: "mc_certfile cfg = Some cert" "mc_keyfile cfg = Some key"
    using assms(1) by (auto simp: provision_node_identity_def split: option.splits)
  obtain r ca1 where e: "ensure_node_identity rg generated now db ca = (r, ca1)" by fastforce
  with assms(1) f obtain cert_pem key_pem where r: "r = Ok (cert_pem, key_pem)"
    by (cases r) (auto simp: provision_node_identity_def)
  from assms(1) f e r have w: "ca' = ca1" "fs' = fs(cert \<mapsto> cert_pem, key \<mapsto> key_pem)"
    by (auto simp: provision_node_identity_def fs_write_Ok_iff split: option.splits result.splits prod.splits)
  have "\<exists>row. db_node_identity (ca_pool ca1) = Some row \<and> ni_cert_pem row = cert_pem \<and> ni_key_pem row = key_pem \<and>
      (\<forall>old. db_node_identity (ca_pool ca) = Some old \<longrightarrow> row = old)"
    using e r by (auto simp: ensure_node_identity_def split: option.splits result.splits)
  with f w show ?thesis by auto
qed

theorem node_identity_written_witness:
  "\<exists>ca' fs' row. provision_node_identity demo_rcgen (Ok 4) 1000 (\<lambda>s. None) (\<lambda>d. Ok ()) (\<lambda>p. None)
      (cf_mqtt_client demo_config\<lparr>mc_certfile := Some ''/c/n.crt'', mc_keyfile := Some ''/c/n.key''\<rparr>) demo_ca Map.empty =
      (Ok (), ca', fs') \<and> fs' ''/c/n.crt'' = Some (ni_cert_pem row) \<and> db_node_identity (ca_pool ca') = Some row"
proof -
  let ?cfg = "cf_mqtt_client demo_config\<lparr>mc_certfile := Some ''/c/n.crt'', mc_keyfile := Some ''/c/n.key''\<rparr>"
  have "\<exists>ca' fs'. provision_node_identity demo_rcgen (Ok 4) 1000 (\<lambda>s. None) (\<lambda>d. Ok ()) (\<lambda>p. None) ?cfg demo_ca Map.empty =
      (Ok (), ca', fs')"
    by (simp add: provision_node_identity_def ensure_node_identity_def run_stmt_def generate_node_identity_def
        demo_defs fs_write_def split: option.split)
  then obtain ca' fs' where p: "provision_node_identity demo_rcgen (Ok 4) 1000 (\<lambda>s. None) (\<lambda>d. Ok ()) (\<lambda>p. None) ?cfg demo_ca Map.empty =
      (Ok (), ca', fs')" by blast
  from node_identity_written [OF p] p show ?thesis by auto
qed

end
