(* ===== verification/Node.thy ===== *)
theory Node
  imports Connections Broadcast_Schedule App
begin

section \<open>The running node (\<open>src/main.rs\<close>, \<open>src/app.rs\<close>)\<close>

text \<open>
  After start-up three things run side by side: the HTTP gateway serves requests, the beacon message
  loop takes topic channels, sweeps and messages and keeps its gateway connections, and the
  broadcast loop publishes. They share the queue of topic channels, the list of broadcast topics and
  the database. A step of the node is a step of one of them.

  The broadcast loop holds the read lock of the topic list from the moment it reads it to the end of
  its cycle, its sleeps included (the guard is a local of the loop's body); meanwhile no step of the
  message loop can change the list. What the steps assume of a request's environment is \<open>U\<close>.
\<close>

subsection \<open>State\<close>

record node_params =
  np_pv :: payload_env
  np_ser :: "json \<Rightarrow> string res"
  np_parse :: "string \<Rightarrow> json option"
  np_render :: "json \<Rightarrow> string"
  np_app :: app_state
  np_broadcast :: broadcast_state

text \<open>
  \<open>nd_hand\<close> has the channel the message loop has taken from the queue and is registering, with the time
  it was taken; \<open>nd_round\<close> has the topics still to be published in the current cycle and the payload;
  \<open>nd_published\<close> and \<open>nd_issued\<close> record the publications made and the beacon ids handed out with
  the host names they were handed to.
\<close>

record ('kp, 'cert) node =
  nd_world :: "('kp, 'cert) world"
  nd_net :: network
  nd_keys :: key_table
  nd_hand :: "(nat \<times> topic_channel) option"
  nd_round :: "(string list \<times> string) option"
  nd_published :: "(string \<times> string) list"
  nd_issued :: "(string \<times> string) list"

definition node_init :: "('kp, 'cert) ca_service \<Rightarrow> files \<Rightarrow> string option \<Rightarrow> key_table \<Rightarrow> ('kp, 'cert) node" where
  "node_init ca fs own keys =
     \<lparr>nd_world = \<lparr>w_ca = ca, w_files = fs, w_queue = []\<rparr>, nd_net = network_init own [], nd_keys = keys,
      nd_hand = None, nd_round = None, nd_published = [], nd_issued = []\<rparr>"

text \<open>
  \<open>main\<close>: initialise, then spawn the two loops. The key table is what the database holds; \<open>None\<close> when
  the process exits during start-up or is still waiting in it.
\<close>

definition main_node ::
  "('kp, 'cert, 'csr, 'der, 'key, 'cfg, 'root) init_env \<Rightarrow> ip_addr config \<Rightarrow> files \<Rightarrow> key_table \<Rightarrow>
     (('kp, 'cert) node \<times> broadcast_state) option" where
  "main_node ie config fs keys =
     (case initialize ie config fs of
        Initialized sv subs ca fs' km \<Rightarrow>
          Some (node_init ca fs' (gr_gateway_url (cf_gateway_registration config)) keys, app_broadcast_state config km)
      | _ \<Rightarrow> None)"

abbreviation topics :: "('kp, 'cert) node \<Rightarrow> string list" where
  "topics n \<equiv> rr_broadcast_topics (bl_registry (nw_loop (nd_net n)))"

abbreviation queue :: "('kp, 'cert) node \<Rightarrow> topic_channel list" where
  "queue n \<equiv> w_queue (nd_world n)"

definition incoming :: "('kp, 'cert) node \<Rightarrow> topic_channel list" where
  "incoming n = (case nd_hand n of Some (now, ch) \<Rightarrow> [ch] | None \<Rightarrow> []) @ queue n"

lemma incoming_simps [simp]:
  "incoming (n\<lparr>nd_net := net\<rparr>) = incoming n" "incoming (n\<lparr>nd_keys := keys\<rparr>) = incoming n"
  "incoming (n\<lparr>nd_round := r\<rparr>) = incoming n" "incoming (n\<lparr>nd_published := p\<rparr>) = incoming n"
  "incoming (n\<lparr>nd_issued := is\<rparr>) = incoming n" "incoming (node_init ca fs own keys) = []"
  by (simp_all add: incoming_def node_init_def)

subsection \<open>Steps\<close>

definition accepted :: "('kp, 'cert, 'csr) http_env \<Rightarrow> request \<Rightarrow> response \<Rightarrow> (string \<times> string) list" where
  "accepted env req resp =
     (if \<not> contains_key req HEADER_HEALTH \<and> contains_key req HEADER_INIT \<and> rs_status resp = 200
      then case process_init (he_device_json env) req of
        Ok rq \<Rightarrow> [(he_uuid env, md_hostname (di_mdns (dq_device rq)))] | Err r \<Rightarrow> []
      else [])"

definition loop_move :: "node_params \<Rightarrow> loop_input \<Rightarrow> network \<Rightarrow> network" where
  "loop_move P i net =
     (let s' = beacon_step (np_pv P) (bs_server_url (np_broadcast P)) i (nw_loop net) in
      net\<lparr>nw_loop := s', nw_tasks := fold (open_connection (np_ser P) (np_parse P) (bs_server_url (np_broadcast P)))
        (dialled (nw_loop net) s') (nw_tasks net)\<rparr>)"

definition lock_allows :: "('kp, 'cert) node \<Rightarrow> network \<Rightarrow> bool" where
  "lock_allows n net' \<longleftrightarrow> nd_round n = None \<or> rr_broadcast_topics (bl_registry (nw_loop net')) = topics n"

fun is_new_channel :: "loop_input \<Rightarrow> bool" where
  "is_new_channel (NewChannel s t c) = True"
| "is_new_channel _ = False"

inductive node_step ::
  "node_params \<Rightarrow> (('kp, 'cert) node \<Rightarrow> ('kp, 'cert, 'csr) http_env \<Rightarrow> bool) \<Rightarrow> ('kp, 'cert) node \<Rightarrow> ('kp, 'cert) node \<Rightarrow> bool"
  for P U where
  serve: "U n env \<Longrightarrow> dispatch env (np_app P) req (nd_world n) = (resp, w') \<Longrightarrow>
     node_step P U n (n\<lparr>nd_world := w', nd_issued := nd_issued n @ accepted env req resp\<rparr>)"
| take_channel: "nd_hand n = None \<Longrightarrow> queue n = ch # q \<Longrightarrow>
     node_step P U n (n\<lparr>nd_world := (nd_world n)\<lparr>w_queue := q\<rparr>, nd_hand := Some (now, ch)\<rparr>)"
| register: "nd_hand n = Some (now, ch) \<Longrightarrow> net' = loop_move P (NewChannel subscribe now ch) (nd_net n) \<Longrightarrow> lock_allows n net' \<Longrightarrow>
     node_step P U n (n\<lparr>nd_net := net', nd_hand := None\<rparr>)"
| loop_moves: "nd_hand n = None \<Longrightarrow> \<not> is_new_channel i \<Longrightarrow> net' = loop_move P i (nd_net n) \<Longrightarrow> lock_allows n net' \<Longrightarrow>
     node_step P U n (n\<lparr>nd_net := net'\<rparr>)"
| connection: "nw_tasks (nd_net n) c = Some (ws_url, t) \<Longrightarrow>
     cg_step (np_ser P) (np_parse P) (bs_server_url (np_broadcast P)) ev t = Some t' \<Longrightarrow>
     \<forall>m. ev \<noteq> EvEnqueue m \<Longrightarrow> (ev = EvShutdown \<Longrightarrow> \<not> held c (bl_registry (nw_loop (nd_net n)))) \<Longrightarrow>
     node_step P U n (n\<lparr>nd_net := (nd_net n)\<lparr>nw_tasks := (nw_tasks (nd_net n))(c \<mapsto> (ws_url, t'))\<rparr>\<rparr>)"
| cycle_skipped: "nd_round n = None \<Longrightarrow> env_ok (cy_rotate (env :: cycle_env)) \<Longrightarrow>
     get_or_rotate_key (bs_key_management (np_broadcast P)) (cy_now_key env) (cy_rotate env) (nd_keys n) = (Err e, keys) \<Longrightarrow>
     node_step P U n (n\<lparr>nd_keys := keys\<rparr>)"
| cycle_starts: "nd_round n = None \<Longrightarrow> env_ok (cy_rotate (env :: cycle_env)) \<Longrightarrow>
     get_or_rotate_key (bs_key_management (np_broadcast P)) (cy_now_key env) (cy_rotate env) (nd_keys n) = (Ok key, keys) \<Longrightarrow>
     payload = np_render P (broadcast_payload (bs_server_url (np_broadcast P))
       (ota_fields (cy_hmac env) (bs_key_management (np_broadcast P)) (cy_now_token env) key)) \<Longrightarrow>
     node_step P U n (n\<lparr>nd_keys := snd (sweep_expired (cy_now_sweep env) (cy_sweep_faults env) keys),
       nd_round := Some (topics n, payload)\<rparr>)"
| publish: "nd_round n = Some (topic # rest, payload) \<Longrightarrow>
     node_step P U n (n\<lparr>nd_round := Some (rest, payload), nd_published := nd_published n @ [(topic, payload)]\<rparr>)"
| cycle_ends: "nd_round n = Some ([], payload) \<Longrightarrow> node_step P U n (n\<lparr>nd_round := None\<rparr>)"

inductive node_reach ::
  "node_params \<Rightarrow> (('kp, 'cert) node \<Rightarrow> ('kp, 'cert, 'csr) http_env \<Rightarrow> bool) \<Rightarrow> ('kp, 'cert) node \<Rightarrow> ('kp, 'cert) node \<Rightarrow> bool"
  for P U n0 where
  node_start: "node_reach P U n0 n0"
| node_next: "node_reach P U n0 n \<Longrightarrow> node_step P U n n' \<Longrightarrow> node_reach P U n0 n'"

subsection \<open>The registry holds what the handshakes gave it\<close>

definition channel_of :: "string set \<Rightarrow> topic_channel \<Rightarrow> bool" where
  "channel_of I ch \<longleftrightarrow> (\<exists>bid\<in>I. ch = beacon_channel bid (bid @ ''/rec'') Listen \<or> ch = beacon_channel bid (bid @ ''/cast'') Broadcast)"

definition cast_of :: "string set \<Rightarrow> string \<Rightarrow> bool" where
  "cast_of I topic \<longleftrightarrow> (\<exists>bid\<in>I. topic = bid @ ''/cast'')"

definition record_of :: "string set \<Rightarrow> string \<Rightarrow> beacon_record \<Rightarrow> bool" where
  "record_of I bid r \<longleftrightarrow> bid \<in> I \<and> br_listen_topic r \<in> {[], bid @ ''/rec''} \<and> br_broadcast_topic r \<in> {[], bid @ ''/cast''}"

definition registry_of :: "string set \<Rightarrow> registry \<Rightarrow> bool" where
  "registry_of I reg \<longleftrightarrow> (\<forall>t\<in>set (rr_broadcast_topics reg). cast_of I t) \<and>
     (\<forall>bid r. rr_records reg bid = Some r \<longrightarrow> record_of I bid r)"

lemma registry_of_update:
  assumes "registry_of I reg" and "\<And>r. record_of I bid r \<Longrightarrow> record_of I bid (f r)"
  shows "registry_of I (update_record bid f reg)"
  using assms by (auto simp: registry_of_def update_record_def split: option.splits)

lemma registry_of_ensure: "registry_of I reg \<Longrightarrow> bid \<in> I \<Longrightarrow> registry_of I (ensure_record bid now reg)"
  by (auto simp: registry_of_def ensure_record_def record_of_def split: option.splits)

lemma registry_of_push: "registry_of I reg \<Longrightarrow> cast_of I t \<Longrightarrow> registry_of I (push_topic t reg)"
  by (auto simp: registry_of_def push_topic_def)

lemma registry_of_register:
  assumes "registry_of I reg" and "channel_of I ch"
  shows "registry_of I (register_channel subscribe now ch reg)"
proof -
  obtain bid where b: "bid \<in> I"
    "ch = beacon_channel bid (bid @ ''/rec'') Listen \<or> ch = beacon_channel bid (bid @ ''/cast'') Broadcast"
    using assms(2) by (auto simp: channel_of_def)
  have e: "registry_of I (ensure_record bid now reg)" using assms(1) b(1) by (rule registry_of_ensure)
  have "cast_of I (bid @ ''/cast'')" using b(1) by (auto simp: cast_of_def)
  with e have "registry_of I (push_topic (bid @ ''/cast'') (ensure_record bid now reg))" by (rule registry_of_push)
  with e b show ?thesis
    by (auto simp: register_channel_def beacon_channel_def Let_def record_of_def split: result.split intro!: registry_of_update)
qed

lemma registry_of_touch: "registry_of I reg \<Longrightarrow> registry_of I (touch now topic reg)"
  by (auto simp: touch_def update_last_seen_def record_of_def split: option.split intro!: registry_of_update)

lemma registry_of_deregister: "registry_of I reg \<Longrightarrow> registry_of I (snd (deregister bid r budget reg))"
  by (auto simp: deregister_def registry_of_def Let_def split: option.split if_splits)

lemma registry_of_deregister_all: "registry_of I reg \<Longrightarrow> registry_of I (deregister_all bids budget reg)"
proof (induction bids budget reg rule: deregister_all.induct)
  case (2 bid bids budget reg)
  show ?case
  proof (cases "rr_records reg bid")
    case (Some r)
    obtain b reg' where d: "deregister bid r budget reg = (b, reg')" by fastforce
    with registry_of_deregister [OF 2(3), of bid r budget] have "registry_of I reg'" by simp
    with Some d 2(2) show ?thesis by (cases b) (simp_all add: 2(2))
  qed (use 2 in simp)
qed simp

lemma registry_of_open:
  "registry_of I (bl_registry s) \<Longrightarrow> registry_of I (bl_registry (open_gateway server_url topic u payload s))"
proof -
  assume a: "registry_of I (bl_registry s)"
  then have i: "registry_of I (insert_gateway u (bl_registry s))" by (simp add: registry_of_def insert_gateway_def)
  then have "registry_of I (associate_gateway bid u c (insert_gateway u (bl_registry s)))" for bid c
    unfolding associate_gateway_def by (rule registry_of_update) (simp add: record_of_def)
  with i show ?thesis by (simp add: open_gateway_def Let_def split: option.split)
qed

lemma registry_of_step:
  assumes "registry_of I (bl_registry s)" and "\<And>sub now ch. i = NewChannel sub now ch \<Longrightarrow> channel_of I ch"
  shows "registry_of I (bl_registry (beacon_step pv server_url i s))"
proof (cases i)
  case (NewChannel sub now ch)
  with assms registry_of_register [OF assms(1) assms(2) [OF NewChannel]] show ?thesis by simp
next
  case (TimeoutSweep order now budget)
  with assms show ?thesis by (simp add: check_timeouts_def registry_of_deregister_all)
next
  case (Inbound now msg)
  have "registry_of I (bl_registry (s\<lparr>bl_registry := touch now (mm_topic msg) (bl_registry s)\<rparr>))"
    using registry_of_touch [OF assms(1)] by simp
  with Inbound registry_of_open [OF this] show ?thesis
    by (simp add: beacon_message_def Let_def split: option.split)
qed

subsection \<open>The invariant of the node\<close>

definition ids :: "('kp, 'cert) node \<Rightarrow> string set" where
  "ids n = fst ` set (nd_issued n)"

definition certified :: "('kp, 'cert) node \<Rightarrow> string \<Rightarrow> bool" where
  "certified n host \<longleftrightarrow> find_device (db_device_certs (ca_pool (w_ca (nd_world n)))) host \<noteq> None"

definition node_inv :: "node_params \<Rightarrow> string option \<Rightarrow> ('kp, 'cert) node \<Rightarrow> bool" where
  "node_inv P own n \<longleftrightarrow>
     list_all (channel_of (ids n)) (incoming n) \<and> registry_of (ids n) (bl_registry (nw_loop (nd_net n))) \<and>
     list_all (cast_of (ids n)) (case nd_round n of Some (ts, p) \<Rightarrow> ts | None \<Rightarrow> []) \<and>
     list_all (\<lambda>(t, p). cast_of (ids n) t) (nd_published n) \<and>
     list_all (\<lambda>(i, host). certified n host) (nd_issued n) \<and>
     key_wf (bs_key_management (np_broadcast P)) (nd_keys n) \<and>
     net_inv own (bs_server_url (np_broadcast P)) (nd_net n)"

lemma of_mono:
  "I \<subseteq> J \<Longrightarrow> channel_of I ch \<Longrightarrow> channel_of J ch" "I \<subseteq> J \<Longrightarrow> cast_of I t \<Longrightarrow> cast_of J t"
  "I \<subseteq> J \<Longrightarrow> registry_of I reg \<Longrightarrow> registry_of J reg"
  unfolding channel_of_def cast_of_def registry_of_def record_of_def by blast+

lemma accepted_cases:
  assumes "dispatch env st req w = (resp, w')"
  obtains (nothing) "w_queue w' = w_queue w" "accepted env req resp = []"
  | (device) rq :: device_init_request where "accepted env req resp = [(he_uuid env, md_hostname (di_mdns (dq_device rq)))]"
      "find_device (db_device_certs (ca_pool (w_ca w'))) (md_hostname (di_mdns (dq_device rq))) \<noteq> None"
      "\<exists>cs\<in>{[], [beacon_channel (he_uuid env) (he_uuid env @ ''/rec'') Listen],
          [beacon_channel (he_uuid env) (he_uuid env @ ''/cast'') Broadcast],
          [beacon_channel (he_uuid env) (he_uuid env @ ''/rec'') Listen, beacon_channel (he_uuid env) (he_uuid env @ ''/cast'') Broadcast]}.
        w_queue w' = w_queue w @ cs"
proof (cases "\<not> contains_key req HEADER_HEALTH \<and> contains_key req HEADER_INIT")
  case False
  then have "w_queue w' = w_queue w"
    using assms by (auto simp: dispatch_def handle_client_register_def Let_def split: if_splits result.splits prod.splits)
  then show ?thesis by (rule nothing) (use False in \<open>auto simp: accepted_def\<close>)
next
  case True
  then have d: "handle_device_init env st req w = (resp, w')" using assms by (simp add: dispatch_def)
  show ?thesis
  proof (cases rule: device_init_cases [of env req st w])
    case (accepted rq cert_pem ca fs)
    obtain i x where "ca = (w_ca w)\<lparr>ca_pool := (ca_pool (w_ca w))\<lparr>db_device_certs :=
        upsert_device (md_hostname (di_mdns (dq_device rq))) (cert_pem, i, x) (db_device_certs (ca_pool (w_ca w)))\<rparr>\<rparr>"
      using sign_csr_okD [OF accepted(2)] by blast
    then show ?thesis
      by (intro device [of rq]) (use accepted d True in \<open>auto simp: accepted_def find_upsert try_send_def\<close>)
  next
    case (rejected r)
    show ?thesis
      by (rule nothing) (use d rejected process_init_err_status [OF rejected(1)] in \<open>auto simp: accepted_def\<close>)
  qed (rule nothing; use d in \<open>auto simp: accepted_def\<close>)+
qed

lemma node_inv_serve:
  assumes "node_inv P own n" and "dispatch env (np_app P) req (nd_world n) = (resp, w')"
  shows "node_inv P own (n\<lparr>nd_world := w', nd_issued := nd_issued n @ accepted env req resp\<rparr>)" (is "node_inv P own ?n'")
proof -
  have ext: "ca_extends (w_ca (nd_world n)) (w_ca w')"
    using ca_extends_dispatch [of "nd_world n" env "np_app P" req] assms(2) by simp
  have sub: "ids n \<subseteq> ids ?n'" by (auto simp: ids_def)
  note mono = of_mono(1) [OF sub] of_mono(2) [OF sub] of_mono(3) [OF sub]
  have old: "list_all (channel_of (ids ?n')) (incoming n)" "registry_of (ids ?n') (bl_registry (nw_loop (nd_net n)))"
    "list_all (cast_of (ids ?n')) (case nd_round n of Some (ts, p) \<Rightarrow> ts | None \<Rightarrow> [])"
    "list_all (\<lambda>(t, p). cast_of (ids ?n') t) (nd_published n)"
    using assms(1) mono by (auto simp: node_inv_def list_all_iff)
  have cert: "list_all (\<lambda>(i, host). certified ?n' host) (nd_issued n)"
    using assms(1) ext by (auto simp: node_inv_def list_all_iff certified_def ca_extends_def)
  show ?thesis
  proof (cases rule: accepted_cases [OF assms(2)])
    case 1
    then show ?thesis using assms(1) old cert by (simp add: node_inv_def incoming_def)
  next
    case (2 rq)
    have "he_uuid env \<in> ids ?n'" using 2(1) by (simp add: ids_def)
    then have "list_all (channel_of (ids ?n')) (incoming ?n')" using 2(3) old(1) by (auto simp: channel_of_def incoming_def)
    then show ?thesis using assms(1) old cert 2(1,2) by (simp add: node_inv_def certified_def)
  qed
qed

lemma loop_move_net_step:
  "net_step (np_pv P) (np_ser P) (np_parse P) (bs_server_url (np_broadcast P)) net (loop_move P i net)"
  unfolding loop_move_def Let_def by (rule net_step.loop_input) (rule refl)

lemma loop_move_loop [simp]:
  "nw_loop (loop_move P i net) = beacon_step (np_pv P) (bs_server_url (np_broadcast P)) i (nw_loop net)"
  by (simp add: loop_move_def Let_def)

lemma node_inv_move:
  assumes "node_inv P own n" and "\<And>sub now ch. i = NewChannel sub now ch \<Longrightarrow> channel_of (ids n) ch"
  shows "node_inv P own (n\<lparr>nd_net := loop_move P i (nd_net n)\<rparr>)"
proof -
  have "registry_of (ids n) (bl_registry (nw_loop (loop_move P i (nd_net n))))"
    using assms registry_of_step [of "ids n" "nw_loop (nd_net n)" i] by (simp add: node_inv_def)
  moreover have "net_inv own (bs_server_url (np_broadcast P)) (loop_move P i (nd_net n))"
    using assms(1) net_inv_step [OF _ loop_move_net_step] by (auto simp: node_inv_def)
  ultimately show ?thesis using assms(1) by (simp add: node_inv_def ids_def certified_def)
qed

lemma node_inv_step:
  assumes "node_inv P own n" and "node_step P U n n'"
  shows "node_inv P own n'"
  using assms(2)
proof (cases rule: node_step.cases)
  case (serve env req resp w')
  then show ?thesis using node_inv_serve [OF assms(1)] by simp
next
  case (take_channel ch q now)
  then show ?thesis using assms(1) by (simp add: node_inv_def ids_def certified_def incoming_def)
next
  case (register now ch net' subscribe)
  have "channel_of (ids n) ch" "list_all (channel_of (ids n)) (queue n)"
    using assms(1) register(2) by (simp_all add: node_inv_def incoming_def)
  then show ?thesis using node_inv_move [OF assms(1), of "NewChannel subscribe now ch"] register
    by (simp add: node_inv_def ids_def certified_def incoming_def)
next
  case (loop_moves i net')
  then show ?thesis using node_inv_move [OF assms(1), of i] by (cases i) auto
next
  case (connection c ws_url t ev t')
  have "net_step (np_pv P) (np_ser P) (np_parse P) (bs_server_url (np_broadcast P)) (nd_net n)
      ((nd_net n)\<lparr>nw_tasks := (nw_tasks (nd_net n))(c \<mapsto> (ws_url, t'))\<rparr>)"
    using connection(2-5) by (rule net_step.task_event)
  with assms(1) connection(1) net_inv_step [OF _ this] show ?thesis
    by (auto simp: node_inv_def ids_def certified_def)
next
  case (cycle_skipped env e keys)
  then show ?thesis using assms(1) key_wf_get_or_rotate [of "bs_key_management (np_broadcast P)" "nd_keys n" "cy_rotate env" "cy_now_key env"]
    by (simp add: node_inv_def ids_def certified_def)
next
  case (cycle_starts env key keys payload)
  have "key_wf (bs_key_management (np_broadcast P)) keys"
    using assms(1) cycle_starts(3,4) key_wf_get_or_rotate [of "bs_key_management (np_broadcast P)" "nd_keys n" "cy_rotate env" "cy_now_key env"]
    by (simp add: node_inv_def)
  with assms(1) cycle_starts(1,2) show ?thesis
    by (auto simp: node_inv_def ids_def certified_def registry_of_def list_all_iff key_wf_sweep)
next
  case (publish topic rest payload)
  then show ?thesis using assms(1) by (simp add: node_inv_def ids_def certified_def)
next
  case (cycle_ends payload)
  then show ?thesis using assms(1) by (simp add: node_inv_def ids_def certified_def)
qed

lemma node_inv_init:
  assumes "key_wf (bs_key_management (np_broadcast P)) keys"
  shows "node_inv P own (node_init ca fs own keys)"
proof -
  have "net_inv own (bs_server_url (np_broadcast P)) (network_init own [])"
    by (rule net_inv_reach [OF net_reach.net_start])
  with assms show ?thesis
    by (simp add: node_inv_def) (simp add: node_init_def ids_def registry_of_def network_init_def beacon_loop_init_def registry_new_def)
qed

lemma node_inv_reach:
  assumes "node_reach P U (node_init ca fs own keys) n" and "key_wf (bs_key_management (np_broadcast P)) keys"
  shows "node_inv P own n"
  using assms(1)
  by (induction rule: node_reach.induct) (auto intro: node_inv_init [OF assms(2)] node_inv_step)

subsection \<open>Distinct topics and the bound of the queue\<close>

definition casts :: "topic_channel list \<Rightarrow> string list" where
  "casts q = map (\<lambda>ch. tc_topic (ch_topic ch)) (filter (\<lambda>ch. ch_topic_type ch = Broadcast) q)"

lemma casts_of: "list_all (channel_of I) q \<Longrightarrow> t \<in> set (casts q) \<Longrightarrow> cast_of I t"
  by (auto simp: casts_def channel_of_def cast_of_def list_all_iff beacon_channel_def)

lemma filter_some [simp, intro]: "\<exists>Q. xs = filter Q xs"
  by (rule exI [of _ "\<lambda>_. True"]) simp

lemma topics_deregister: "\<exists>Q. rr_broadcast_topics (snd (deregister bid r budget reg)) = filter Q (rr_broadcast_topics reg)"
  by (auto simp: deregister_def Let_def split: option.split if_splits)

lemma topics_deregister_all: "\<exists>Q. rr_broadcast_topics (deregister_all bids budget reg) = filter Q (rr_broadcast_topics reg)"
proof (induction bids budget reg rule: deregister_all.induct)
  case (1 budget reg)
  show ?case by simp
next
  case (2 bid bids budget reg)
  show ?case
  proof (cases "rr_records reg bid")
    case None
    with 2(1) show ?thesis by simp
  next
    case (Some r)
    obtain b reg' where d: "deregister bid r budget reg = (b, reg')" by fastforce
    obtain Q where Q: "rr_broadcast_topics reg' = filter Q (rr_broadcast_topics reg)"
      using topics_deregister [of bid r budget reg] d by auto
    show ?thesis
    proof (cases b)
      case None
      then show ?thesis using Some d Q by auto
    next
      case (Some b')
      obtain Q' where "rr_broadcast_topics (deregister_all bids b' reg') = filter Q' (rr_broadcast_topics reg')"
        using 2(2) [OF \<open>rr_records reg bid = Some r\<close> d [symmetric]] Some by blast
      then show ?thesis using \<open>rr_records reg bid = Some r\<close> d Some Q by (auto simp: filter_filter)
    qed
  qed
qed

lemma topics_inbound:
  "rr_broadcast_topics (bl_registry (beacon_step pv server_url (Inbound now msg) s)) = rr_broadcast_topics (bl_registry s)"
proof -
  have "rr_broadcast_topics (touch now tp reg) = rr_broadcast_topics reg" for tp reg
    by (simp add: touch_def update_last_seen_def update_record_def split: option.split)
  then show ?thesis
    by (simp add: beacon_message_def open_gateway_def associate_gateway_def update_record_def insert_gateway_def Let_def split: option.split)
qed

lemma topics_move:
  assumes "\<not> is_new_channel i"
  shows "\<exists>Q. rr_broadcast_topics (bl_registry (beacon_step pv server_url i s)) = filter Q (rr_broadcast_topics (bl_registry s))"
proof (cases i)
  case (TimeoutSweep order now budget)
  then show ?thesis using topics_deregister_all [of "stale_ids order now (bl_registry s)" budget "bl_registry s"]
    by (simp add: check_timeouts_def)
next
  case (Inbound now msg)
  then show ?thesis by (simp add: topics_inbound del: beacon_step.simps)
qed (use assms in simp)

lemma topics_register:
  "channel_of I ch \<Longrightarrow> rr_broadcast_topics (register_channel subscribe now ch reg) = rr_broadcast_topics reg @ casts [ch]"
  by (auto simp: channel_of_def beacon_channel_def register_channel_def casts_def push_topic_def update_record_def
      ensure_record_def Let_def split: option.split result.split)

definition node_fresh :: "('kp, 'cert) node \<Rightarrow> bool" where
  "node_fresh n \<longleftrightarrow> distinct (topics n @ casts (incoming n)) \<and> length (queue n) \<le> 64"

text \<open>What the code relies on: random identifiers do not repeat, the queue has 64 places.\<close>

definition fresh_requests :: "(('kp, 'cert) node \<Rightarrow> ('kp, 'cert, 'csr) http_env \<Rightarrow> bool) \<Rightarrow> bool" where
  "fresh_requests U \<longleftrightarrow> (\<forall>n env. U n env \<longrightarrow> he_uuid env \<notin> ids n \<and> (\<forall>q. he_accepts env q \<longrightarrow> length q < 64))"

lemma casts_simps [simp]:
  "casts (q @ q') = casts q @ casts q'" "casts [] = []" "casts (beacon_channel i t Listen # q) = casts q"
  "casts (beacon_channel i t Broadcast # q) = t # casts q"
  by (simp_all add: casts_def beacon_channel_def)

lemma queue_bound:
  assumes "dispatch env st req w = (resp, w')" and "\<forall>q. he_accepts env q \<longrightarrow> length q < 64" and "length (w_queue w) \<le> 64"
  shows "length (w_queue w') \<le> 64"
proof -
  have t: "length (w_queue (try_send env c v)) \<le> 64" if "length (w_queue v) \<le> 64" for c v
    using that assms(2) by (auto simp: try_send_def)
  have "length (w_queue (snd (handle_device_init env st req w))) \<le> 64"
    using assms(3) by (auto simp: handle_device_init_def Let_def split: result.split prod.split intro!: t)
  then show ?thesis using assms(1,3)
    by (auto simp: dispatch_def handle_client_register_def Let_def split: if_splits result.splits prod.splits)
qed

lemma node_fresh_serve:
  assumes "node_inv P own n" and "node_fresh n" and "he_uuid env \<notin> ids n" and "\<forall>q. he_accepts env q \<longrightarrow> length q < 64"
    and "dispatch env (np_app P) req (nd_world n) = (resp, w')"
  shows "distinct (topics n @ casts (incoming (n\<lparr>nd_world := w'\<rparr>))) \<and> length (w_queue w') \<le> 64"
proof -
  have "length (w_queue w') \<le> 64" using queue_bound [OF assms(5,4)] assms(2) by (simp add: node_fresh_def)
  moreover have "\<not> cast_of (ids n) (he_uuid env @ ''/cast'')" using assms(3) by (simp add: cast_of_def)
  then have "he_uuid env @ ''/cast'' \<notin> set (topics n) \<union> set (casts (incoming n))"
    using assms(1) casts_of [of "ids n" "incoming n"] by (auto simp: node_inv_def registry_of_def)
  then have "distinct (topics n @ casts (incoming (n\<lparr>nd_world := w'\<rparr>)))"
    using assms(2) by (cases rule: accepted_cases [OF assms(5)]) (auto simp: node_fresh_def disjoint_iff incoming_def)
  ultimately show ?thesis by blast
qed

lemma node_fresh_step:
  assumes "node_inv P own n" and "node_fresh n" and "fresh_requests U" and "node_step P U n n'"
  shows "node_fresh n'"
  using assms(4)
proof (cases rule: node_step.cases)
  case (serve env req resp w')
  then have "he_uuid env \<notin> ids n" "\<forall>q. he_accepts env q \<longrightarrow> length q < 64"
    using assms(3) by (auto simp: fresh_requests_def)
  with node_fresh_serve [OF assms(1,2) this serve(3)] serve(1) show ?thesis by (simp add: node_fresh_def incoming_def)
next
  case (take_channel ch q now)
  then show ?thesis using assms(2) by (simp add: node_fresh_def incoming_def)
next
  case (register now ch net' subscribe)
  have "channel_of (ids n) ch" using assms(1) register(2) by (simp add: node_inv_def incoming_def)
  from topics_register [OF this, of subscribe now] register assms(2) casts_simps(1) [of "[ch]" "queue n"]
  show ?thesis by (simp add: node_fresh_def incoming_def)
next
  case (loop_moves i net')
  obtain Q where "topics n' = filter Q (topics n)"
    using topics_move [OF loop_moves(3), of "np_pv P" "bs_server_url (np_broadcast P)" "nw_loop (nd_net n)"] loop_moves(1,4) by auto
  then show ?thesis using assms(2) loop_moves(1) by (auto simp: node_fresh_def incoming_def)
qed (use assms(2) in \<open>auto simp: node_fresh_def\<close>)

lemma node_fresh_reach:
  assumes "node_reach P U (node_init ca fs own keys) n" and "key_wf (bs_key_management (np_broadcast P)) keys" and "fresh_requests U"
  shows "node_fresh n"
  using assms(1)
proof (induction rule: node_reach.induct)
  case node_start
  show ?case by (simp add: node_fresh_def) (simp add: node_init_def network_init_def beacon_loop_init_def registry_new_def)
next
  case (node_next n n')
  then show ?case using node_fresh_step [OF node_inv_reach [OF _ assms(2)] _ assms(3)] by blast
qed

subsection \<open>The lock of the topic list\<close>

definition round_listed :: "('kp, 'cert) node \<Rightarrow> bool" where
  "round_listed n \<longleftrightarrow> (\<forall>ts payload. nd_round n = Some (ts, payload) \<longrightarrow> (\<exists>sent. topics n = sent @ ts))"

lemma round_listed_step:
  assumes "round_listed n" and "node_step P U n n'"
  shows "round_listed n'"
  using assms(2)
proof (cases rule: node_step.cases)
  case (publish topic rest payload)
  obtain sent where "topics n = sent @ topic # rest" using assms(1) publish(2) by (auto simp: round_listed_def)
  then have "topics n = (sent @ [topic]) @ rest" by simp
  then show ?thesis using publish(1) unfolding round_listed_def by auto
qed (use assms(1) in \<open>auto simp: round_listed_def lock_allows_def\<close>)

lemma round_listed_reach: "node_reach P U n0 n \<Longrightarrow> round_listed n0 \<Longrightarrow> round_listed n"
  by (induction rule: node_reach.induct) (auto intro: round_listed_step)

subsection \<open>A run that reaches a queued beacon\<close>

lemma topics_register_superset:
  "set (rr_broadcast_topics reg) \<union> set (casts [ch]) \<subseteq> set (rr_broadcast_topics (register_channel subscribe now ch reg))"
  by (auto simp: casts_def register_channel_def push_topic_def update_record_def ensure_record_def Let_def
      split: option.split topic_type.splits result.split)

lemma register_hand:
  assumes "nd_round n = None" and "nd_hand n = Some (now, ch)"
  shows "\<exists>n'. node_step P U n n' \<and> nd_round n' = None \<and> nd_hand n' = None \<and> nd_keys n' = nd_keys n \<and> queue n' = queue n \<and>
    set (topics n) \<union> set (casts [ch]) \<subseteq> set (topics n')"
proof -
  let ?net = "loop_move P (NewChannel (\<lambda>_ _. Ok ()) now ch) (nd_net n)"
  have "node_step P U n (n\<lparr>nd_net := ?net, nd_hand := None\<rparr>)"
    using assms(2) refl by (rule node_step.register) (simp add: lock_allows_def assms(1))
  then show ?thesis using assms topics_register_superset [of "bl_registry (nw_loop (nd_net n))" ch]
    by (intro exI [of _ "n\<lparr>nd_net := ?net, nd_hand := None\<rparr>"]) simp
qed

lemma drain_queue:
  assumes "nd_round n = None" and "nd_hand n = None"
  shows "\<exists>n'. (node_step P U)\<^sup>*\<^sup>* n n' \<and> nd_round n' = None \<and> nd_keys n' = nd_keys n \<and>
    set (topics n) \<union> set (casts (queue n)) \<subseteq> set (topics n')"
  using assms
proof (induction "queue n" arbitrary: n)
  case Nil
  then show ?case by (intro exI [of _ n]) (simp flip: Nil.hyps)
next
  case (Cons ch q)
  let ?n1 = "n\<lparr>nd_world := (nd_world n)\<lparr>w_queue := q\<rparr>, nd_hand := Some (0, ch)\<rparr>"
  have st: "node_step P U n ?n1" using Cons.prems(2) Cons.hyps(2) [symmetric] by (rule node_step.take_channel)
  obtain n2 where n2: "node_step P U ?n1 n2" "nd_round n2 = None" "nd_hand n2 = None" "nd_keys n2 = nd_keys n" "queue n2 = q"
    "set (topics n) \<union> set (casts [ch]) \<subseteq> set (topics n2)"
    using register_hand [of ?n1 0 ch P U] Cons.prems by auto
  obtain n' where n': "(node_step P U)\<^sup>*\<^sup>* n2 n'" "nd_round n' = None" "nd_keys n' = nd_keys n"
    "set (topics n2) \<union> set (casts q) \<subseteq> set (topics n')"
    using Cons.hyps(1) [of n2] n2(2-5) by auto
  have "casts (queue n) = casts [ch] @ casts q" by (simp flip: Cons.hyps(2) casts_simps(1))
  moreover have "(node_step P U)\<^sup>*\<^sup>* n n'" using st n2(1) n'(1) by (meson converse_rtranclp_into_rtranclp)
  ultimately show ?case using n'(2-4) n2(6) by (intro exI [of _ n']) (auto dest: subsetD)
qed

lemma drain_incoming:
  assumes "nd_round n = None"
  shows "\<exists>n'. (node_step P U)\<^sup>*\<^sup>* n n' \<and> nd_round n' = None \<and> nd_keys n' = nd_keys n \<and>
    set (topics n) \<union> set (casts (incoming n)) \<subseteq> set (topics n')"
proof (cases "nd_hand n")
  case None
  then show ?thesis using drain_queue [OF assms] by (simp add: incoming_def)
next
  case (Some h)
  then obtain now ch where h: "nd_hand n = Some (now, ch)" by (cases h) auto
  obtain n1 where n1: "node_step P U n n1" "nd_round n1 = None" "nd_hand n1 = None" "nd_keys n1 = nd_keys n" "queue n1 = queue n"
    "set (topics n) \<union> set (casts [ch]) \<subseteq> set (topics n1)"
    using register_hand [OF assms h, of P U] by blast
  have "casts (incoming n) = casts [ch] @ casts (queue n)" using h casts_simps(1) [of "[ch]" "queue n"] by (simp add: incoming_def)
  with drain_queue [OF n1(2,3), of P U] n1 show ?thesis
    by (auto intro!: converse_rtranclp_into_rtranclp [of "node_step P U" n n1])
qed

lemma publish_all:
  assumes "nd_round n = Some (ts, payload)"
  shows "\<exists>n'. (node_step P U)\<^sup>*\<^sup>* n n' \<and> (\<lambda>t. (t, payload)) ` set ts \<subseteq> set (nd_published n')"
proof -
  have "\<exists>n'. (node_step P U)\<^sup>*\<^sup>* n n' \<and> set (nd_published n) \<union> (\<lambda>t. (t, payload)) ` set ts \<subseteq> set (nd_published n')"
    using assms
  proof (induction ts arbitrary: n)
    case (Cons t ts)
    let ?n1 = "n\<lparr>nd_round := Some (ts, payload), nd_published := nd_published n @ [(t, payload)]\<rparr>"
    have st: "node_step P U n ?n1" using Cons.prems by (rule node_step.publish)
    obtain n' where "(node_step P U)\<^sup>*\<^sup>* ?n1 n'" "set (nd_published ?n1) \<union> (\<lambda>t. (t, payload)) ` set ts \<subseteq> set (nd_published n')"
      using Cons.IH [of ?n1] by auto
    with converse_rtranclp_into_rtranclp [of "node_step P U", OF st] show ?case by (intro exI [of _ n']) auto
  qed auto
  then show ?thesis by blast
qed

lemma reach_cycle:
  assumes "nd_round n = None" and "topic \<in> set (casts (incoming n))" and "env_ok (cy_rotate env)"
    and "get_or_rotate_key (bs_key_management (np_broadcast P)) (cy_now_key env) (cy_rotate env) (nd_keys n) = (Ok key, keys)"
    and "payload = np_render P (broadcast_payload (bs_server_url (np_broadcast P))
       (ota_fields (cy_hmac env) (bs_key_management (np_broadcast P)) (cy_now_token (env :: cycle_env)) key))"
  shows "\<exists>n' ts. (node_step P U)\<^sup>*\<^sup>* n n' \<and> nd_round n' = Some (ts, payload) \<and> topic \<in> set ts"
proof -
  obtain n1 where n1: "(node_step P U)\<^sup>*\<^sup>* n n1" "nd_round n1 = None" "nd_keys n1 = nd_keys n" "topic \<in> set (topics n1)"
    using drain_incoming [OF assms(1), of P U] assms(2) by blast
  let ?n2 = "n1\<lparr>nd_keys := snd (sweep_expired (cy_now_sweep env) (cy_sweep_faults env) keys), nd_round := Some (topics n1, payload)\<rparr>"
  have "node_step P U n1 ?n2"
    using n1(2) assms(3) _ assms(5) by (rule node_step.cycle_starts) (simp add: n1(3) assms(4))
  with n1(1) have "(node_step P U)\<^sup>*\<^sup>* n ?n2" by (rule rtranclp.rtrancl_into_rtrancl)
  with n1(4) show ?thesis by (intro exI [of _ ?n2] exI [of _ "topics n1"]) simp
qed

lemma reach_beacon:
  assumes "(node_step P U)\<^sup>*\<^sup>* n n2" and "nd_round n2 = Some (ts, payload)" and "topic \<in> set ts"
  shows "\<exists>n'. (node_step P U)\<^sup>*\<^sup>* n n' \<and> (topic, payload) \<in> set (nd_published n')"
  using publish_all [OF assms(2), of P U] assms(1,3) by (meson image_subset_iff rtranclp_trans)

lemma node_reach_run: "(node_step P U)\<^sup>*\<^sup>* n n' \<Longrightarrow> node_reach P U n0 n \<Longrightarrow> node_reach P U n0 n'"
  by (induction rule: rtranclp_induct) (auto intro: node_reach.node_next)

lemma main_nodeE:
  assumes "main_node ie config fs keys = Some (n0, bs)"
  obtains ca fs' where "n0 = node_init ca fs' (gr_gateway_url (cf_gateway_registration config)) keys"
  using assms by (auto simp: main_node_def split: init_outcome.splits)

subsection \<open>A concrete node\<close>

text \<open>A node without a broker that one device registers with and that then runs one cycle.\<close>

definition demo_requests :: "(nat, nat \<times> nat) node \<Rightarrow> (nat, nat \<times> nat, string) http_env \<Rightarrow> bool" where
  "demo_requests n env \<longleftrightarrow> he_uuid env \<notin> ids n \<and> (\<forall>q. he_accepts env q \<longrightarrow> length q < 64)"

definition demo_params :: "broadcast_state \<Rightarrow> node_params" where
  "demo_params bs = \<lparr>np_pv = demo_pv, np_ser = (\<lambda>j. Ok []), np_parse = (\<lambda>s. None), np_render = (\<lambda>j. ''beacon''),
     np_app = demo_state, np_broadcast = bs\<rparr>"

lemma demo_fresh: "fresh_requests demo_requests"
  by (simp add: fresh_requests_def demo_requests_def)

lemma demo_main:
  "\<exists>fs. main_node (demo_init False) demo_config Map.empty [] =
     Some (node_init demo_ca fs None [], app_broadcast_state demo_config (key_management_new 3600 7200))"
proof -
  have i: "ie_ca (demo_init b) = Ok demo_ca" "ie_rcgen (demo_init b) = demo_rcgen" "ie_connected (demo_init b) = None" for b
    by (simp_all add: demo_init_def)
  have c: "\<not> mb_tls_enabled (cf_mqtt_brokerage demo_config)" "mc_tls_mode (cf_mqtt_client demo_config) = TlsNone"
    "gr_gateway_url (cf_gateway_registration demo_config) = None"
    "bm_key_rotation_interval (cf_beacon_management demo_config) = 3600" "bm_key_expiry (cf_beacon_management demo_config) = 7200"
    by (simp_all add: demo_config_def)
  have pem: "ca_cert_pem demo_rcgen demo_ca = Ok ''cc/ii''"
    by (simp add: ca_cert_pem_def demo_defs numeral_eq_Suc)
  show ?thesis
    by (rule demo_assemble [of False]) (auto simp: main_node_def initialize_def i c pem start_services_def Let_def)
qed

lemma demo_env_ok: "env_ok (cy_rotate demo_cycle)"
  by (simp add: demo_cycle_def env_ok_def ex_env_def)

lemma demo_np: "np_broadcast (demo_params bs) = bs"
  by (simp add: demo_params_def)

lemma demo_registered:
  obtains n0 n1 n :: "(nat, nat \<times> nat) node" and bs ts key keys where
    "main_node (demo_init False) demo_config Map.empty [] = Some (n0, bs)" "key_wf (bs_key_management bs) []"
    "node_reach (demo_params bs) demo_requests n0 n1" "nd_round n1 = None"
    "beacon_channel ''u1'' (''u1'' @ ''/cast'') Broadcast \<in> set (queue n1)"
    "get_or_rotate_key (bs_key_management (np_broadcast (demo_params bs))) (cy_now_key demo_cycle) (cy_rotate demo_cycle)
       (nd_keys n1) = (Ok key, keys)"
    "(node_step (demo_params bs) demo_requests)\<^sup>*\<^sup>* n1 n" "nd_round n = Some (ts, ''beacon'')" "''u1/cast'' \<in> set ts"
    "node_step (demo_params bs) demo_requests n0 n1" "nd_net n1 = nd_net n0" "nd_hand n1 = nd_hand n0" "nd_published n1 = nd_published n0"
    "queue n1 = [beacon_channel ''u1'' ''u1/rec'' Listen, beacon_channel ''u1'' ''u1/cast'' Broadcast]"
proof -
  obtain fs where m: "main_node (demo_init False) demo_config Map.empty [] =
      Some (node_init demo_ca fs None [], app_broadcast_state demo_config (key_management_new 3600 7200))"
    using demo_main by blast
  let ?bs = "app_broadcast_state demo_config (key_management_new 3600 7200)"
  let ?P = "demo_params ?bs" and ?n0 = "node_init demo_ca fs None []"
  let ?w = "\<lparr>w_ca = demo_ca, w_files = fs, w_queue = []\<rparr>"
  let ?w' = "snd (handle_device_init (demo_env 64) demo_state demo_request ?w)"
  let ?r = "fst (handle_device_init (demo_env 64) demo_state demo_request ?w)"
  let ?n1 = "?n0\<lparr>nd_world := ?w', nd_issued := nd_issued ?n0 @ accepted (demo_env 64) demo_request ?r\<rparr>"
  have st: "rs_status ?r = 200"
    unfolding handle_device_init_def demo_process_init
    by (simp add: Let_def sign_csr_def op_sign_csr_def run_stmt_def demo_http_defs record_identity_def
        demo_register_identity [unfolded demo_defs])
  have u: "he_uuid (demo_env 64) = ''u1''" by (simp add: demo_env_def)
  have w: "w_queue ?w' = [beacon_channel ''u1'' ''u1/rec'' Listen, beacon_channel ''u1'' ''u1/cast'' Broadcast]"
    using device_init_queue [OF st _ refl refl] by (simp add: demo_state_def demo_env_def)
  then have q: "''u1/cast'' \<in> set (casts (incoming ?n1))" "beacon_channel ''u1'' (''u1'' @ ''/cast'') Broadcast \<in> set (queue ?n1)"
    by (simp_all add: node_init_def incoming_def)
  have d: "contains_key demo_request HEADER_INIT" "\<not> contains_key demo_request HEADER_HEALTH"
    by (simp_all add: demo_request_def contains_key_def header_names)
  have s1: "node_step ?P demo_requests ?n0 ?n1"
    by (rule node_step.serve) (auto simp: demo_requests_def node_init_def ids_def demo_env_def demo_params_def dispatch_def d)
  have "\<exists>key keys. get_or_rotate_key (bs_key_management ?bs) (cy_now_key demo_cycle) (cy_rotate demo_cycle) [] = (Ok key, keys)"
    by (simp add: app_broadcast_state_def demo_cycle_def ex_simps)
  then obtain key keys where k: "get_or_rotate_key (bs_key_management (np_broadcast ?P)) (cy_now_key demo_cycle) (cy_rotate demo_cycle) (nd_keys ?n1) = (Ok key, keys)"
    by (auto simp: demo_params_def node_init_def)
  have r: "nd_round ?n1 = None" by (simp add: node_init_def)
  from reach_cycle [OF this q(1) demo_env_ok k refl, of demo_requests] obtain n ts where
    "(node_step ?P demo_requests)\<^sup>*\<^sup>* ?n1 n" "nd_round n = Some (ts, ''beacon'')" "''u1/cast'' \<in> set ts"
    by (auto simp: demo_params_def)
  moreover have "node_reach ?P demo_requests ?n0 ?n1" using node_reach.node_start s1 by (rule node_reach.node_next)
  moreover have "key_wf (bs_key_management ?bs) []" by (simp add: key_wf_def active_rows_def)
  ultimately show ?thesis using that [OF m] r q(2) k s1 w by simp
qed

subsection \<open>Properties\<close>

text \<open>
  C1: From its start in \<open>main\<close> on, whatever requests, messages, timeouts, failures and broadcasts are
  interleaved, the node only ever publishes to the topic of a beacon id that it handed to a device
  in a successful handshake, and the CA has a certificate for that device's host name; the key
  table stays well formed.
\<close>

theorem node_publishes_to_certified:
  assumes "main_node ie config fs keys = Some (n0, bs)" and "np_broadcast P = bs" and "key_wf (bs_key_management bs) keys"
    and "node_reach P U n0 n"
  shows "(\<forall>(topic, payload)\<in>set (nd_published n). \<exists>bid host. topic = bid @ ''/cast'' \<and> (bid, host) \<in> set (nd_issued n) \<and>
      find_device (db_device_certs (ca_pool (w_ca (nd_world n)))) host \<noteq> None) \<and>
    key_wf (bs_key_management bs) (nd_keys n)"
proof -
  obtain ca fs' where n0: "n0 = node_init ca fs' (gr_gateway_url (cf_gateway_registration config)) keys"
    using assms(1) by (rule main_nodeE)
  have "node_inv P (gr_gateway_url (cf_gateway_registration config)) n"
    using assms(2-4) n0 by (intro node_inv_reach) auto
  then show ?thesis using assms(2) by (fastforce simp: node_inv_def list_all_iff cast_of_def ids_def certified_def)
qed

theorem node_publishes_to_certified_witness:
  "\<exists>(n0 :: (nat, nat \<times> nat) node) bs n host. main_node (demo_init False) demo_config Map.empty [] = Some (n0, bs) \<and>
     node_reach (demo_params bs) demo_requests n0 n \<and> (''u1/cast'', ''beacon'') \<in> set (nd_published n) \<and>
     (''u1'', host) \<in> set (nd_issued n) \<and> find_device (db_device_certs (ca_pool (w_ca (nd_world n)))) host \<noteq> None"
proof (rule demo_registered)
  fix n0 n1 n2 :: "(nat, nat \<times> nat) node" and bs ts
  assume m: "main_node (demo_init False) demo_config Map.empty [] = Some (n0, bs)" and k: "key_wf (bs_key_management bs) []"
    and r1: "node_reach (demo_params bs) demo_requests n0 n1" and r2: "(node_step (demo_params bs) demo_requests)\<^sup>*\<^sup>* n1 n2"
    and ts: "nd_round n2 = Some (ts, ''beacon'')" "''u1/cast'' \<in> set ts"
  obtain n where n: "(node_step (demo_params bs) demo_requests)\<^sup>*\<^sup>* n1 n" and p: "(''u1/cast'', ''beacon'') \<in> set (nd_published n)"
    using reach_beacon [OF r2 ts] by blast
  have r: "node_reach (demo_params bs) demo_requests n0 n" using n r1 by (rule node_reach_run)
  obtain bid host where "''u1/cast'' = bid @ ''/cast''" "(bid, host) \<in> set (nd_issued n)"
    "find_device (db_device_certs (ca_pool (w_ca (nd_world n)))) host \<noteq> None"
    using node_publishes_to_certified [OF m demo_np k r] p by fast
  moreover from this(1) have "bid = ''u1''" by (cases bid; cases "tl bid"; auto simp: append_eq_Cons_conv)
  ultimately show ?thesis using m r p by blast
qed



text \<open>
  C9: With identifiers that do not repeat and a queue of 64 places, the list of broadcast topics never
  holds a topic twice, so a cycle publishes once to each beacon, and a topic still queued or being
  registered is not yet in the list; the queue stays within its bound; and a registered beacon has no topics but its own.
\<close>

theorem node_topics_distinct:
  assumes "main_node ie config fs keys = Some (n0, bs)" and "np_broadcast P = bs" and "key_wf (bs_key_management bs) keys"
    and "node_reach P U n0 n" and "fresh_requests U"
  shows "distinct (topics n) \<and> set (topics n) \<inter> set (casts (incoming n)) = {} \<and> length (queue n) \<le> 64 \<and>
    (\<forall>bid r. rr_records (bl_registry (nw_loop (nd_net n))) bid = Some r \<longrightarrow>
       br_listen_topic r \<in> {[], bid @ ''/rec''} \<and> br_broadcast_topic r \<in> {[], bid @ ''/cast''})"
proof -
  obtain ca fs' where n0: "n0 = node_init ca fs' (gr_gateway_url (cf_gateway_registration config)) keys"
    using assms(1) by (rule main_nodeE)
  have "node_fresh n" using node_fresh_reach [OF assms(4) [unfolded n0] _ assms(5)] assms(2,3) by simp
  moreover have "node_inv P (gr_gateway_url (cf_gateway_registration config)) n"
    using assms(2-4) n0 by (intro node_inv_reach) auto
  ultimately show ?thesis by (auto simp: node_fresh_def node_inv_def registry_of_def record_of_def)
qed

theorem node_topics_distinct_witness:
  "\<exists>(n0 :: (nat, nat \<times> nat) node) bs n ts. main_node (demo_init False) demo_config Map.empty [] = Some (n0, bs) \<and>
     node_reach (demo_params bs) demo_requests n0 n \<and> nd_round n = Some (ts, ''beacon'') \<and> ''u1/cast'' \<in> set ts \<and>
     distinct (topics n) \<and> length (queue n) \<le> 64"
proof (rule demo_registered)
  fix n0 n1 n :: "(nat, nat \<times> nat) node" and bs ts
  assume m: "main_node (demo_init False) demo_config Map.empty [] = Some (n0, bs)" and k: "key_wf (bs_key_management bs) []"
    and r1: "node_reach (demo_params bs) demo_requests n0 n1" and r2: "(node_step (demo_params bs) demo_requests)\<^sup>*\<^sup>* n1 n"
    and ts: "nd_round n = Some (ts, ''beacon'')" "''u1/cast'' \<in> set ts"
  have r: "node_reach (demo_params bs) demo_requests n0 n" using r2 r1 by (rule node_reach_run)
  from node_topics_distinct [OF m demo_np k r demo_fresh] m r ts show ?thesis by blast
qed



end
