(* ===== verification/Transitions.thy ===== *)
theory Transitions
  imports Prelude
begin

section \<open>Step relations: invariants and simulations\<close>

text \<open>
  What the concurrent parts of the development share: an invariant of a step relation holds along
  its runs, and a simulation carries runs, and with them invariants, from a detailed step relation
  to a more abstract one. A projection that maps each step to a run of the abstract relation, as
  long as an invariant holds, is a simulation.
\<close>

locale step_invariant =
  fixes step :: "'s \<Rightarrow> 's \<Rightarrow> bool"
    and inv :: "'s \<Rightarrow> bool"
  assumes inv_step: "inv s \<Longrightarrow> step s t \<Longrightarrow> inv t"
begin

lemma inv_run: "step\<^sup>*\<^sup>* s t \<Longrightarrow> inv s \<Longrightarrow> inv t"
  by (induction rule: rtranclp_induct) (auto intro: inv_step)

end

locale simulation =
  fixes conc :: "'c \<Rightarrow> 'c \<Rightarrow> bool"
    and abst :: "'a \<Rightarrow> 'a \<Rightarrow> bool"
    and rel :: "'c \<Rightarrow> 'a \<Rightarrow> bool"
  assumes sim_step: "rel c a \<Longrightarrow> conc c c' \<Longrightarrow> \<exists>a'. abst\<^sup>*\<^sup>* a a' \<and> rel c' a'"
begin

lemma sim_run:
  assumes "conc\<^sup>*\<^sup>* c c'" and "rel c a"
  shows "\<exists>a'. abst\<^sup>*\<^sup>* a a' \<and> rel c' a'"
  using assms
proof (induction rule: rtranclp_induct)
  case (step c1 c2)
  then obtain a1 where "abst\<^sup>*\<^sup>* a a1" "rel c1 a1" by blast
  with sim_step [OF this(2) step.hyps(2)] show ?case by (meson rtranclp_trans)
qed blast

lemma sim_invariant:
  assumes "conc\<^sup>*\<^sup>* c c'" and "rel c a" and "step_invariant abst I" and "I a"
  shows "\<exists>a'. rel c' a' \<and> I a'"
  using sim_run [OF assms(1,2)] step_invariant.inv_run [OF assms(3)] assms(4) by blast

end

locale projection = step_invariant conc inv
  for conc :: "'c \<Rightarrow> 'c \<Rightarrow> bool" and inv :: "'c \<Rightarrow> bool" +
  fixes abst :: "'a \<Rightarrow> 'a \<Rightarrow> bool"
    and proj :: "'c \<Rightarrow> 'a"
  assumes proj_step: "inv c \<Longrightarrow> conc c c' \<Longrightarrow> abst\<^sup>*\<^sup>* (proj c) (proj c')"

sublocale projection \<subseteq> simulation conc abst "\<lambda>c a. inv c \<and> a = proj c"
  using inv_step proj_step by unfold_locales auto

context projection
begin

lemma proj_run: "conc\<^sup>*\<^sup>* c c' \<Longrightarrow> inv c \<Longrightarrow> abst\<^sup>*\<^sup>* (proj c) (proj c')"
  using sim_run [of c c' "proj c"] by auto

lemma proj_invariant:
  assumes "conc\<^sup>*\<^sup>* c c'" and "inv c" and "step_invariant abst I" and "I (proj c)"
  shows "I (proj c')"
  using sim_invariant [OF assms(1) _ assms(3,4)] assms(2) by auto

end

end
