(* ===== verification/Node_Spec.thy ===== *)
theory Node_Spec
  imports Node Transitions
begin

section \<open>What the node promises\<close>

text \<open>
  The abstract service behind the running node: it certifies hosts, issues beacon ids to certified
  hosts, lists issued beacons, withdraws listed ones and announces itself to those that are listed at
  that moment; a certified host stays certified and what is issued or announced stays on record. How requests
  are decoded and signed, how channels wait in a queue, how locks, sweeps and messages interleave is
  hidden. The node implements the service: the projection of a node that forgets all of this turns
  each of its steps into a run of the service.
\<close>

subsection \<open>The service\<close>

record beacon_service =
  sv_certified :: "string set"
  sv_issued :: "(string \<times> string) set"
  sv_listed :: "string set"
  sv_announced :: "(string \<times> string) list"

inductive service_step :: "beacon_service \<Rightarrow> beacon_service \<Rightarrow> bool" where
  certify: "service_step a (a\<lparr>sv_certified := sv_certified a \<union> H\<rparr>)"
| issue: "host \<in> sv_certified a \<Longrightarrow> service_step a (a\<lparr>sv_issued := insert (bid, host) (sv_issued a)\<rparr>)"
| list_beacon: "bid \<in> fst ` sv_issued a \<Longrightarrow> service_step a (a\<lparr>sv_listed := insert (bid @ ''/cast'') (sv_listed a)\<rparr>)"
| withdraw: "service_step a (a\<lparr>sv_listed := sv_listed a - T\<rparr>)"
| announce: "topic \<in> sv_listed a \<Longrightarrow> service_step a (a\<lparr>sv_announced := sv_announced a @ [(topic, payload)]\<rparr>)"

definition service_init :: beacon_service where
  "service_init = \<lparr>sv_certified = {}, sv_issued = {}, sv_listed = {}, sv_announced = []\<rparr>"

definition service_of :: "('kp, 'cert) node \<Rightarrow> beacon_service" where
  "service_of n = \<lparr>sv_certified = {host. certified n host}, sv_issued = set (nd_issued n), sv_listed = set (topics n), sv_announced = nd_published n\<rparr>"

subsection \<open>Each step of the node is a run of the service\<close>

lemma service_issues:
  assumes "snd ` set xs \<subseteq> sv_certified a"
  shows "service_step\<^sup>*\<^sup>* a (a\<lparr>sv_issued := sv_issued a \<union> set xs\<rparr>)"
  using assms
proof (induction xs arbitrary: a)
  case (Cons x xs)
  then have "service_step a (a\<lparr>sv_issued := insert (fst x, snd x) (sv_issued a)\<rparr>)" by (intro service_step.issue) simp
  from converse_rtranclp_into_rtranclp [OF this Cons.IH] Cons.prems show ?case by simp
qed simp

lemma service_lists:
  assumes "\<forall>t\<in>set ts. \<exists>bid\<in>fst ` sv_issued a. t = bid @ ''/cast''"
  shows "service_step\<^sup>*\<^sup>* a (a\<lparr>sv_listed := sv_listed a \<union> set ts\<rparr>)"
  using assms
proof (induction ts arbitrary: a)
  case (Cons t ts)
  then obtain bid where "bid \<in> fst ` sv_issued a" "t = bid @ ''/cast''" by auto
  then have "service_step a (a\<lparr>sv_listed := insert t (sv_listed a)\<rparr>)" using service_step.list_beacon by blast
  from converse_rtranclp_into_rtranclp [OF this Cons.IH] Cons.prems show ?case by simp
qed simp

text \<open>A request certifies a set of hosts and issues an id to at most one of them.\<close>

lemma serve_service:
  assumes "dispatch env (np_app P) req (nd_world n) = (resp, w')"
  shows "service_step\<^sup>*\<^sup>* (service_of n) (service_of (n\<lparr>nd_world := w', nd_issued := nd_issued n @ accepted env req resp\<rparr>))"
    (is "_ (service_of ?n')")
proof -
  let ?a = "(service_of n)\<lparr>sv_certified := sv_certified (service_of n) \<union> {host. certified ?n' host}\<rparr>"
  have "ca_extends (w_ca (nd_world n)) (w_ca w')"
    using ca_extends_dispatch [of "nd_world n" env "np_app P" req] assms by simp
  then have mono: "{host. certified n host} \<union> {host. certified ?n' host} = {host. certified ?n' host}"
    by (auto simp: certified_def ca_extends_def)
  have "snd ` set (accepted env req resp) \<subseteq> {host. certified ?n' host}"
    by (cases rule: accepted_cases [OF assms]) (auto simp: certified_def)
  then have "service_step\<^sup>*\<^sup>* ?a (?a\<lparr>sv_issued := sv_issued ?a \<union> set (accepted env req resp)\<rparr>)"
    by (intro service_issues) (auto simp: service_of_def)
  from converse_rtranclp_into_rtranclp [OF service_step.certify this] show ?thesis
    by (simp add: service_of_def mono Un_commute)
qed

lemma node_step_service:
  assumes "node_inv P own n" and "round_listed n" and "node_step P U n n'"
  shows "service_step\<^sup>*\<^sup>* (service_of n) (service_of n')"
  using assms(3)
proof (cases rule: node_step.cases)
  case (serve env req resp w')
  then show ?thesis using serve_service by blast
next
  case (register now ch net' subscribe)
  have c: "channel_of (ids n) ch" using assms(1) register(2) by (simp add: node_inv_def incoming_def)
  then have "\<forall>t\<in>set (casts [ch]). \<exists>bid\<in>fst ` sv_issued (service_of n). t = bid @ ''/cast''"
    using casts_of [of "ids n" "[ch]"] by (auto simp: cast_of_def ids_def service_of_def)
  from service_lists [OF this] register topics_register [OF c, of subscribe now]
  show ?thesis by (simp add: service_of_def certified_def)
next
  case (loop_moves i net')
  obtain Q where "topics n' = filter Q (topics n)"
    using topics_move [OF loop_moves(3), of "np_pv P" "bs_server_url (np_broadcast P)" "nw_loop (nd_net n)"] loop_moves(1,4) by auto
  then have "set (topics n') = set (topics n) - {t. \<not> Q t}" by auto
  with loop_moves(1) service_step.withdraw [of "service_of n" "{t. \<not> Q t}"] show ?thesis by (auto simp: service_of_def certified_def)
next
  case (publish topic rest payload)
  have "topic \<in> set (topics n)" using assms(2) publish(2) by (force simp: round_listed_def)
  with publish(1) service_step.announce [of topic "service_of n" payload] show ?thesis by (auto simp: service_of_def certified_def)
qed (simp_all add: service_of_def certified_def)

lemma node_promise_step:
  "node_inv P own n \<and> round_listed n \<Longrightarrow> node_step P U n n' \<Longrightarrow> node_inv P own n' \<and> round_listed n'"
  using node_inv_step round_listed_step by blast

interpretation node_service:
  projection "node_step P U" "\<lambda>n. node_inv P own n \<and> round_listed n" service_step service_of for P U own
  using node_promise_step node_step_service by unfold_locales blast+

lemma node_reach_steps: "node_reach P U n0 n \<Longrightarrow> (node_step P U)\<^sup>*\<^sup>* n0 n"
  by (induction rule: node_reach.induct) (auto intro: rtranclp.rtrancl_into_rtrancl)

lemma main_promise:
  assumes "main_node ie config fs keys = Some (n0, bs)" and "np_broadcast P = bs" and "key_wf (bs_key_management bs) keys"
  obtains own where "node_inv P own n0 \<and> round_listed n0"
    "service_of n0 = service_init\<lparr>sv_certified := sv_certified service_init \<union> {host. certified n0 host}\<rparr>"
proof -
  obtain ca fs' where n0: "n0 = node_init ca fs' (gr_gateway_url (cf_gateway_registration config)) keys"
    using assms(1) by (rule main_nodeE)
  have "node_inv P (gr_gateway_url (cf_gateway_registration config)) n0 \<and> round_listed n0"
    using assms(2,3) by (simp add: n0 node_inv_init) (simp add: round_listed_def node_init_def)
  then show ?thesis
    by (rule that) (simp add: service_of_def service_init_def n0 node_init_def network_init_def beacon_loop_init_def registry_new_def)
qed

lemma node_reach_service:
  assumes "main_node ie config fs keys = Some (n0, bs)" and "np_broadcast P = bs" and "key_wf (bs_key_management bs) keys"
    and "node_reach P U n0 n"
  shows "service_step\<^sup>*\<^sup>* service_init (service_of n)"
proof (rule main_promise [OF assms(1-3)])
  fix own
  assume i0: "node_inv P own n0 \<and> round_listed n0"
    and "service_of n0 = service_init\<lparr>sv_certified := sv_certified service_init \<union> {host. certified n0 host}\<rparr>"
  then have "service_step service_init (service_of n0)" using service_step.certify by metis
  moreover have "service_step\<^sup>*\<^sup>* (service_of n0) (service_of n)" using node_service.proj_run [OF node_reach_steps [OF assms(4)] i0] .
  ultimately show ?thesis by (rule converse_rtranclp_into_rtranclp)
qed

lemma node_run_service:
  assumes "main_node ie config fs keys = Some (n0, bs)" and "np_broadcast P = bs" and "key_wf (bs_key_management bs) keys"
    and "node_reach P U n0 n" and "(node_step P U)\<^sup>*\<^sup>* n n'"
  shows "service_step\<^sup>*\<^sup>* (service_of n) (service_of n')"
proof (rule main_promise [OF assms(1-3)])
  fix own
  assume "node_inv P own n0 \<and> round_listed n0"
  then show ?thesis using node_service.proj_run [OF assms(5) node_service.inv_run [OF node_reach_steps [OF assms(4)]]] by blast
qed

subsection \<open>Property\<close>

text \<open>
  C3: The running node implements the service: from \<open>main\<close> on, whatever its parts do and however they
  interleave, the hosts certified, the ids issued, the beacons listed and the announcements made are
  those of a run of the service, and every continuation of the node continues the run of the
  service. So an id is issued only to a certified host, a beacon is listed only after its id was
  issued, and every announcement is made to a beacon that is listed at that moment.
\<close>

theorem node_implements_service:
  assumes "main_node ie config fs keys = Some (n0, bs)" and "np_broadcast P = bs" and "key_wf (bs_key_management bs) keys"
    and "node_reach P U n0 n" and "(node_step P U)\<^sup>*\<^sup>* n n'"
  shows "service_step\<^sup>*\<^sup>* service_init (service_of n) \<and> service_step\<^sup>*\<^sup>* (service_of n) (service_of n')"
  using node_reach_service [OF assms(1-4)] node_run_service [OF assms] by blast

theorem node_implements_service_witness:
  "\<exists>(n0 :: (nat, nat \<times> nat) node) bs n (n' :: (nat, nat \<times> nat) node). main_node (demo_init False) demo_config Map.empty [] = Some (n0, bs) \<and>
     node_reach (demo_params bs) demo_requests n0 n \<and> (''u1/cast'', ''beacon'') \<in> set (sv_announced (service_of n')) \<and>
     service_step\<^sup>*\<^sup>* service_init (service_of n) \<and> service_step\<^sup>*\<^sup>* (service_of n) (service_of n')"
proof (rule demo_registered)
  fix n0 n1 n2 :: "(nat, nat \<times> nat) node" and bs ts
  assume m: "main_node (demo_init False) demo_config Map.empty [] = Some (n0, bs)" and k: "key_wf (bs_key_management bs) []"
    and r1: "node_reach (demo_params bs) demo_requests n0 n1" and r2: "(node_step (demo_params bs) demo_requests)\<^sup>*\<^sup>* n1 n2"
    and ts: "nd_round n2 = Some (ts, ''beacon'')" "''u1/cast'' \<in> set ts"
  obtain n where n: "(node_step (demo_params bs) demo_requests)\<^sup>*\<^sup>* n1 n" "(''u1/cast'', ''beacon'') \<in> set (nd_published n)"
    using reach_beacon [OF r2 ts] by blast
  have "(''u1/cast'', ''beacon'') \<in> set (sv_announced (service_of n))" using n(2) by (simp add: service_of_def)
  with node_implements_service [OF m demo_np k r1 n(1)] m r1 show ?thesis by blast
qed

end
