(* ===== verification/Mqtt_Flow.thy ===== *)
theory Mqtt_Flow
  imports Mqtt_Client
begin

section \<open>The MQTT tasks and their queues together (\<open>src/services/mqtt_client/\<close>, \<open>src/app.rs\<close>)\<close>

text \<open>
  The event loop task, the command task and the two loops of the application that call the
  handle run concurrently and wait for each other through bounded queues: commands to the command
  task, requests of the \<open>rumqttc\<close> client to its event loop, inbound messages to the beacon message
  loop. A state has the queues and what each task is waiting for; the relations \<open>env_step\<close> and
  \<open>task_step\<close> have one rule per thing that can happen, so that every interleaving is a run.

  Of the queues only the documented behaviour is used: first in, first out, a send waits while the
  queue is full and fails once the receiver is gone. \<open>valid\<close> says which commands the client accepts
  (it refuses malformed topics).
\<close>

subsection \<open>State\<close>

definition CMD_CAPACITY :: nat where "CMD_CAPACITY = 64"
definition MSG_CAPACITY :: nat where "MSG_CAPACITY = 64"
definition REQ_CAPACITY :: nat where "REQ_CAPACITY = 10"

lemmas capacities = CMD_CAPACITY_def MSG_CAPACITY_def REQ_CAPACITY_def

text \<open>
  The two holders of a handle. The message loop subscribes while it registers a channel and
  unsubscribes inside \<open>check_timeouts\<close>; the broadcast loop publishes. Calls are numbered. The
  subscriptions of \<open>App::initialize\<close>, made through the same handle before the message loop starts,
  count as calls of the message loop. The queue of outbound messages is left out: \<open>initialize\<close> drops
  its only sender unused.
\<close>

datatype caller = MessageLoop | BroadcastLoop

datatype caller_phase = Free | Offering nat mqtt_command | Waiting nat mqtt_command

datatype loop_phase = Polling | Forwarding mqtt_message | Backoff string | Disconnecting | LoopDown

datatype task_phase = Receiving | Executing caller nat mqtt_command | TaskDown

record flow =
  fl_cmds :: "(caller \<times> nat \<times> mqtt_command) list"
  fl_requests :: "mqtt_command list"
  fl_inbound :: "mqtt_message list"
  fl_loop :: loop_phase
  fl_ls :: loop_state
  fl_task :: task_phase
  fl_caller :: "caller \<Rightarrow> caller_phase"
  fl_next :: nat
  fl_stopping :: bool
  fl_taken :: "mqtt_message list"
  fl_wire :: "mqtt_command list"
  fl_results :: "(nat \<times> mqtt_command \<times> unit res) list"

definition flow_init :: "chan \<Rightarrow> flow" where
  "flow_init connected_tx =
     \<lparr>fl_cmds = [], fl_requests = [], fl_inbound = [], fl_loop = Polling, fl_ls = loop_init connected_tx,
      fl_task = Receiving, fl_caller = (\<lambda>_. Free), fl_next = 0, fl_stopping = False,
      fl_taken = [], fl_wire = [], fl_results = []\<rparr>"

text \<open>Which caller makes which call.\<close>

fun calls :: "caller \<Rightarrow> mqtt_command \<Rightarrow> bool" where
  "calls MessageLoop (Subscribe t q) = True"
| "calls MessageLoop (Unsubscribe t) = True"
| "calls BroadcastLoop (Publish t q p) = True"
| "calls _ _ = False"

fun is_unsubscribe :: "mqtt_command \<Rightarrow> bool" where
  "is_unsubscribe (Unsubscribe t) = True"
| "is_unsubscribe _ = False"

text \<open>A reply reaches the caller only if it still waits for this call.\<close>

definition answer :: "caller \<Rightarrow> nat \<Rightarrow> mqtt_command \<Rightarrow> unit res \<Rightarrow> flow \<Rightarrow> flow" where
  "answer c i cmd r s =
     s\<lparr>fl_caller := (fl_caller s)(c := if fl_caller s c = Waiting i cmd then Free else fl_caller s c),
       fl_results := fl_results s @ [(i, cmd, r)]\<rparr>"

subsection \<open>Steps\<close>

text \<open>
  What comes from outside: calls, packets, a new topic channel (for which the message loop gives up
  an \<open>unsubscribe\<close> inside its \<open>select!\<close>), the supervisor's stop of the service.
\<close>

inductive env_step :: "flow \<Rightarrow> flow \<Rightarrow> bool" where
  call: "fl_caller s c = Free \<Longrightarrow> calls c cmd \<Longrightarrow>
     env_step s (s\<lparr>fl_caller := (fl_caller s)(c := Offering (fl_next s) cmd), fl_next := Suc (fl_next s)\<rparr>)"
| publish_arrives: "fl_loop s = Polling \<Longrightarrow> env_step s (s\<lparr>fl_loop := Forwarding msg\<rparr>)"
| packet_arrives: "fl_loop s = Polling \<Longrightarrow> \<forall>m. p \<noteq> InPublish m \<Longrightarrow> \<forall>e. p \<noteq> PollError e \<Longrightarrow>
     env_step s (s\<lparr>fl_ls := loop_step (LoopPoll p True) (fl_ls s)\<rparr>)"
| poll_fails: "fl_loop s = Polling \<Longrightarrow> env_step s (s\<lparr>fl_loop := Backoff e\<rparr>)"
| channel_arrives: "fl_caller s MessageLoop = Offering i cmd \<or> fl_caller s MessageLoop = Waiting i cmd \<Longrightarrow>
     is_unsubscribe cmd \<Longrightarrow> env_step s (s\<lparr>fl_caller := (fl_caller s)(MessageLoop := Free)\<rparr>)"
| service_stop: "env_step s (s\<lparr>fl_stopping := True\<rparr>)"

text \<open>
  What the tasks do: the calls of the handle, the command task, the event loop task, and the
  message loop taking a message; an \<open>unsubscribe\<close> is part of a \<open>select!\<close> and is given up when a
  message is there to be taken. Neither task looks at its shutdown signal while it executes a
  command, forwards a message or sleeps. To disconnect, the event loop task queues one more request
  and ends, so that this request is never polled.
\<close>

inductive task_step :: "(mqtt_command \<Rightarrow> bool) \<Rightarrow> flow \<Rightarrow> flow \<Rightarrow> bool" for valid where
  send: "fl_caller s c = Offering i cmd \<Longrightarrow> fl_task s \<noteq> TaskDown \<Longrightarrow> length (fl_cmds s) < CMD_CAPACITY \<Longrightarrow>
     task_step valid s (s\<lparr>fl_caller := (fl_caller s)(c := Waiting i cmd), fl_cmds := fl_cmds s @ [(c, i, cmd)]\<rparr>)"
| send_closed: "fl_caller s c = Offering i cmd \<Longrightarrow> fl_task s = TaskDown \<Longrightarrow>
     task_step valid s (s\<lparr>fl_caller := (fl_caller s)(c := Free),
       fl_results := fl_results s @ [(i, cmd, handle_call False None)]\<rparr>)"
| reply_dropped: "fl_caller s c = Waiting i cmd \<Longrightarrow> fl_task s = TaskDown \<Longrightarrow>
     task_step valid s (answer c i cmd (handle_call True None) s)"
| give_up: "fl_caller s MessageLoop = Offering i cmd \<or> fl_caller s MessageLoop = Waiting i cmd \<Longrightarrow>
     is_unsubscribe cmd \<Longrightarrow> fl_inbound s \<noteq> [] \<Longrightarrow>
     task_step valid s (s\<lparr>fl_caller := (fl_caller s)(MessageLoop := Free)\<rparr>)"
| take_command: "fl_task s = Receiving \<Longrightarrow> fl_cmds s = (c, i, cmd) # q \<Longrightarrow>
     task_step valid s (s\<lparr>fl_task := Executing c i cmd, fl_cmds := q\<rparr>)"
| request: "fl_task s = Executing c i cmd \<Longrightarrow> valid cmd \<Longrightarrow> fl_loop s \<noteq> LoopDown \<Longrightarrow>
     length (fl_requests s) < REQ_CAPACITY \<Longrightarrow>
     task_step valid s ((answer c i cmd (handle_call True (Some (map_err (client_error cmd) (Ok ()))))
       s)\<lparr>fl_task := Receiving, fl_requests := fl_requests s @ [cmd]\<rparr>)"
| request_fails: "fl_task s = Executing c i cmd \<Longrightarrow> \<not> valid cmd \<or> fl_loop s = LoopDown \<Longrightarrow>
     task_step valid s ((answer c i cmd (handle_call True (Some (map_err (client_error cmd) (Err e))))
       s)\<lparr>fl_task := Receiving\<rparr>)"
| command_task_stops: "fl_task s = Receiving \<Longrightarrow> fl_stopping s \<Longrightarrow>
     task_step valid s (s\<lparr>fl_task := TaskDown, fl_cmds := []\<rparr>)"
| poll_request: "fl_loop s = Polling \<Longrightarrow> fl_requests s = r # q \<Longrightarrow>
     task_step valid s (s\<lparr>fl_requests := q, fl_wire := fl_wire s @ [r]\<rparr>)"
| forward: "fl_loop s = Forwarding msg \<Longrightarrow> length (fl_inbound s) < MSG_CAPACITY \<Longrightarrow>
     task_step valid s (s\<lparr>fl_loop := Polling, fl_inbound := fl_inbound s @ [msg],
       fl_ls := loop_step (LoopPoll (InPublish msg) True) (fl_ls s)\<rparr>)"
| wake: "fl_loop s = Backoff e \<Longrightarrow>
     task_step valid s (s\<lparr>fl_loop := Polling, fl_ls := loop_step (LoopPoll (PollError e) True) (fl_ls s)\<rparr>)"
| event_loop_stops: "fl_loop s = Polling \<Longrightarrow> fl_stopping s \<Longrightarrow>
     task_step valid s (s\<lparr>fl_loop := Disconnecting\<rparr>)"
| disconnected: "fl_loop s = Disconnecting \<Longrightarrow> length (fl_requests s) < REQ_CAPACITY \<Longrightarrow>
     task_step valid s (s\<lparr>fl_loop := LoopDown, fl_ls := loop_step LoopShutdown (fl_ls s)\<rparr>)"
| take_message: "fl_caller s MessageLoop = Free \<Longrightarrow> fl_inbound s = m # q \<Longrightarrow>
     task_step valid s (s\<lparr>fl_inbound := q, fl_taken := fl_taken s @ [m]\<rparr>)"

inductive flow_reach :: "(mqtt_command \<Rightarrow> bool) \<Rightarrow> flow \<Rightarrow> flow \<Rightarrow> bool" for valid where
  flow_refl: "flow_reach valid s s"
| flow_env: "flow_reach valid s t \<Longrightarrow> env_step t u \<Longrightarrow> flow_reach valid s u"
| flow_task: "flow_reach valid s t \<Longrightarrow> task_step valid t u \<Longrightarrow> flow_reach valid s u"

lemma flow_reach_trans: "flow_reach valid s t \<Longrightarrow> flow_reach valid t u \<Longrightarrow> flow_reach valid s u"
  by (rotate_tac, induction rule: flow_reach.induct) (auto intro: flow_reach.intros)

lemma flow_reach_invariant [consumes 1, case_names start env task]:
  assumes "flow_reach valid s t" and "P s"
    and "\<And>t u. P t \<Longrightarrow> env_step t u \<Longrightarrow> P u" and "\<And>t u. P t \<Longrightarrow> task_step valid t u \<Longrightarrow> P u"
  shows "P t"
  using assms by (induction rule: flow_reach.induct) blast+


subsection \<open>Invariants\<close>

text \<open>
  The queues keep their bounds; whoever waits for a reply has its command in the queue or under
  execution; what the message loop has taken and what is queued for it are the messages the event
  loop has forwarded, in order; the commands answered \<open>Ok\<close> are the requests handed to the client, in
  order; no call is answered twice.
\<close>

definition answered :: "flow \<Rightarrow> mqtt_command list" where
  "answered s = map (\<lambda>(i, cmd, r). cmd) (filter (\<lambda>(i, cmd, r). r = Ok ()) (fl_results s))"

definition in_service :: "flow \<Rightarrow> (caller \<times> nat \<times> mqtt_command) set" where
  "in_service s = set (fl_cmds s) \<union> (case fl_task s of Executing c i cmd \<Rightarrow> {(c, i, cmd)} | _ \<Rightarrow> {})"

definition flow_bounded :: "flow \<Rightarrow> bool" where
  "flow_bounded s \<longleftrightarrow> length (fl_cmds s) \<le> CMD_CAPACITY \<and> length (fl_requests s) \<le> REQ_CAPACITY \<and>
     length (fl_inbound s) \<le> MSG_CAPACITY"

definition flow_fifo :: "flow \<Rightarrow> bool" where
  "flow_fifo s \<longleftrightarrow> ls_inbound (fl_ls s) = fl_taken s @ fl_inbound s \<and>
     answered s = fl_wire s @ fl_requests s \<and> (ls_running (fl_ls s) \<longleftrightarrow> fl_loop s \<noteq> LoopDown)"

definition flow_calls :: "flow \<Rightarrow> bool" where
  "flow_calls s \<longleftrightarrow>
     (\<forall>c i cmd. fl_caller s c = Offering i cmd \<or> fl_caller s c = Waiting i cmd \<longrightarrow> calls c cmd) \<and>
     (\<forall>c i cmd. fl_caller s c = Waiting i cmd \<longrightarrow> fl_task s = TaskDown \<or> (c, i, cmd) \<in> in_service s) \<and>
     (fl_task s = TaskDown \<longrightarrow> fl_cmds s = [])"

lemma handle_call_simps [simp]:
  "handle_call False x = Err ''mqtt client channel closed''" "handle_call True None = Err ''mqtt client dropped reply''"
  "handle_call True (Some r) = r"
  by (simp_all add: handle_call_def)

lemma answer_simps [simp]:
  "fl_cmds (answer c i cmd r s) = fl_cmds s" "fl_requests (answer c i cmd r s) = fl_requests s"
  "fl_inbound (answer c i cmd r s) = fl_inbound s" "fl_loop (answer c i cmd r s) = fl_loop s"
  "fl_ls (answer c i cmd r s) = fl_ls s" "fl_task (answer c i cmd r s) = fl_task s"
  "fl_taken (answer c i cmd r s) = fl_taken s" "fl_wire (answer c i cmd r s) = fl_wire s"
  "fl_next (answer c i cmd r s) = fl_next s" "fl_stopping (answer c i cmd r s) = fl_stopping s"
  "fl_results (answer c i cmd r s) = fl_results s @ [(i, cmd, r)]"
  by (simp_all add: answer_def)

lemma answer_caller [simp]:
  "fl_caller (answer c i cmd r s) c' = Waiting j d \<longleftrightarrow> fl_caller s c' = Waiting j d \<and> (c', j, d) \<noteq> (c, i, cmd)"
  "fl_caller (answer c i cmd r s) c' = Offering j d \<longleftrightarrow> fl_caller s c' = Offering j d"
  by (auto simp: answer_def)

lemma flow_bounded_env: "flow_bounded s \<Longrightarrow> env_step s t \<Longrightarrow> flow_bounded t"
  by (erule env_step.cases) (auto simp: flow_bounded_def)

lemma flow_bounded_task: "flow_bounded s \<Longrightarrow> task_step valid s t \<Longrightarrow> flow_bounded t"
  by (erule task_step.cases) (auto simp: flow_bounded_def)

lemma loop_step_running [simp]:
  "ls_running (loop_step (LoopPoll p b) s) = ls_running s" "ls_running (loop_step LoopShutdown s) = False"
  by (cases "(p, b, s)" rule: handle_packet.cases; auto split: option.splits)+

lemma loop_step_inbound [simp]:
  "\<forall>m. p \<noteq> InPublish m \<Longrightarrow> ls_inbound (loop_step (LoopPoll p b) s) = ls_inbound s"
  "ls_inbound (loop_step LoopShutdown s) = ls_inbound s"
  by (cases "(p, b, s)" rule: handle_packet.cases; auto split: option.splits)+

lemma flow_fifo_env: "flow_fifo s \<Longrightarrow> env_step s t \<Longrightarrow> flow_fifo t"
  by (erule env_step.cases) (auto simp: flow_fifo_def answered_def simp del: loop_step.simps)

lemma flow_fifo_task: "flow_fifo s \<Longrightarrow> task_step valid s t \<Longrightarrow> flow_fifo t"
  by (erule task_step.cases) (auto simp: flow_fifo_def answered_def)

lemma flow_calls_env: "flow_calls s \<Longrightarrow> env_step s t \<Longrightarrow> flow_calls t"
  by (erule env_step.cases) (auto simp: flow_calls_def in_service_def)

lemma flow_calls_task: "flow_calls s \<Longrightarrow> task_step valid s t \<Longrightarrow> flow_calls t"
  by (erule task_step.cases;
      auto simp: flow_calls_def in_service_def split: task_phase.splits if_splits; blast)

definition flow_inv :: "flow \<Rightarrow> bool" where
  "flow_inv s \<longleftrightarrow> flow_bounded s \<and> flow_fifo s \<and> flow_calls s"

lemmas flow_preserved = flow_bounded_env flow_bounded_task flow_fifo_env flow_fifo_task flow_calls_env flow_calls_task

lemma flow_inv_init: "flow_inv (flow_init tx)"
  by (simp add: flow_inv_def flow_bounded_def flow_fifo_def flow_calls_def flow_init_def answered_def loop_init_def)

lemma flow_inv_reach: "flow_reach valid (flow_init tx) s \<Longrightarrow> flow_inv s"
proof (induction rule: flow_reach_invariant)
  case start
  show ?case by (rule flow_inv_init)
qed (auto simp: flow_inv_def intro: flow_preserved)

subsection \<open>Progress, and the one state without it\<close>

text \<open>
  The cyclic wait: the event loop waits for room in the full inbound queue, the message loop that
  would make room waits for its subscription, the command task that would answer it waits for room
  in the client's request queue, and the event loop is the one to empty that queue.
\<close>

definition cyclic_wait :: "(mqtt_command \<Rightarrow> bool) \<Rightarrow> flow \<Rightarrow> bool" where
  "cyclic_wait valid s \<longleftrightarrow>
     (\<exists>msg. fl_loop s = Forwarding msg) \<and> length (fl_inbound s) = MSG_CAPACITY \<and>
     (\<exists>c i cmd. fl_task s = Executing c i cmd \<and> valid cmd) \<and> length (fl_requests s) = REQ_CAPACITY \<and>
     (\<exists>i topic qos. fl_caller s MessageLoop \<in> {Offering i (Subscribe topic qos), Waiting i (Subscribe topic qos)})"

definition pending :: "flow \<Rightarrow> bool" where
  "pending s \<longleftrightarrow> (\<exists>c. fl_caller s c \<noteq> Free) \<or> fl_loop s \<notin> {Polling, LoopDown} \<or> fl_task s \<notin> {Receiving, TaskDown} \<or>
     fl_cmds s \<noteq> [] \<or> fl_inbound s \<noteq> [] \<or> (fl_requests s \<noteq> [] \<and> fl_loop s = Polling)"

text \<open>
  A stopped event loop that waits for room to queue its disconnection, which only the event loop
  itself could make.
\<close>

definition disconnect_wait :: "flow \<Rightarrow> bool" where
  "disconnect_wait s \<longleftrightarrow> fl_loop s = Disconnecting \<and> length (fl_requests s) = REQ_CAPACITY"

definition blocked :: "(mqtt_command \<Rightarrow> bool) \<Rightarrow> flow \<Rightarrow> bool" where
  "blocked valid s \<longleftrightarrow> cyclic_wait valid s \<or> disconnect_wait s"

text \<open>Once there, the tasks never leave the cyclic wait, and nothing moves any more.\<close>

lemma cyclic_wait_env:
  assumes "cyclic_wait valid s" and "env_step s t"
  shows "cyclic_wait valid t \<and> fl_taken t = fl_taken s \<and> fl_wire t = fl_wire s \<and> fl_results t = fl_results s"
  using assms(2,1) by (cases rule: env_step.cases) (auto simp: cyclic_wait_def)

lemma cyclic_wait_task:
  assumes "cyclic_wait valid s" and "task_step valid s t"
  shows "cyclic_wait valid t \<and> fl_taken t = fl_taken s \<and> fl_wire t = fl_wire s \<and> fl_results t = fl_results s"
  using assms(2,1) by (cases rule: task_step.cases) (auto simp: cyclic_wait_def)

lemma cyclic_wait_reach:
  assumes "flow_reach valid s t" and "cyclic_wait valid s"
  shows "cyclic_wait valid t \<and> fl_taken t = fl_taken s \<and> fl_wire t = fl_wire s \<and> fl_results t = fl_results s"
  using assms
proof (induction rule: flow_reach.induct)
  case (flow_env s t u)
  then show ?case using cyclic_wait_env [of valid t u] by simp
next
  case (flow_task s t u)
  then show ?case using cyclic_wait_task [of valid t u] by simp
qed simp

lemma disconnect_wait_reach:
  "flow_reach valid s t \<Longrightarrow> disconnect_wait s \<Longrightarrow> disconnect_wait t \<and> fl_wire t = fl_wire s"
proof (induction rule: flow_reach.induct)
  case (flow_env s t u)
  from flow_env(2) show ?case using flow_env.IH [OF flow_env.prems]
    by (cases rule: env_step.cases) (auto simp: disconnect_wait_def)
next
  case (flow_task s t u)
  from flow_task(2) show ?case using flow_task.IH [OF flow_task.prems]
    by (cases rule: task_step.cases) (auto simp: disconnect_wait_def)
qed simp

text \<open>Every other state with something pending has a step.\<close>

lemma caller_moves:
  assumes "flow_inv s" and "fl_caller s c \<noteq> Free"
  shows "(\<exists>t. task_step valid s t) \<or> (\<exists>c i cmd. fl_task s = Executing c i cmd)"
proof (cases "fl_task s")
  case TaskDown
  with assms(2) show ?thesis
    by (cases "fl_caller s c") (auto intro: task_step.intros)
next
  case Receiving
  show ?thesis
  proof (cases "fl_cmds s")
    case Nil
    then have "fl_caller s c \<noteq> Waiting i cmd" for i cmd
      using assms(1) Receiving by (auto simp: flow_inv_def flow_calls_def in_service_def)
    then obtain i cmd where "fl_caller s c = Offering i cmd" using assms(2) by (cases "fl_caller s c") auto
    then show ?thesis using task_step.send [of s c i cmd valid] Nil Receiving by (auto simp: capacities)
  next
    case (Cons x q)
    obtain c' i cmd where "x = (c', i, cmd)" by (cases x)
    then show ?thesis using task_step.take_command [OF Receiving, of c' i cmd q valid] Cons by auto
  qed
qed blast

lemma execution_moves:
  assumes "fl_task s = Executing c i cmd" and "\<not> (valid cmd \<and> length (fl_requests s) = REQ_CAPACITY)" and "flow_bounded s"
  shows "\<exists>t. task_step valid s t"
proof (cases "valid cmd \<and> fl_loop s \<noteq> LoopDown")
  case True
  then have "length (fl_requests s) < REQ_CAPACITY" using assms(2,3) by (auto simp: flow_bounded_def)
  with True show ?thesis using task_step.request [OF assms(1)] by blast
next
  case False
  then show ?thesis using task_step.request_fails [OF assms(1)] by blast
qed

lemma loop_moves:
  assumes "flow_inv s" and "fl_loop s \<notin> {Polling, LoopDown}"
  shows "(\<exists>t. task_step valid s t) \<or> disconnect_wait s \<or>
    (\<exists>msg. fl_loop s = Forwarding msg) \<and> length (fl_inbound s) = MSG_CAPACITY \<and>
    (\<exists>i topic qos. fl_caller s MessageLoop \<in> {Offering i (Subscribe topic qos), Waiting i (Subscribe topic qos)})"
proof (cases "fl_loop s")
  case (Forwarding msg)
  show ?thesis
  proof (cases "length (fl_inbound s) < MSG_CAPACITY")
    case True
    then show ?thesis using task_step.forward [OF Forwarding] by blast
  next
    case False
    then have full: "length (fl_inbound s) = MSG_CAPACITY" using assms(1) by (auto simp: flow_inv_def flow_bounded_def)
    then obtain m q where ne: "fl_inbound s = m # q" by (cases "fl_inbound s") (auto simp: capacities)
    show ?thesis
    proof (cases "fl_caller s MessageLoop")
      case Free
      then show ?thesis using task_step.take_message [OF _ ne] by blast
    next
      case (Offering i cmd)
      then have "calls MessageLoop cmd" using assms(1) by (auto simp: flow_inv_def flow_calls_def)
      then show ?thesis using Offering ne Forwarding full task_step.give_up [of s i cmd valid] by (cases cmd) auto
    next
      case (Waiting i cmd)
      then have "calls MessageLoop cmd" using assms(1) by (auto simp: flow_inv_def flow_calls_def)
      then show ?thesis using Waiting ne Forwarding full task_step.give_up [of s i cmd valid] by (cases cmd) auto
    qed
  qed
next
  case (Backoff e)
  then show ?thesis using task_step.wake by blast
next
  case Disconnecting
  then show ?thesis using task_step.disconnected [OF Disconnecting, of valid] assms(1)
    by (auto simp: flow_inv_def flow_bounded_def disconnect_wait_def)
qed (use assms(2) in auto)

lemma flow_progress:
  assumes "flow_inv s" and "pending s" and "\<not> blocked valid s"
  shows "\<exists>t. task_step valid s t"
proof (rule ccontr)
  assume no: "\<nexists>t. task_step valid s t"
  have b: "flow_bounded s" using assms(1) by (simp add: flow_inv_def)
  have ex: "\<exists>c i cmd. fl_task s = Executing c i cmd" if "fl_caller s c \<noteq> Free" for c
    using caller_moves [OF assms(1) that] no by blast
  have poll: "fl_requests s = []" if "fl_loop s = Polling"
    using task_step.poll_request [OF that] no by (cases "fl_requests s") blast+
  have full: "valid cmd \<and> length (fl_requests s) = REQ_CAPACITY \<and> (\<exists>msg. fl_loop s = Forwarding msg) \<and>
      length (fl_inbound s) = MSG_CAPACITY \<and>
      (\<exists>i topic qos. fl_caller s MessageLoop \<in> {Offering i (Subscribe topic qos), Waiting i (Subscribe topic qos)})"
    if e: "fl_task s = Executing c i cmd" for c i cmd
  proof -
    have v: "valid cmd" "length (fl_requests s) = REQ_CAPACITY" using execution_moves [OF e _ b] no by blast+
    then have "fl_loop s \<noteq> Polling" using poll by (auto simp: capacities)
    moreover have "fl_loop s \<noteq> LoopDown" using task_step.request_fails [OF e] no by blast
    moreover have "\<not> disconnect_wait s" using assms(3) by (simp add: blocked_def)
    ultimately show ?thesis using v loop_moves [OF assms(1), of valid] no by blast
  qed
  then have noex: "fl_task s \<noteq> Executing c i cmd" for c i cmd
    using assms(3) unfolding blocked_def cyclic_wait_def by blast
  then have free: "fl_caller s c = Free" for c using ex by blast
  have "fl_loop s \<in> {Polling, LoopDown}" using loop_moves [OF assms(1), of valid] no free assms(3) by (auto simp: blocked_def)
  moreover have "fl_inbound s = []"
    using task_step.take_message [OF free] no by (cases "fl_inbound s") blast+
  moreover have "fl_task s = Receiving \<Longrightarrow> fl_cmds s = []"
    using task_step.take_command no by (cases "fl_cmds s") fastforce+
  then have "fl_cmds s = []" using noex assms(1) by (cases "fl_task s") (auto simp: flow_inv_def flow_calls_def)
  moreover have "fl_task s \<in> {Receiving, TaskDown}" using noex by (cases "fl_task s") auto
  ultimately show False using assms(2) free poll by (auto simp: pending_def)
qed

text \<open>Left to themselves the tasks come to rest: a bound on the number of their steps.\<close>

fun caller_work :: "caller_phase \<Rightarrow> nat" where
  "caller_work Free = 0" | "caller_work (Offering i cmd) = 5" | "caller_work (Waiting i cmd) = 1"

fun loop_work :: "loop_phase \<Rightarrow> nat" where
  "loop_work LoopDown = 0" | "loop_work Disconnecting = 1" | "loop_work Polling = 2"
| "loop_work (Backoff e) = 3" | "loop_work (Forwarding m) = 4"

fun task_work :: "task_phase \<Rightarrow> nat" where
  "task_work TaskDown = 0" | "task_work Receiving = 1" | "task_work (Executing c i cmd) = 3"

definition flow_work :: "flow \<Rightarrow> nat" where
  "flow_work s = caller_work (fl_caller s MessageLoop) + caller_work (fl_caller s BroadcastLoop) +
     loop_work (fl_loop s) + task_work (fl_task s) + 3 * length (fl_cmds s) + length (fl_requests s) +
     length (fl_inbound s)"

lemma answer_work:
  "caller_work (fl_caller (answer c i cmd r s) c') \<le> caller_work (fl_caller s c')"
  by (simp add: answer_def)

lemma task_step_work: "task_step valid s t \<Longrightarrow> flow_work t < flow_work s"
proof (induction rule: task_step.induct)
  case (send s c i cmd)
  then show ?case by (cases c) (simp_all add: flow_work_def)
next
  case (send_closed s c i cmd)
  then show ?case by (cases c) (simp_all add: flow_work_def)
next
  case (reply_dropped s c i cmd)
  then show ?case by (cases c) (simp_all add: flow_work_def answer_def)
next
  case (give_up s i cmd)
  then show ?case by (auto simp: flow_work_def)
next
  case (request s c i cmd)
  then show ?case
    using answer_work [of c i cmd "Ok ()" s MessageLoop] answer_work [of c i cmd "Ok ()" s BroadcastLoop]
    by (simp add: flow_work_def)
next
  case (request_fails s c i cmd e)
  then show ?case
    using answer_work [of c i cmd "Err (client_error cmd e)" s MessageLoop]
      answer_work [of c i cmd "Err (client_error cmd e)" s BroadcastLoop]
    by (simp add: flow_work_def)
qed (simp_all add: flow_work_def)

lemma task_steps_work: "(task_step valid ^^ n) s t \<Longrightarrow> n + flow_work t \<le> flow_work s"
proof (induction n arbitrary: t)
  case (Suc n)
  then obtain u where "(task_step valid ^^ n) s u" "task_step valid u t" by auto
  with Suc.IH [of u] task_step_work [of valid u t] show ?case by simp
qed simp

lemma task_steps_reach: "(task_step valid)\<^sup>*\<^sup>* s t \<Longrightarrow> flow_reach valid s t"
  by (induction rule: rtranclp_induct) (auto intro: flow_reach.intros)

lemma flow_settles_from:
  assumes "flow_inv s"
  shows "\<exists>t. (task_step valid)\<^sup>*\<^sup>* s t \<and> (\<not> pending t \<or> blocked valid t)"
  using assms
proof (induction "flow_work s" arbitrary: s rule: less_induct)
  case less
  show ?case
  proof (cases "\<not> pending s \<or> blocked valid s")
    case False
    then obtain u where u: "task_step valid s u" using flow_progress [OF less.prems] by blast
    have "flow_inv u" using less.prems u by (auto simp: flow_inv_def intro: flow_preserved)
    with less.hyps [OF task_step_work [OF u]] u show ?thesis by (meson converse_rtranclp_into_rtranclp)
  qed blast
qed

lemma loop_refines:
  "flow_reach valid (flow_init tx) s \<Longrightarrow> \<exists>evs. fl_ls s = eventloop_task tx evs"
proof (induction rule: flow_reach_invariant)
  case start
  have "fl_ls (flow_init tx) = eventloop_task tx []" by (simp add: flow_init_def eventloop_task_def)
  then show ?case ..
next
  case (env t u)
  have "loop_step ev (eventloop_task tx evs) = eventloop_task tx (evs @ [ev])" for ev evs
    by (simp add: eventloop_task_def)
  with env(2,1) show ?case by (cases rule: env_step.cases) (auto simp del: loop_step.simps)
next
  case (task t u)
  have "loop_step ev (eventloop_task tx evs) = eventloop_task tx (evs @ [ev])" for ev evs
    by (simp add: eventloop_task_def)
  with task(2,1) show ?case by (cases rule: task_step.cases) (auto simp del: loop_step.simps)
qed

subsection \<open>A run into the cyclic wait\<close>

definition quiet :: "flow \<Rightarrow> bool" where
  "quiet s \<longleftrightarrow> fl_loop s = Polling \<and> fl_task s = Receiving \<and> fl_cmds s = [] \<and> fl_inbound s = [] \<and> (\<forall>c. fl_caller s c = Free)"

text \<open>
  What the tasks do of themselves, without the message loop taking a message or giving up a call, and
  what reaches them from outside other than calls.
\<close>

definition tasks_move :: "(mqtt_command \<Rightarrow> bool) \<Rightarrow> flow \<Rightarrow> flow \<Rightarrow> bool" where
  "tasks_move valid f f' \<longleftrightarrow> task_step valid f f' \<and> fl_taken f' = fl_taken f \<and>
     (fl_results f' = fl_results f \<longrightarrow> (\<forall>c. fl_caller f' c = Free \<longrightarrow> fl_caller f c = Free))"

definition own_step :: "(mqtt_command \<Rightarrow> bool) \<Rightarrow> flow \<Rightarrow> flow \<Rightarrow> bool" where
  "own_step valid f f' \<longleftrightarrow> tasks_move valid f f' \<or> env_step f f' \<and> fl_caller f' = fl_caller f"

lemma own_steps_reach: "(own_step valid)\<^sup>*\<^sup>* s t \<Longrightarrow> flow_reach valid s t"
  by (induction rule: rtranclp_induct) (auto simp: own_step_def tasks_move_def intro: flow_reach.intros)

lemma offer_served:
  assumes "fl_caller s c = Offering i cmd" and "fl_task s = Receiving" and "fl_cmds s = []"
  shows "(own_step valid)\<^sup>*\<^sup>* s (s\<lparr>fl_caller := (fl_caller s)(c := Waiting i cmd), fl_task := Executing c i cmd\<rparr>)"
proof -
  let ?t = "s\<lparr>fl_caller := (fl_caller s)(c := Waiting i cmd), fl_task := Executing c i cmd\<rparr>"
  let ?s1 = "s\<lparr>fl_caller := (fl_caller s)(c := Waiting i cmd), fl_cmds := fl_cmds s @ [(c, i, cmd)]\<rparr>"
  have "task_step valid s ?s1" using assms by (intro task_step.send) (simp_all add: capacities)
  then have "own_step valid s ?s1" by (auto simp: own_step_def tasks_move_def)
  moreover have "task_step valid ?s1 (?s1\<lparr>fl_task := Executing c i cmd, fl_cmds := []\<rparr>)"
    using assms by (intro task_step.take_command) simp_all
  moreover have "?s1\<lparr>fl_task := Executing c i cmd, fl_cmds := []\<rparr> = ?t" using assms(3) by simp
  ultimately have "own_step valid s ?s1" "own_step valid ?s1 ?t" by (simp_all add: own_step_def tasks_move_def)
  then show ?thesis by auto
qed

lemma execution_served:
  assumes "fl_caller s c = Waiting i cmd" and "fl_task s = Executing c i cmd" and "valid cmd" and "fl_loop s \<noteq> LoopDown"
    and "length (fl_requests s) < REQ_CAPACITY"
  shows "own_step valid s (s\<lparr>fl_caller := (fl_caller s)(c := Free), fl_results := fl_results s @ [(i, cmd, Ok ())],
    fl_task := Receiving, fl_requests := fl_requests s @ [cmd]\<rparr>)"
  using task_step.request [of s c i cmd valid] assms by (auto simp: own_step_def tasks_move_def answer_def)

lemma publish_call:
  assumes "quiet s"
  shows "\<exists>t i. flow_reach valid s t \<and> fl_task t = Executing BroadcastLoop i (Publish topic q p) \<and>
    fl_caller t = (fl_caller s)(BroadcastLoop := Waiting i (Publish topic q p)) \<and> fl_cmds t = [] \<and>
    fl_loop t = Polling \<and> fl_requests t = fl_requests s \<and> fl_inbound t = []"
proof -
  let ?cmd = "Publish topic q p" and ?i = "fl_next s"
  let ?s1 = "s\<lparr>fl_caller := (fl_caller s)(BroadcastLoop := Offering ?i ?cmd), fl_next := Suc ?i\<rparr>"
  let ?s2 = "?s1\<lparr>fl_caller := (fl_caller ?s1)(BroadcastLoop := Waiting ?i ?cmd), fl_task := Executing BroadcastLoop ?i ?cmd\<rparr>"
  have "env_step s ?s1" using assms by (intro env_step.call) (simp_all add: quiet_def)
  then have "flow_reach valid s ?s1" using flow_reach.intros by blast
  moreover have "(own_step valid)\<^sup>*\<^sup>* ?s1 ?s2" using assms by (intro offer_served) (simp_all add: quiet_def)
  ultimately have "flow_reach valid s ?s2" using own_steps_reach flow_reach_trans by blast
  then show ?thesis using assms by (intro exI [of _ ?s2] exI [of _ ?i]) (simp add: quiet_def)
qed

lemma publish_round:
  assumes "quiet s" and "length (fl_requests s) < REQ_CAPACITY" and "valid (Publish topic q p)"
  shows "\<exists>t. flow_reach valid s t \<and> quiet t \<and> length (fl_requests t) = Suc (length (fl_requests s))"
proof -
  let ?cmd = "Publish topic q p"
  obtain t i where t: "flow_reach valid s t" "fl_task t = Executing BroadcastLoop i ?cmd"
    "fl_caller t = (fl_caller s)(BroadcastLoop := Waiting i ?cmd)" "fl_cmds t = []" "fl_loop t = Polling"
    "fl_requests t = fl_requests s" "fl_inbound t = []"
    using publish_call [OF assms(1)] by blast
  let ?u = "t\<lparr>fl_caller := (fl_caller t)(BroadcastLoop := Free), fl_results := fl_results t @ [(i, ?cmd, Ok ())],
    fl_task := Receiving, fl_requests := fl_requests t @ [?cmd]\<rparr>"
  have "own_step valid t ?u" using t assms by (intro execution_served) simp_all
  then have "flow_reach valid t ?u" using own_steps_reach by blast
  with t(1) have "flow_reach valid s ?u" by (rule flow_reach_trans)
  moreover have "quiet ?u" using t assms(1) by (simp add: quiet_def)
  ultimately show ?thesis using t by (intro exI [of _ ?u]) simp
qed

lemma publish_rounds:
  assumes "n \<le> REQ_CAPACITY" and "valid (Publish topic q p)"
  shows "\<exists>s. flow_reach valid (flow_init tx) s \<and> quiet s \<and> length (fl_requests s) = n"
  using assms(1)
proof (induction n)
  case 0
  have "quiet (flow_init tx)" "length (fl_requests (flow_init tx)) = 0" by (simp_all add: quiet_def flow_init_def)
  then show ?case using flow_reach.flow_refl by blast
next
  case (Suc n)
  then obtain s where "flow_reach valid (flow_init tx) s" "quiet s" "length (fl_requests s) = n" by auto
  with publish_round [of s valid topic q p] Suc.prems assms(2) show ?case by (metis flow_reach_trans less_eq_Suc_le)
qed

lemma message_rounds:
  assumes "fl_loop s = Polling" and "fl_inbound s = []" and "n \<le> MSG_CAPACITY"
  shows "\<exists>t. (own_step valid)\<^sup>*\<^sup>* s t \<and> fl_loop t = Polling \<and> length (fl_inbound t) = n \<and> fl_requests t = fl_requests s \<and>
    fl_task t = fl_task s \<and> fl_caller t = fl_caller s \<and> fl_cmds t = fl_cmds s"
  using assms(3)
proof (induction n)
  case 0
  then show ?case using assms by auto
next
  case (Suc n)
  then obtain t where t: "(own_step valid)\<^sup>*\<^sup>* s t" "fl_loop t = Polling" "length (fl_inbound t) = n"
    "fl_requests t = fl_requests s" "fl_task t = fl_task s" "fl_caller t = fl_caller s" "fl_cmds t = fl_cmds s" by auto
  fix m
  let ?t1 = "t\<lparr>fl_loop := Forwarding m\<rparr>"
  let ?t2 = "?t1\<lparr>fl_loop := Polling, fl_inbound := fl_inbound ?t1 @ [m], fl_ls := loop_step (LoopPoll (InPublish m) True) (fl_ls ?t1)\<rparr>"
  have "env_step t ?t1" using t(2) by (rule env_step.publish_arrives)
  moreover have "task_step valid ?t1 ?t2" using Suc.prems t by (intro task_step.forward) simp_all
  ultimately have "own_step valid t ?t1" "own_step valid ?t1 ?t2" by (auto simp: own_step_def tasks_move_def)
  with t(1) have "(own_step valid)\<^sup>*\<^sup>* s ?t2" by (meson rtranclp.rtrancl_into_rtrancl)
  then show ?case using t by (intro exI [of _ ?t2]) simp
qed

lemma cyclic_wait_reachable:
  assumes "valid (Publish topic q p)"
  shows "\<exists>s. flow_reach valid (flow_init tx) s \<and> cyclic_wait valid s"
proof -
  obtain s where s: "flow_reach valid (flow_init tx) s" "quiet s" "length (fl_requests s) = REQ_CAPACITY"
    using publish_rounds [of REQ_CAPACITY valid topic q p tx] assms by blast
  obtain t i where t: "flow_reach valid s t" "fl_task t = Executing BroadcastLoop i (Publish topic q p)"
    "fl_caller t MessageLoop = Free" "fl_loop t = Polling" "fl_requests t = fl_requests s" "fl_inbound t = []"
    using publish_call [OF s(2), of valid topic q p] s(2) by (auto simp: quiet_def)
  let ?t1 = "t\<lparr>fl_caller := (fl_caller t)(MessageLoop := Offering (fl_next t) (Subscribe [] AtLeastOnce)), fl_next := Suc (fl_next t)\<rparr>"
  have t1: "env_step t ?t1" using t(3) by (rule env_step.call) simp
  obtain u where u: "flow_reach valid ?t1 u" "fl_loop u = Polling" "length (fl_inbound u) = MSG_CAPACITY"
    "fl_requests u = fl_requests ?t1" "fl_task u = fl_task ?t1" "fl_caller u = fl_caller ?t1"
    using message_rounds [of ?t1 MSG_CAPACITY valid] t own_steps_reach [of valid ?t1] by auto
  fix m
  let ?u = "u\<lparr>fl_loop := Forwarding m\<rparr>"
  have "flow_reach valid (flow_init tx) ?t1" using flow_reach_trans [OF s(1) t(1)] t1 by (rule flow_reach.flow_env)
  then have "flow_reach valid (flow_init tx) ?u"
    using flow_reach.flow_env [OF flow_reach_trans [OF _ u(1)] env_step.publish_arrives [OF u(2)]] by blast
  moreover have "cyclic_wait valid ?u" using u t s assms by (simp add: cyclic_wait_def)
  ultimately show ?thesis by blast
qed

subsection \<open>Properties\<close>

text \<open>
  C18: Between the MQTT tasks nothing is lost, reordered or overfilled, whatever the interleaving:
  each queue stays within its capacity; the messages taken by the message loop and those queued
  for it are what the event loop forwarded, in order; and the commands answered \<open>Ok\<close> are exactly the
  requests handed to the client, in order.
\<close>

theorem flow_fifo_bounded:
  assumes "flow_reach valid (flow_init tx) s"
  shows "length (fl_cmds s) \<le> 64 \<and> length (fl_requests s) \<le> 10 \<and> length (fl_inbound s) \<le> 64 \<and>
    (\<exists>evs. fl_ls s = eventloop_task tx evs \<and>
       concat (map inbound_of (before_shutdown evs)) = fl_taken s @ fl_inbound s) \<and>
    map (\<lambda>(i, cmd, r). cmd) (filter (\<lambda>(i, cmd, r). r = Ok ()) (fl_results s)) = fl_wire s @ fl_requests s"
proof -
  obtain evs where e: "fl_ls s = eventloop_task tx evs" using loop_refines [OF assms] by blast
  have "ls_inbound (eventloop_task tx evs) = concat (map inbound_of (before_shutdown evs))"
    using fold_loop_step [of "loop_init tx" evs] by (simp add: eventloop_task_def loop_init_def)
  with e flow_inv_reach [OF assms] show ?thesis
    by (auto simp: flow_inv_def flow_bounded_def flow_fifo_def capacities answered_def)
qed

theorem flow_fifo_bounded_witness:
  "\<exists>s :: flow. length (fl_requests s) = REQ_CAPACITY \<and> length (fl_cmds s) \<le> 64 \<and>
     map (\<lambda>(i, cmd, r). cmd) (filter (\<lambda>(i, cmd, r). r = Ok ()) (fl_results s)) = fl_wire s @ fl_requests s"
proof -
  obtain s where s: "flow_reach (\<lambda>_. True) (flow_init 0) s" "length (fl_requests s) = REQ_CAPACITY"
    using publish_rounds [of REQ_CAPACITY "\<lambda>_. True"] by blast
  show ?thesis using flow_fifo_bounded [OF s(1)] s(2) by (intro exI [of _ s]) simp
qed



text \<open>
  C20: The cycle is reachable: when the client's request queue and the inbound queue are full while
  the message loop waits for a subscription, no task ever moves again, whatever happens, not even
  when the service is stopped: no message is taken, no request is sent and no call returns.
\<close>

theorem flow_deadlock:
  assumes "valid (Publish topic q p)"
  shows "\<exists>s. flow_reach valid (flow_init tx) s \<and> cyclic_wait valid s \<and>
    (\<forall>t. flow_reach valid s t \<longrightarrow> fl_taken t = fl_taken s \<and> fl_wire t = fl_wire s \<and> fl_results t = fl_results s \<and>
       fl_loop t \<noteq> LoopDown \<and> fl_task t \<noteq> TaskDown)"
proof -
  obtain s where s: "flow_reach valid (flow_init tx) s" "cyclic_wait valid s"
    using cyclic_wait_reachable [of valid topic q p tx] assms by blast
  have "fl_loop t \<noteq> LoopDown \<and> fl_task t \<noteq> TaskDown" if "cyclic_wait valid t" for t
    using that by (auto simp: cyclic_wait_def)
  with s cyclic_wait_reach [OF _ s(2)] show ?thesis by blast
qed

theorem flow_deadlock_witness:
  "\<exists>s. flow_reach (\<lambda>_. True) (flow_init 0) s \<and> cyclic_wait (\<lambda>_. True) s"
  using flow_deadlock [of "\<lambda>_. True" _ _ _ 0] by blast

text \<open>
  A stop can hang: when the client's request queue is full as the event loop takes the shutdown
  signal, the task waits for ever to queue its disconnection, and no request reaches the broker any
  more. (With room in the queue the task ends, but the disconnection is queued and never polled.)
\<close>

theorem flow_stop_hangs:
  assumes "valid (Publish topic q p)"
  shows "\<exists>s. flow_reach valid (flow_init tx) s \<and> fl_stopping s \<and> length (fl_requests s) = 10 \<and>
    (\<forall>t. flow_reach valid s t \<longrightarrow> fl_loop t = Disconnecting \<and> fl_wire t = fl_wire s)"
proof -
  obtain s where s: "flow_reach valid (flow_init tx) s" "quiet s" "length (fl_requests s) = REQ_CAPACITY"
    using publish_rounds [of REQ_CAPACITY valid topic q p tx] assms by blast
  let ?s1 = "s\<lparr>fl_stopping := True\<rparr>"
  let ?s2 = "?s1\<lparr>fl_loop := Disconnecting\<rparr>"
  have "task_step valid ?s1 ?s2" using s(2) by (intro task_step.event_loop_stops) (simp_all add: quiet_def)
  then have "flow_reach valid (flow_init tx) ?s2"
    using flow_reach.flow_env [OF s(1) env_step.service_stop] by (rule flow_reach.flow_task [rotated])
  moreover have "disconnect_wait ?s2" using s(3) by (simp add: disconnect_wait_def)
  ultimately show ?thesis using disconnect_wait_reach [of valid ?s2] s(3)
    by (intro exI [of _ ?s2]) (auto simp: disconnect_wait_def capacities)
qed

theorem flow_stop_hangs_witness:
  "\<exists>s. flow_reach (\<lambda>_. True) (flow_init 0) s \<and> fl_stopping s \<and> length (fl_requests s) = 10"
  using flow_stop_hangs [of "\<lambda>_. True" _ _ _ 0] by blast

end
