(* ===== verification/Node_Flow.thy ===== *)
theory Node_Flow
  imports Node_Spec Mqtt_Flow
begin

section \<open>The node on its MQTT client (\<open>src/app.rs\<close>, \<open>registry.rs\<close>, \<open>src/services/mqtt_client/\<close>)\<close>

text \<open>
  In \<open>Node\<close> a call of the MQTT handle answers at once; in \<open>Mqtt_Flow\<close> the callers are not modelled
  beyond their calls. Here both run together: the message loop and the broadcast loop make the calls
  the code makes, wait for their replies, and wait for the lock of the topic list. The state has the
  node, the MQTT tasks and where each of the two loops waits.

  The message loop registers one channel at a time: it subscribes, for a listening channel, and then
  writes the topic list, for a broadcasting one, and nothing interrupts it. A sweep goes through the
  stale beacons one by one: it unsubscribes, and then writes the list; it is a branch of the loop's
  \<open>select!\<close> and is dropped when a channel or a message is taken at one of these waits. The record of
  the beacon at hand is a local of the sweep until then, so that the beacon is gone, with its
  connection, when the sweep comes to the next one or is dropped.
\<close>

subsection \<open>State\<close>

datatype sweep_stage = Unsubscribing nat | Locking

datatype msg_phase =
    Selecting
  | Subscribing nat
  | Registering "unit res"
  | Sweeping nat "string list" sweep_stage

record ('kp, 'cert) system =
  sy_node :: "('kp, 'cert) node"
  sy_flow :: flow
  sy_msg :: msg_phase
  sy_cast :: "nat option"

definition system_init :: "('kp, 'cert) node \<Rightarrow> chan \<Rightarrow> ('kp, 'cert) system" where
  "system_init n tx = \<lparr>sy_node = n, sy_flow = flow_init tx, sy_msg = Selecting, sy_cast = None\<rparr>"

abbreviation records :: "('kp, 'cert) node \<Rightarrow> string \<rightharpoonup> beacon_record" where
  "records n \<equiv> rr_records (bl_registry (nw_loop (nd_net n)))"

subsection \<open>Steps\<close>

definition begin_call :: "caller \<Rightarrow> mqtt_command \<Rightarrow> flow \<Rightarrow> flow" where
  "begin_call c cmd f = f\<lparr>fl_caller := (fl_caller f)(c := Offering (fl_next f) cmd), fl_next := Suc (fl_next f)\<rparr>"

text \<open>The call has returned.\<close>

definition returned :: "caller \<Rightarrow> nat \<Rightarrow> unit res \<Rightarrow> flow \<Rightarrow> bool" where
  "returned c i r f \<longleftrightarrow> fl_caller f c = Free \<and> (\<exists>cmd. (i, cmd, r) \<in> set (fl_results f))"

definition channel_command :: "topic_channel \<Rightarrow> mqtt_command" where
  "channel_command ch = Subscribe (tc_topic (ch_topic ch)) (qos_from_u8 (tc_qos (ch_topic ch)))"

definition move_node :: "node_params \<Rightarrow> loop_input \<Rightarrow> ('kp, 'cert) node \<Rightarrow> ('kp, 'cert) node" where
  "move_node P i n = n\<lparr>nd_net := loop_move P i (nd_net n)\<rparr>"

text \<open>How many of its waits a sweep has behind it at the beacon at hand.\<close>

fun waits_done :: "beacon_record option \<Rightarrow> sweep_stage \<Rightarrow> nat" where
  "waits_done (Some r) Locking = (if br_listen_topic r = [] then 0 else 1)"
| "waits_done _ _ = 0"

text \<open>The loop is inside its \<open>select!\<close>; another branch is taken, and a sweep under way is dropped.\<close>

fun in_select :: "msg_phase \<Rightarrow> bool" where
  "in_select Selecting = True"
| "in_select (Sweeping now bids st) = True"
| "in_select _ = False"

definition interrupt :: "node_params \<Rightarrow> ('kp, 'cert) system \<Rightarrow> ('kp, 'cert) system" where
  "interrupt P s =
     (case sy_msg s of
        Sweeping now (bid # bids) st \<Rightarrow>
          s\<lparr>sy_node := move_node P (TimeoutSweep [bid] now (Some (waits_done (records (sy_node s) bid) st))) (sy_node s),
            sy_flow := (sy_flow s)\<lparr>fl_caller := (fl_caller (sy_flow s))(MessageLoop := Free)\<rparr>, sy_msg := Selecting\<rparr>
      | _ \<Rightarrow> s\<lparr>sy_msg := Selecting\<rparr>)"

text \<open>The sweep is done with a beacon; it goes on to the next one that makes it wait.\<close>

definition swept :: "node_params \<Rightarrow> nat \<Rightarrow> string \<Rightarrow> ('kp, 'cert) system \<Rightarrow> ('kp, 'cert) system" where
  "swept P now bid s = s\<lparr>sy_node := move_node P (TimeoutSweep [bid] now None) (sy_node s)\<rparr>"

fun sweep_next :: "node_params \<Rightarrow> nat \<Rightarrow> string list \<Rightarrow> ('kp, 'cert) system \<Rightarrow> ('kp, 'cert) system" where
  "sweep_next P now [] s = s\<lparr>sy_msg := Selecting\<rparr>"
| "sweep_next P now (bid # bids) s =
     (case records (sy_node s) bid of
        None \<Rightarrow> sweep_next P now bids s
      | Some r \<Rightarrow>
          if br_listen_topic r \<noteq> [] then
            s\<lparr>sy_msg := Sweeping now (bid # bids) (Unsubscribing (fl_next (sy_flow s))),
              sy_flow := begin_call MessageLoop (Unsubscribe (br_listen_topic r)) (sy_flow s)\<rparr>
          else if br_broadcast_topic r \<noteq> [] then s\<lparr>sy_msg := Sweeping now (bid # bids) Locking\<rparr>
          else sweep_next P now bids (swept P now bid s))"

text \<open>
  A step of the node aside from the MQTT calls: a request, an event of a connection, the start and
  the end of a broadcast cycle.
\<close>

definition node_aside ::
  "node_params \<Rightarrow> (('kp, 'cert) node \<Rightarrow> ('kp, 'cert, 'csr) http_env \<Rightarrow> bool) \<Rightarrow> ('kp, 'cert) node \<Rightarrow> ('kp, 'cert) node \<Rightarrow> bool" where
  "node_aside P U n n' \<longleftrightarrow> node_step P U n n' \<and> nw_loop (nd_net n') = nw_loop (nd_net n) \<and> nd_hand n' = nd_hand n \<and>
     nd_published n' = nd_published n"

inductive system_step ::
  "node_params \<Rightarrow> (('kp, 'cert) node \<Rightarrow> ('kp, 'cert, 'csr) http_env \<Rightarrow> bool) \<Rightarrow> (string \<Rightarrow> byte list) \<Rightarrow> (mqtt_command \<Rightarrow> bool) \<Rightarrow>
     ('kp, 'cert) system \<Rightarrow> ('kp, 'cert) system \<Rightarrow> bool"
  for P U utf8 valid where
  node_moves: "node_aside P U (sy_node s) n' \<Longrightarrow> system_step P U utf8 valid s (s\<lparr>sy_node := n'\<rparr>)"
| tasks: "tasks_move valid (sy_flow s) f' \<Longrightarrow> system_step P U utf8 valid s (s\<lparr>sy_flow := f'\<rparr>)"
| outside: "env_step (sy_flow s) f' \<Longrightarrow> fl_caller f' = fl_caller (sy_flow s) \<Longrightarrow>
     system_step P U utf8 valid s (s\<lparr>sy_flow := f'\<rparr>)"
| take_listening: "in_select (sy_msg s) \<Longrightarrow> s1 = interrupt P s \<Longrightarrow> queue (sy_node s1) = ch # q \<Longrightarrow>
     ch_topic_type ch \<noteq> Broadcast \<Longrightarrow>
     system_step P U utf8 valid s
       (s1\<lparr>sy_node := (sy_node s1)\<lparr>nd_world := (nd_world (sy_node s1))\<lparr>w_queue := q\<rparr>, nd_hand := Some (now, ch)\<rparr>,
           sy_flow := begin_call MessageLoop (channel_command ch) (sy_flow s1),
           sy_msg := Subscribing (fl_next (sy_flow s1))\<rparr>)"
| take_broadcasting: "in_select (sy_msg s) \<Longrightarrow> s1 = interrupt P s \<Longrightarrow> queue (sy_node s1) = ch # q \<Longrightarrow>
     ch_topic_type ch = Broadcast \<Longrightarrow>
     system_step P U utf8 valid s
       (s1\<lparr>sy_node := (sy_node s1)\<lparr>nd_world := (nd_world (sy_node s1))\<lparr>w_queue := q\<rparr>, nd_hand := Some (now, ch)\<rparr>,
           sy_msg := Registering (Ok ())\<rparr>)"
| subscribed: "sy_msg s = Subscribing i \<Longrightarrow> returned MessageLoop i r (sy_flow s) \<Longrightarrow>
     system_step P U utf8 valid s (s\<lparr>sy_msg := Registering r\<rparr>)"
| registers: "sy_msg s = Registering r \<Longrightarrow> nd_hand (sy_node s) = Some (now, ch) \<Longrightarrow>
     n' = (move_node P (NewChannel (\<lambda>_ _. r) now ch) (sy_node s))\<lparr>nd_hand := None\<rparr> \<Longrightarrow> lock_allows (sy_node s) (nd_net n') \<Longrightarrow>
     system_step P U utf8 valid s (s\<lparr>sy_node := n', sy_msg := Selecting\<rparr>)"
| ticks: "sy_msg s = Selecting \<Longrightarrow> set order = dom (records (sy_node s)) \<Longrightarrow>
     system_step P U utf8 valid s (sweep_next P now (stale_ids order now (bl_registry (nw_loop (nd_net (sy_node s))))) s)"
| unsubscribed: "sy_msg s = Sweeping now (bid # bids) (Unsubscribing i) \<Longrightarrow> returned MessageLoop i r (sy_flow s) \<Longrightarrow>
     records (sy_node s) bid = Some br \<Longrightarrow> br_broadcast_topic br \<noteq> [] \<Longrightarrow>
     system_step P U utf8 valid s (s\<lparr>sy_msg := Sweeping now (bid # bids) Locking\<rparr>)"
| unsubscribed_only: "sy_msg s = Sweeping now (bid # bids) (Unsubscribing i) \<Longrightarrow> returned MessageLoop i r (sy_flow s) \<Longrightarrow>
     records (sy_node s) bid = Some br \<Longrightarrow> br_broadcast_topic br = [] \<Longrightarrow>
     system_step P U utf8 valid s (sweep_next P now bids (swept P now bid s))"
| sweeps: "sy_msg s = Sweeping now (bid # bids) Locking \<Longrightarrow> s1 = swept P now bid s \<Longrightarrow> lock_allows (sy_node s) (nd_net (sy_node s1)) \<Longrightarrow>
     system_step P U utf8 valid s (sweep_next P now bids s1)"
| takes_message: "in_select (sy_msg s) \<Longrightarrow> s1 = interrupt P s \<Longrightarrow> fl_inbound (sy_flow s1) = m # q \<Longrightarrow>
     system_step P U utf8 valid s
       (s1\<lparr>sy_node := move_node P (Inbound now m) (sy_node s1),
           sy_flow := (sy_flow s1)\<lparr>fl_inbound := q, fl_taken := fl_taken (sy_flow s1) @ [m]\<rparr>\<rparr>)"
| publishes: "sy_cast s = None \<Longrightarrow> nd_round (sy_node s) = Some (topic # rest, payload) \<Longrightarrow>
     system_step P U utf8 valid s (s\<lparr>sy_cast := Some (fl_next (sy_flow s)),
       sy_flow := begin_call BroadcastLoop (Publish topic AtLeastOnce (utf8 payload)) (sy_flow s)\<rparr>)"
| published: "sy_cast s = Some i \<Longrightarrow> returned BroadcastLoop i r (sy_flow s) \<Longrightarrow>
     nd_round (sy_node s) = Some (topic # rest, payload) \<Longrightarrow>
     system_step P U utf8 valid s (s\<lparr>sy_cast := None,
       sy_node := (sy_node s)\<lparr>nd_round := Some (rest, payload), nd_published := nd_published (sy_node s) @ [(topic, payload)]\<rparr>\<rparr>)"

subsection \<open>Where the loops wait\<close>

text \<open>A call under way, or returned but not yet taken notice of.\<close>

definition engaged :: "caller \<Rightarrow> nat \<Rightarrow> (mqtt_command \<Rightarrow> bool) \<Rightarrow> flow \<Rightarrow> bool" where
  "engaged c i K f \<longleftrightarrow> (\<exists>cmd. K cmd \<and> (fl_caller f c \<in> {Offering i cmd, Waiting i cmd} \<or>
     fl_caller f c = Free \<and> (\<exists>r. (i, cmd, r) \<in> set (fl_results f))))"

fun is_subscribe :: "mqtt_command \<Rightarrow> bool" where
  "is_subscribe (Subscribe t q) = True"
| "is_subscribe _ = False"

fun msg_sync :: "msg_phase \<Rightarrow> ('kp, 'cert) node \<Rightarrow> flow \<Rightarrow> bool" where
  "msg_sync Selecting n f \<longleftrightarrow> nd_hand n = None \<and> fl_caller f MessageLoop = Free"
| "msg_sync (Subscribing i) n f \<longleftrightarrow> nd_hand n \<noteq> None \<and> engaged MessageLoop i is_subscribe f"
| "msg_sync (Registering r) n f \<longleftrightarrow> nd_hand n \<noteq> None \<and> fl_caller f MessageLoop = Free"
| "msg_sync (Sweeping now bids (Unsubscribing i)) n f \<longleftrightarrow> nd_hand n = None \<and> bids \<noteq> [] \<and> engaged MessageLoop i is_unsubscribe f"
| "msg_sync (Sweeping now bids Locking) n f \<longleftrightarrow> nd_hand n = None \<and> bids \<noteq> [] \<and> fl_caller f MessageLoop = Free"

definition publish_command :: "(string \<Rightarrow> byte list) \<Rightarrow> string \<times> string \<Rightarrow> mqtt_command" where
  "publish_command utf8 p = Publish (fst p) AtLeastOnce (utf8 (snd p))"

definition cast_sync :: "(string \<Rightarrow> byte list) \<Rightarrow> nat option \<Rightarrow> ('kp, 'cert) node \<Rightarrow> flow \<Rightarrow> bool" where
  "cast_sync utf8 cast n f \<longleftrightarrow>
     (case cast of
        None \<Rightarrow> fl_caller f BroadcastLoop = Free
      | Some i \<Rightarrow> \<exists>topic rest payload. nd_round n = Some (topic # rest, payload) \<and>
          engaged BroadcastLoop i (\<lambda>cmd. cmd = publish_command utf8 (topic, payload)) f)"

definition system_sync :: "(string \<Rightarrow> byte list) \<Rightarrow> ('kp, 'cert) system \<Rightarrow> bool" where
  "system_sync utf8 s \<longleftrightarrow> msg_sync (sy_msg s) (sy_node s) (sy_flow s) \<and> cast_sync utf8 (sy_cast s) (sy_node s) (sy_flow s)"

lemma task_caller:
  assumes "tasks_move valid f f'"
  obtains (same) "fl_caller f' c = fl_caller f c"
  | (sent) i cmd where "fl_caller f c = Offering i cmd" "fl_caller f' c = Waiting i cmd"
  | (replied) i cmd r where "fl_caller f c \<in> {Offering i cmd, Waiting i cmd}" "fl_caller f' c = Free"
      "fl_results f' = fl_results f @ [(i, cmd, r)]"
proof -
  have "task_step valid f f'" using assms by (simp add: tasks_move_def)
  then have "fl_caller f' c = fl_caller f c \<or> (\<exists>i cmd. fl_caller f c = Offering i cmd \<and> fl_caller f' c = Waiting i cmd) \<or>
     (\<exists>i cmd r. fl_caller f c \<in> {Offering i cmd, Waiting i cmd} \<and> fl_caller f' c = Free \<and> fl_results f' = fl_results f @ [(i, cmd, r)])"
  proof (cases rule: task_step.cases)
    case (give_up i cmd)
    then have "fl_caller f MessageLoop = Free" using assms by (simp add: tasks_move_def)
    with give_up show ?thesis by simp
  qed (auto simp: answer_def)
  then show ?thesis using same sent replied by blast
qed

lemma task_results: "tasks_move valid f f' \<Longrightarrow> \<exists>rs. fl_results f' = fl_results f @ rs"
  unfolding tasks_move_def by (elim conjE, erule task_step.cases) (auto simp: answer_def)

lemma engaged_task: "engaged c i K f \<Longrightarrow> tasks_move valid f f' \<Longrightarrow> engaged c i K f'"
proof -
  assume e: "engaged c i K f" and m: "tasks_move valid f f'"
  obtain rs where rs: "fl_results f' = fl_results f @ rs" using task_results [OF m] by blast
  from m e rs show ?thesis
    by (cases rule: task_caller [where c = c]) (auto 0 3 simp: engaged_def)
qed

lemma env_results: "env_step f f' \<Longrightarrow> fl_results f' = fl_results f"
  by (erule env_step.cases) auto

lemma engaged_env: "engaged c i K f \<Longrightarrow> env_step f f' \<Longrightarrow> fl_caller f' = fl_caller f \<Longrightarrow> engaged c i K f'"
  using env_results [of f f'] by (simp add: engaged_def)

lemma free_task: "fl_caller f c = Free \<Longrightarrow> tasks_move valid f f' \<Longrightarrow> fl_caller f' c = Free"
  by (erule task_caller [where c = c]) auto

lemma msg_sync_cong:
  assumes "msg_sync ph n f" and "nd_hand n' = nd_hand n"
    and "fl_caller f MessageLoop = Free \<Longrightarrow> fl_caller f' MessageLoop = Free"
    and "\<And>i K. engaged MessageLoop i K f \<Longrightarrow> engaged MessageLoop i K f'"
  shows "msg_sync ph n' f'"
  using assms by (cases "(ph, n, f)" rule: msg_sync.cases) auto

lemma cast_sync_cong:
  assumes "cast_sync utf8 cast n f" and "nd_round n' = nd_round n \<or> nd_round n = None \<or> nd_round n = Some ([], p)"
    and "fl_caller f BroadcastLoop = Free \<Longrightarrow> fl_caller f' BroadcastLoop = Free"
    and "\<And>i K. engaged BroadcastLoop i K f \<Longrightarrow> engaged BroadcastLoop i K f'"
  shows "cast_sync utf8 cast n' f'"
  using assms by (fastforce simp: cast_sync_def split: option.splits)

lemma engaged_begin [simp]: "K cmd \<Longrightarrow> engaged c (fl_next f) K (begin_call c cmd f)"
  by (auto simp: engaged_def begin_call_def)

lemma engaged_other: "fl_caller f' c = fl_caller f c \<Longrightarrow> fl_results f' = fl_results f \<Longrightarrow> engaged c i K f' = engaged c i K f"
  by (simp add: engaged_def)

lemma begin_call_simps [simp]:
  "fl_results (begin_call c cmd f) = fl_results f" "c' \<noteq> c \<Longrightarrow> fl_caller (begin_call c cmd f) c' = fl_caller f c'"
  "fl_caller (begin_call c cmd f) c = Offering (fl_next f) cmd" "fl_taken (begin_call c cmd f) = fl_taken f"
  "fl_wire (begin_call c cmd f) = fl_wire f" "fl_requests (begin_call c cmd f) = fl_requests f"
  by (simp_all add: begin_call_def)

lemma move_node_simps [simp]:
  "nd_hand (move_node P i n) = nd_hand n" "nd_round (move_node P i n) = nd_round n" "nd_published (move_node P i n) = nd_published n"
  "nd_world (move_node P i n) = nd_world n" "nd_net (move_node P i n) = loop_move P i (nd_net n)"
  "nd_issued (move_node P i n) = nd_issued n" "nd_keys (move_node P i n) = nd_keys n"
  by (simp_all add: move_node_def)

text \<open>Interrupting a sweep leaves the loop ready for another branch, and the broadcast loop alone.\<close>

lemma interrupt_sync:
  assumes "in_select (sy_msg s)" and "msg_sync (sy_msg s) (sy_node s) (sy_flow s)"
  shows "sy_msg (interrupt P s) = Selecting" "nd_hand (sy_node (interrupt P s)) = None"
    "fl_caller (sy_flow (interrupt P s)) MessageLoop = Free" "nd_round (sy_node (interrupt P s)) = nd_round (sy_node s)"
    "sy_cast (interrupt P s) = sy_cast s" "fl_results (sy_flow (interrupt P s)) = fl_results (sy_flow s)"
    "fl_caller (sy_flow (interrupt P s)) BroadcastLoop = fl_caller (sy_flow s) BroadcastLoop"
    "nd_published (sy_node (interrupt P s)) = nd_published (sy_node s)"
proof -
  consider "sy_msg s = Selecting" | now bid bids st where "sy_msg s = Sweeping now (bid # bids) st"
    using assms by (cases "sy_msg s"; cases "(sy_msg s, sy_node s, sy_flow s)" rule: msg_sync.cases) (auto simp: neq_Nil_conv)
  then show "sy_msg (interrupt P s) = Selecting" "nd_hand (sy_node (interrupt P s)) = None"
    "fl_caller (sy_flow (interrupt P s)) MessageLoop = Free" "nd_round (sy_node (interrupt P s)) = nd_round (sy_node s)"
    "sy_cast (interrupt P s) = sy_cast s" "fl_results (sy_flow (interrupt P s)) = fl_results (sy_flow s)"
    "fl_caller (sy_flow (interrupt P s)) BroadcastLoop = fl_caller (sy_flow s) BroadcastLoop"
    "nd_published (sy_node (interrupt P s)) = nd_published (sy_node s)"
    using assms by (cases; cases "(sy_msg s, sy_node s, sy_flow s)" rule: msg_sync.cases; auto simp: interrupt_def)+
qed

lemma swept_simps [simp]:
  "sy_node (swept P now bid s) = move_node P (TimeoutSweep [bid] now None) (sy_node s)" "sy_flow (swept P now bid s) = sy_flow s"
  "sy_cast (swept P now bid s) = sy_cast s"
  by (simp_all add: swept_def)

lemma sweep_next_sync:
  assumes "nd_hand (sy_node s) = None" and "fl_caller (sy_flow s) MessageLoop = Free"
  shows "msg_sync (sy_msg (sweep_next P now bids s)) (sy_node (sweep_next P now bids s)) (sy_flow (sweep_next P now bids s)) \<and>
    sy_cast (sweep_next P now bids s) = sy_cast s \<and>
    nd_round (sy_node (sweep_next P now bids s)) = nd_round (sy_node s) \<and>
    nd_published (sy_node (sweep_next P now bids s)) = nd_published (sy_node s) \<and>
    fl_results (sy_flow (sweep_next P now bids s)) = fl_results (sy_flow s) \<and>
    fl_caller (sy_flow (sweep_next P now bids s)) BroadcastLoop = fl_caller (sy_flow s) BroadcastLoop"
  using assms by (induction P now bids s rule: sweep_next.induct) (auto split: option.splits)

lemma cast_sync_same:
  assumes "cast_sync utf8 cast n f" and "nd_round n' = nd_round n" and "fl_results f' = fl_results f"
    and "fl_caller f' BroadcastLoop = fl_caller f BroadcastLoop"
  shows "cast_sync utf8 cast n' f'"
  using assms engaged_other [OF assms(4,3)] by (auto simp: cast_sync_def split: option.split)

lemma aside_round: "node_aside P U n n' \<Longrightarrow> nd_round n' = nd_round n \<or> nd_round n = None \<or> (\<exists>p. nd_round n = Some ([], p))"
  unfolding node_aside_def by (elim conjE, erule node_step.cases) auto

text \<open>When the message loop begins or goes on with a sweep, it waits for no call.\<close>

lemma loop_ready:
  assumes "system_sync utf8 s"
    and "sy_msg s = Selecting \<or> (\<exists>now bids. sy_msg s = Sweeping now bids Locking) \<or>
      (\<exists>now bids i r. sy_msg s = Sweeping now bids (Unsubscribing i) \<and> returned MessageLoop i r (sy_flow s))"
  shows "nd_hand (sy_node s) = None \<and> fl_caller (sy_flow s) MessageLoop = Free"
  using assms by (auto simp: system_sync_def returned_def)

lemma system_sync_sweep:
  assumes "system_sync utf8 s" and "nd_hand (sy_node s1) = None" and "fl_caller (sy_flow s) MessageLoop = Free"
    and "sy_flow s1 = sy_flow s" and "sy_cast s1 = sy_cast s" and "nd_round (sy_node s1) = nd_round (sy_node s)"
  shows "system_sync utf8 (sweep_next P now bids s1)"
proof -
  have "fl_caller (sy_flow s1) MessageLoop = Free" using assms(3,4) by simp
  with sweep_next_sync [OF assms(2) this, of P now bids] assms(1,4-6) show ?thesis
    by (auto simp: system_sync_def intro: cast_sync_same)
qed

lemma system_sync_step:
  assumes "system_sync utf8 s" and "system_step P U utf8 valid s s'"
  shows "system_sync utf8 s'"
  using assms(2)
proof (cases rule: system_step.cases)
  case (node_moves n')
  then have "nd_hand n' = nd_hand (sy_node s)" by (simp add: node_aside_def)
  with node_moves assms(1) aside_round [OF node_moves(2)] show ?thesis
    by (auto simp: system_sync_def intro: msg_sync_cong cast_sync_cong)
next
  case (tasks f')
  with assms(1) show ?thesis
    by (auto simp: system_sync_def intro: msg_sync_cong cast_sync_cong engaged_task free_task)
next
  case (outside f')
  with assms(1) show ?thesis
    by (auto simp: system_sync_def intro: msg_sync_cong cast_sync_cong engaged_env)
next
  case (take_listening s1 ch q now)
  with assms(1) interrupt_sync [of s P] show ?thesis
    by (auto simp: system_sync_def channel_command_def intro: cast_sync_same)
next
  case (take_broadcasting s1 ch q now)
  with assms(1) interrupt_sync [of s P] show ?thesis by (auto simp: system_sync_def intro: cast_sync_same)
next
  case (ticks order now)
  with loop_ready [OF assms(1)] show ?thesis by (simp add: system_sync_sweep [OF assms(1)])
next
  case (unsubscribed_only now bid bids i r br)
  then have "nd_hand (sy_node s) = None \<and> fl_caller (sy_flow s) MessageLoop = Free"
    using loop_ready [OF assms(1)] by blast
  with unsubscribed_only(1) show ?thesis by (simp add: system_sync_sweep [OF assms(1)])
next
  case (sweeps now bid bids s1)
  with loop_ready [OF assms(1)] show ?thesis by (simp add: system_sync_sweep [OF assms(1)])
next
  case (takes_message s1 m q now)
  with assms(1) interrupt_sync [of s P] show ?thesis by (auto simp: system_sync_def intro: cast_sync_same)
next
  case (publishes topic rest payload)
  let ?f = "begin_call BroadcastLoop (Publish topic AtLeastOnce (utf8 payload)) (sy_flow s)"
  have "msg_sync (sy_msg s) (sy_node s) (sy_flow s)" using assms(1) by (simp add: system_sync_def)
  then have "msg_sync (sy_msg s) (sy_node s) ?f" by (rule msg_sync_cong) (simp_all add: engaged_other [of ?f _ "sy_flow s"])
  with publishes show ?thesis by (simp add: system_sync_def cast_sync_def publish_command_def)
next
  case (published i r topic rest payload)
  with assms(1) show ?thesis by (auto simp: system_sync_def cast_sync_def returned_def intro: msg_sync_cong)
qed (use assms(1) in \<open>auto simp: system_sync_def returned_def intro: cast_sync_same\<close>)

subsection \<open>The node inside the system\<close>

lemma topics_dropped:
  "rr_broadcast_topics (bl_registry (beacon_step pv url (TimeoutSweep [bid] now (Some (waits_done (rr_records (bl_registry b) bid) st))) b)) =
     rr_broadcast_topics (bl_registry b)"
  by (cases "(rr_records (bl_registry b) bid, st)" rule: waits_done.cases)
    (auto simp: check_timeouts_def stale_ids_def deregister_def Let_def split: option.split)

lemma topics_unlisted:
  assumes "rr_records (bl_registry b) bid = Some r" and "br_broadcast_topic r = []"
  shows "rr_broadcast_topics (bl_registry (beacon_step pv url (TimeoutSweep [bid] now None) b)) = rr_broadcast_topics (bl_registry b)"
  using assms by (auto simp: check_timeouts_def stale_ids_def deregister_def Let_def split: option.split)

lemma move_node_step:
  assumes "nd_hand n = None" and "\<not> is_new_channel i" and "lock_allows n (nd_net (move_node P i n))"
  shows "node_step P U n (move_node P i n)"
  using node_step.loop_moves [OF assms(1,2) refl] assms(3) by (simp add: move_node_def)

lemma move_node_free:
  assumes "nd_hand n = None" and "\<not> is_new_channel i" and "topics (move_node P i n) = topics n"
  shows "node_step P U n (move_node P i n)"
  using assms by (intro move_node_step) (simp_all add: lock_allows_def del: move_node_simps)

lemma interrupt_node:
  assumes "in_select (sy_msg s)" and "msg_sync (sy_msg s) (sy_node s) (sy_flow s)"
  shows "(node_step P U)\<^sup>*\<^sup>* (sy_node s) (sy_node (interrupt P s))"
proof (cases "\<exists>now bid bids st. sy_msg s = Sweeping now (bid # bids) st")
  case True
  then obtain now bid bids st where m: "sy_msg s = Sweeping now (bid # bids) st" by blast
  have "nd_hand (sy_node s) = None" using assms(2) m by (cases st) auto
  then have "node_step P U (sy_node s) (sy_node (interrupt P s))"
    using m by (auto simp: interrupt_def topics_dropped simp del: beacon_step.simps intro!: move_node_free)
  then show ?thesis by blast
next
  case False
  then show ?thesis by (auto simp: interrupt_def split: msg_phase.split list.split)
qed

lemma sweep_next_node:
  assumes "nd_hand (sy_node s) = None"
  shows "(node_step P U)\<^sup>*\<^sup>* (sy_node s) (sy_node (sweep_next P now bids s))"
  using assms
proof (induction P now bids s rule: sweep_next.induct)
  case (2 P now bid bids s)
  show ?case
  proof (cases "records (sy_node s) bid")
    case None
    with 2 show ?thesis by simp
  next
    case (Some r)
    show ?thesis
    proof (cases "br_listen_topic r = [] \<and> br_broadcast_topic r = []")
      case True
      then have "node_step P U (sy_node s) (sy_node (swept P now bid s))"
        using Some 2(3) by (auto simp: topics_unlisted simp del: beacon_step.simps intro!: move_node_free)
      moreover have "(node_step P U)\<^sup>*\<^sup>* (sy_node (swept P now bid s)) (sy_node (sweep_next P now bids (swept P now bid s)))"
        using 2(2) [OF Some] 2(3) True by simp
      ultimately show ?thesis using Some True by (simp add: converse_rtranclp_into_rtranclp)
    qed (use Some in auto)
  qed
qed simp

lemma take_channel_run:
  assumes "(node_step P U)\<^sup>*\<^sup>* n n1" and "nd_hand n1 = None" and "queue n1 = ch # q"
  shows "(node_step P U)\<^sup>*\<^sup>* n (n1\<lparr>nd_world := (nd_world n1)\<lparr>w_queue := q\<rparr>, nd_hand := Some (now, ch)\<rparr>)"
  using assms(1) node_step.take_channel [OF assms(2,3)] by (rule rtranclp.rtrancl_into_rtrancl)

lemma system_node_step:
  assumes "system_sync utf8 s" and "system_step P U utf8 valid s s'"
  shows "(node_step P U)\<^sup>*\<^sup>* (sy_node s) (sy_node s')"
  using assms(2)
proof (cases rule: system_step.cases)
  case (node_moves n')
  then show ?thesis by (auto simp: node_aside_def)
next
  case (take_listening s1 ch q now)
  then show ?thesis using assms(1) interrupt_node [of s P U] interrupt_sync [of s P]
    by (auto simp: system_sync_def intro: take_channel_run)
next
  case (take_broadcasting s1 ch q now)
  then show ?thesis using assms(1) interrupt_node [of s P U] interrupt_sync [of s P]
    by (auto simp: system_sync_def intro: take_channel_run)
next
  case (registers r now ch n')
  have "node_step P U (sy_node s) n'"
    using node_step.register [OF registers(3) refl] registers(4,5) by (simp add: move_node_def)
  with registers(1) show ?thesis by auto
next
  case (ticks order now)
  then show ?thesis using assms(1) by (auto simp: system_sync_def intro: sweep_next_node)
next
  case (unsubscribed_only now bid bids i r br)
  have h: "nd_hand (sy_node s) = None" using assms(1) unsubscribed_only(2) by (simp add: system_sync_def)
  then have "node_step P U (sy_node s) (sy_node (swept P now bid s))"
    using unsubscribed_only(4,5) by (auto simp: topics_unlisted simp del: beacon_step.simps intro!: move_node_free)
  from converse_rtranclp_into_rtranclp [OF this sweep_next_node] h unsubscribed_only(1) show ?thesis by simp
next
  case (sweeps now bid bids s1)
  have h: "nd_hand (sy_node s) = None" using assms(1) sweeps(2) by (simp add: system_sync_def)
  then have "node_step P U (sy_node s) (sy_node s1)" using sweeps(3,4) by (auto intro: move_node_step)
  from converse_rtranclp_into_rtranclp [OF this sweep_next_node] h sweeps(1,3) show ?thesis by simp
next
  case (takes_message s1 m q now)
  have i: "(node_step P U)\<^sup>*\<^sup>* (sy_node s) (sy_node s1)" "nd_hand (sy_node s1) = None"
    using assms(1) takes_message(2,3) interrupt_node [of s P U] interrupt_sync [of s P] by (auto simp: system_sync_def)
  then have "node_step P U (sy_node s1) (move_node P (Inbound now m) (sy_node s1))"
    by (intro move_node_free) (simp_all add: topics_inbound del: beacon_step.simps)
  with i(1) takes_message(1) show ?thesis by simp
next
  case (published i r topic rest payload)
  then show ?thesis using node_step.publish [OF published(4), of P U] by auto
qed auto

subsection \<open>The MQTT tasks inside the system\<close>

definition flow_step :: "(mqtt_command \<Rightarrow> bool) \<Rightarrow> flow \<Rightarrow> flow \<Rightarrow> bool" where
  "flow_step valid f f' \<longleftrightarrow> env_step f f' \<or> task_step valid f f'"

lemma flow_steps_reach: "(flow_step valid)\<^sup>*\<^sup>* f f' \<Longrightarrow> flow_reach valid f f'"
  by (induction rule: rtranclp_induct) (auto simp: flow_step_def intro: flow_reach.intros)

lemma begin_call_flow:
  assumes "(flow_step valid)\<^sup>*\<^sup>* f f1" and "fl_caller f1 c = Free" and "calls c cmd"
  shows "(flow_step valid)\<^sup>*\<^sup>* f (begin_call c cmd f1)"
  using assms(1) env_step.call [OF assms(2,3)] by (auto simp: flow_step_def begin_call_def intro: rtranclp.rtrancl_into_rtrancl)

lemma interrupt_flow:
  assumes "in_select (sy_msg s)" and "msg_sync (sy_msg s) (sy_node s) (sy_flow s)"
  shows "(flow_step valid)\<^sup>*\<^sup>* (sy_flow s) (sy_flow (interrupt P s))"
proof (cases "\<exists>now bid bids st. sy_msg s = Sweeping now (bid # bids) st")
  case True
  then obtain now bid bids st where m: "sy_msg s = Sweeping now (bid # bids) st" by blast
  let ?f = "(sy_flow s)\<lparr>fl_caller := (fl_caller (sy_flow s))(MessageLoop := Free)\<rparr>"
  have "?f = sy_flow s \<or> env_step (sy_flow s) ?f"
  proof (cases "fl_caller (sy_flow s) MessageLoop = Free")
    case True
    then have "(fl_caller (sy_flow s))(MessageLoop := Free) = fl_caller (sy_flow s)" by (simp add: fun_upd_idem)
    then show ?thesis by simp
  next
    case False
    then obtain i cmd where "fl_caller (sy_flow s) MessageLoop = Offering i cmd \<or> fl_caller (sy_flow s) MessageLoop = Waiting i cmd"
      "is_unsubscribe cmd"
      using assms(2) m by (cases st) (auto simp: engaged_def)
    then show ?thesis using env_step.channel_arrives by blast
  qed
  then show ?thesis using m by (auto simp: interrupt_def flow_step_def)
next
  case False
  then show ?thesis by (auto simp: interrupt_def split: msg_phase.split list.split)
qed

lemma sweep_next_flow:
  assumes "fl_caller (sy_flow s) MessageLoop = Free"
  shows "(flow_step valid)\<^sup>*\<^sup>* (sy_flow s) (sy_flow (sweep_next P now bids s))"
  using assms by (induction P now bids s rule: sweep_next.induct) (auto split: option.split intro: begin_call_flow)

lemma system_flow_step:
  assumes "system_sync utf8 s" and "system_step P U utf8 valid s s'"
  shows "(flow_step valid)\<^sup>*\<^sup>* (sy_flow s) (sy_flow s')"
  using assms(2)
proof (cases rule: system_step.cases)
  case (tasks f')
  then show ?thesis by (auto simp: tasks_move_def flow_step_def)
next
  case (outside f')
  then show ?thesis by (auto simp: flow_step_def)
next
  case (take_listening s1 ch q now)
  then show ?thesis using assms(1) interrupt_flow [of s valid P] interrupt_sync [of s P]
    by (auto simp: system_sync_def channel_command_def intro: begin_call_flow)
next
  case (take_broadcasting s1 ch q now)
  then show ?thesis using assms(1) interrupt_flow [of s valid P] by (auto simp: system_sync_def)
next
  case (ticks order now)
  then show ?thesis using assms(1) by (auto simp: system_sync_def intro: sweep_next_flow)
next
  case (unsubscribed_only now bid bids i r br)
  then show ?thesis using sweep_next_flow [of "swept P now bid s" valid P now bids] by (simp add: returned_def)
next
  case (sweeps now bid bids s1)
  then show ?thesis using assms(1) sweep_next_flow [of s1 valid P now bids] by (simp add: system_sync_def)
next
  case (takes_message s1 m q now)
  have i: "(flow_step valid)\<^sup>*\<^sup>* (sy_flow s) (sy_flow s1)" "fl_caller (sy_flow s1) MessageLoop = Free"
    using assms(1) takes_message(2,3) interrupt_flow [of s valid P] interrupt_sync [of s P] by (auto simp: system_sync_def)
  with task_step.take_message [OF i(2) takes_message(4), of valid] takes_message(1) show ?thesis
    by (auto simp: flow_step_def intro: rtranclp.rtrancl_into_rtrancl)
next
  case (publishes topic rest payload)
  then have "fl_caller (sy_flow s) BroadcastLoop = Free" using assms(1) by (simp add: system_sync_def cast_sync_def)
  with publishes(1) show ?thesis by (auto intro: begin_call_flow)
qed auto

text \<open>The system is the node and the MQTT tasks, each of which runs as it does by itself.\<close>

interpretation system_node:
  projection "system_step P U utf8 valid" "system_sync utf8" "node_step P U" sy_node for P U utf8 valid
  using system_sync_step system_node_step by unfold_locales blast+

interpretation system_flow:
  projection "system_step P U utf8 valid" "system_sync utf8" "flow_step valid" sy_flow for P U utf8 valid
  using system_sync_step system_flow_step by unfold_locales blast+

lemma system_sync_init: "nd_hand n = None \<Longrightarrow> system_sync utf8 (system_init n tx)"
  by (simp add: system_sync_def system_init_def cast_sync_def flow_init_def)

lemma main_hand: "main_node ie config fs keys = Some (n0, bs) \<Longrightarrow> nd_hand n0 = None"
  by (erule main_nodeE) (simp add: node_init_def)

lemma system_parts:
  assumes "nd_hand n0 = None" and "(system_step P U utf8 valid)\<^sup>*\<^sup>* (system_init n0 tx) s"
  shows "node_reach P U n0 (sy_node s)" "flow_reach valid (flow_init tx) (sy_flow s)" "system_sync utf8 s"
proof -
  have i: "system_sync utf8 (system_init n0 tx)" using assms(1) by (rule system_sync_init)
  show "node_reach P U n0 (sy_node s)"
    using system_node.proj_run [OF assms(2) i] node_reach_run [OF _ node_reach.node_start] by (simp add: system_init_def)
  show "flow_reach valid (flow_init tx) (sy_flow s)"
    using system_flow.proj_run [OF assms(2) i] flow_steps_reach by (simp add: system_init_def)
  show "system_sync utf8 s" using system_node.inv_run [OF assms(2) i] .
qed

subsection \<open>Runs\<close>

lemma own_steps_system: "(own_step valid)\<^sup>*\<^sup>* (sy_flow s) f' \<Longrightarrow> (system_step P U utf8 valid)\<^sup>*\<^sup>* s (s\<lparr>sy_flow := f'\<rparr>)"
proof (induction rule: rtranclp_induct)
  case (step f1 f2)
  have "system_step P U utf8 valid (s\<lparr>sy_flow := f1\<rparr>) (s\<lparr>sy_flow := f1, sy_flow := f2\<rparr>)"
    using step.hyps(2) system_step.tasks [of valid "s\<lparr>sy_flow := f1\<rparr>" f2] system_step.outside [of "s\<lparr>sy_flow := f1\<rparr>" f2]
    by (auto simp: own_step_def)
  with step.IH show ?case by (simp add: rtranclp.rtrancl_into_rtrancl)
qed simp

lemma register_broadcast_topics:
  assumes "ch_topic_type ch = Broadcast"
  shows "rr_broadcast_topics (register_channel sub now ch reg) = rr_broadcast_topics reg @ [tc_topic (ch_topic ch)]"
  using assms by (simp add: register_channel_def push_topic_def update_record_def ensure_record_def Let_def split: option.split)

text \<open>A publication begins and reaches the command task.\<close>

lemma cast_begins:
  fixes utf8 :: "string \<Rightarrow> byte list" and s :: "('kp, 'cert) system"
  assumes "sy_cast s = None" and "nd_round (sy_node s) = Some (topic # rest, payload)"
    and "fl_task (sy_flow s) = Receiving" and "fl_cmds (sy_flow s) = []"
  defines "cmd \<equiv> Publish topic AtLeastOnce (utf8 payload)" and "i \<equiv> fl_next (sy_flow s)"
  shows "\<exists>f. (system_step P U utf8 valid)\<^sup>*\<^sup>* s (s\<lparr>sy_cast := Some i, sy_flow := f\<rparr>) \<and>
    fl_caller f = (fl_caller (sy_flow s))(BroadcastLoop := Waiting i cmd) \<and> fl_task f = Executing BroadcastLoop i cmd \<and>
    fl_cmds f = [] \<and> fl_loop f = fl_loop (sy_flow s) \<and> fl_inbound f = fl_inbound (sy_flow s) \<and> fl_requests f = fl_requests (sy_flow s)"
proof -
  let ?f1 = "begin_call BroadcastLoop cmd (sy_flow s)"
  let ?f = "?f1\<lparr>fl_caller := (fl_caller ?f1)(BroadcastLoop := Waiting i cmd), fl_task := Executing BroadcastLoop i cmd\<rparr>"
  have "system_step P U utf8 valid s (s\<lparr>sy_cast := Some i, sy_flow := ?f1\<rparr>)"
    unfolding cmd_def i_def using assms(1,2) by (rule system_step.publishes)
  moreover have "(own_step valid)\<^sup>*\<^sup>* ?f1 ?f" using assms(3,4) by (intro offer_served) (simp_all add: begin_call_def i_def)
  then have "(system_step P U utf8 valid)\<^sup>*\<^sup>* (s\<lparr>sy_cast := Some i, sy_flow := ?f1\<rparr>) (s\<lparr>sy_cast := Some i, sy_flow := ?f\<rparr>)"
    using own_steps_system [of valid "s\<lparr>sy_cast := Some i, sy_flow := ?f1\<rparr>" ?f P U utf8] by simp
  ultimately have "(system_step P U utf8 valid)\<^sup>*\<^sup>* s (s\<lparr>sy_cast := Some i, sy_flow := ?f\<rparr>)" by (rule converse_rtranclp_into_rtranclp)
  then show ?thesis using assms(4) by (intro exI [of _ ?f]) (auto simp: begin_call_def)
qed

text \<open>Nothing is under way, and the broadcast loop may begin a cycle.\<close>

definition at_rest :: "('kp, 'cert) system \<Rightarrow> bool" where
  "at_rest s \<longleftrightarrow> sy_msg s = Selecting \<and> sy_cast s = None \<and> nd_round (sy_node s) = None \<and> quiet (sy_flow s)"

lemma rest_cycle:
  assumes "at_rest s" and "env_ok (cy_rotate (env :: cycle_env))"
    and "get_or_rotate_key (bs_key_management (np_broadcast P)) (cy_now_key env) (cy_rotate env) (nd_keys (sy_node s)) = (Ok key, keys)"
  shows "\<exists>keys' payload. system_step P U utf8 valid s
    (s\<lparr>sy_node := (sy_node s)\<lparr>nd_keys := keys', nd_round := Some (topics (sy_node s), payload)\<rparr>\<rparr>)"
proof -
  have "nd_round (sy_node s) = None" using assms(1) by (simp add: at_rest_def)
  from node_step.cycle_starts [OF this assms(2,3) refl, of U] obtain keys' payload where
    "node_step P U (sy_node s) ((sy_node s)\<lparr>nd_keys := keys', nd_round := Some (topics (sy_node s), payload)\<rparr>)" by blast
  then have "node_aside P U (sy_node s) ((sy_node s)\<lparr>nd_keys := keys', nd_round := Some (topics (sy_node s), payload)\<rparr>)"
    by (simp add: node_aside_def)
  then show ?thesis using system_step.node_moves by blast
qed

end
