(* ===== verification/Node_Wire.thy ===== *)
theory Node_Wire
  imports Node_Flow "HOL-Library.Sublist"
begin

section \<open>From the topic list to the broker (\<open>src/app.rs\<close>, \<open>src/services/mqtt_client/\<close>)\<close>

text \<open>
  What of the broadcast loop's publications reaches the broker. The log of answered calls is
  compared with the publications of the node: the two agree in every state of the system, up to the
  publication whose call has returned and which the loop has not counted yet.
\<close>

subsection \<open>Publications in service\<close>

text \<open>
  The commands in service come from the calls that wait for them, and the broadcast loop never gives
  up a call; so the publications answered are the node's, in order.
\<close>

definition serving :: "flow \<Rightarrow> (caller \<times> nat \<times> mqtt_command) list" where
  "serving f = (case fl_task f of Executing c i cmd \<Rightarrow> [(c, i, cmd)] | _ \<Rightarrow> []) @ fl_cmds f"

definition cast_call :: "flow \<Rightarrow> (caller \<times> nat \<times> mqtt_command) list" where
  "cast_call f = (case fl_caller f BroadcastLoop of
     Waiting i cmd \<Rightarrow> if fl_task f = TaskDown then [] else [(BroadcastLoop, i, cmd)] | _ \<Rightarrow> [])"

definition cast_served :: "flow \<Rightarrow> bool" where
  "cast_served f \<longleftrightarrow> filter (\<lambda>(c, i, cmd). c = BroadcastLoop) (serving f) = cast_call f \<and>
     list_all (\<lambda>(c, i, cmd). calls c cmd) (serving f)"

abbreviation is_publish :: "mqtt_command \<Rightarrow> bool" where
  "is_publish \<equiv> calls BroadcastLoop"

definition answered_casts :: "flow \<Rightarrow> mqtt_command list" where
  "answered_casts f = filter is_publish (map (\<lambda>(i, cmd, r). cmd) (fl_results f))"

lemma calls_exclusive: "calls MessageLoop cmd \<Longrightarrow> \<not> is_publish cmd"
  by (cases cmd) auto

lemma cast_served_env: "cast_served f \<Longrightarrow> env_step f f' \<Longrightarrow> cast_served f'"
  by (erule env_step.cases) (auto simp: cast_served_def serving_def cast_call_def split: caller_phase.splits)

lemma cast_served_task:
  assumes "flow_calls f" and "cast_served f" and "task_step valid f f'"
  shows "cast_served f'"
  using assms(3)
proof (cases rule: task_step.cases)
  case (send c i cmd)
  then have "calls c cmd" using assms(1) by (auto simp: flow_calls_def)
  with send assms(2) show ?thesis by (cases c) (auto simp: cast_served_def serving_def cast_call_def split: caller_phase.splits)
next
  case (send_closed c i cmd)
  with assms(2) show ?thesis by (cases c) (auto simp: cast_served_def serving_def cast_call_def split: caller_phase.splits)
next
  case (reply_dropped c i cmd)
  with assms(2) show ?thesis by (cases c) (auto simp: cast_served_def serving_def cast_call_def answer_def split: caller_phase.splits)
next
  case (request c i cmd)
  with assms(2) show ?thesis
    by (cases c) (auto simp: cast_served_def serving_def cast_call_def answer_def split: caller_phase.splits if_splits)
next
  case (request_fails c i cmd e)
  with assms(2) show ?thesis
    by (cases c) (auto simp: cast_served_def serving_def cast_call_def answer_def split: caller_phase.splits if_splits)
qed (use assms(2) in \<open>auto simp: cast_served_def serving_def cast_call_def split: caller_phase.splits\<close>)

text \<open>A step of the tasks answers no publication, or the one the broadcast loop waits for.\<close>

lemma cast_answers:
  assumes "flow_calls f" and "cast_served f" and "tasks_move valid f f'"
  obtains (none) "answered_casts f' = answered_casts f" "fl_caller f' BroadcastLoop = Free \<longleftrightarrow> fl_caller f BroadcastLoop = Free"
  | (one) i cmd where "fl_caller f BroadcastLoop \<in> {Offering i cmd, Waiting i cmd}" "fl_caller f' BroadcastLoop = Free"
      "answered_casts f' = answered_casts f @ [cmd]"
proof -
  have run: "task_step valid f f'" using assms(3) by (simp add: tasks_move_def)
  have c: "calls c cmd" if "fl_caller f c = Offering i cmd \<or> fl_caller f c = Waiting i cmd" for c i cmd
    using assms(1) that by (auto simp: flow_calls_def)
  have ex: "calls c cmd" "c = BroadcastLoop \<Longrightarrow> fl_caller f c = Waiting i cmd" if "fl_task f = Executing c i cmd" for c i cmd
    using assms(2) that by (auto simp: cast_served_def serving_def cast_call_def split: caller_phase.splits if_splits)
  let ?none = "answered_casts f' = answered_casts f \<and> (fl_caller f' BroadcastLoop = Free \<longleftrightarrow> fl_caller f BroadcastLoop = Free)"
  let ?one = "\<exists>i cmd. fl_caller f BroadcastLoop \<in> {Offering i cmd, Waiting i cmd} \<and> fl_caller f' BroadcastLoop = Free \<and>
    answered_casts f' = answered_casts f @ [cmd]"
  have "?none \<or> ?one" using run
  proof (cases rule: task_step.cases)
    case (send_closed c i cmd)
    then show ?thesis using c [of c i cmd] by (cases c) (auto simp: answered_casts_def dest: calls_exclusive)
  next
    case (reply_dropped c i cmd)
    then show ?thesis using c [of c i cmd] by (cases c) (auto simp: answered_casts_def answer_def dest: calls_exclusive)
  next
    case (request c i cmd)
    then show ?thesis using ex [of c i cmd] by (cases c) (auto simp: answered_casts_def answer_def dest: calls_exclusive)
  next
    case (request_fails c i cmd e)
    then show ?thesis using ex [of c i cmd] by (cases c) (auto simp: answered_casts_def answer_def dest: calls_exclusive)
  qed (auto simp: answered_casts_def)
  then show ?thesis using none one by blast
qed

text \<open>The publication whose call has returned while the loop has not gone on yet.\<close>

fun next_cast :: "(string list \<times> string) option \<Rightarrow> (string \<times> string) list" where
  "next_cast (Some (topic # rest, payload)) = [(topic, payload)]"
| "next_cast _ = []"

definition delivered :: "('kp, 'cert) system \<Rightarrow> (string \<times> string) list" where
  "delivered s = (if sy_cast s \<noteq> None \<and> fl_caller (sy_flow s) BroadcastLoop = Free then next_cast (nd_round (sy_node s)) else [])"

definition cast_log :: "(string \<Rightarrow> byte list) \<Rightarrow> ('kp, 'cert) system \<Rightarrow> bool" where
  "cast_log utf8 s \<longleftrightarrow> answered_casts (sy_flow s) = map (publish_command utf8) (nd_published (sy_node s) @ delivered s)"

lemma cast_log_same:
  assumes "cast_log utf8 s" and "sy_cast s' = sy_cast s" and "nd_round (sy_node s') = nd_round (sy_node s)"
    and "nd_published (sy_node s') = nd_published (sy_node s)" and "fl_results (sy_flow s') = fl_results (sy_flow s)"
    and "fl_caller (sy_flow s') BroadcastLoop = fl_caller (sy_flow s) BroadcastLoop"
  shows "cast_log utf8 s'"
  using assms by (simp add: cast_log_def delivered_def answered_casts_def)

lemma cast_log_sweep:
  assumes "cast_log utf8 s" and "system_sync utf8 s" and "nd_hand (sy_node s1) = None" and "fl_caller (sy_flow s) MessageLoop = Free"
    and "sy_flow s1 = sy_flow s" and "sy_cast s1 = sy_cast s" and "nd_round (sy_node s1) = nd_round (sy_node s)"
    and "nd_published (sy_node s1) = nd_published (sy_node s)"
  shows "cast_log utf8 (sweep_next P now bids s1)"
proof -
  have "fl_caller (sy_flow s1) MessageLoop = Free" using assms(4,5) by simp
  with sweep_next_sync [OF assms(3) this, of P now bids] assms(5-8) show ?thesis by (intro cast_log_same [OF assms(1)]) simp_all
qed

lemma cast_log_step:
  assumes "cast_log utf8 s" and "system_sync utf8 s" and "flow_calls (sy_flow s)" and "cast_served (sy_flow s)"
    and "system_step P U utf8 valid s s'"
  shows "cast_log utf8 s'"
  using assms(5)
proof (cases rule: system_step.cases)
  case (node_moves n')
  have "nd_published n' = nd_published (sy_node s)" using node_moves(2) by (simp add: node_aside_def)
  moreover have "delivered s' = delivered s"
    using aside_round [OF node_moves(2)] assms(2) node_moves(1)
    by (auto simp: delivered_def system_sync_def cast_sync_def split: option.splits)
  ultimately show ?thesis using assms(1) node_moves(1) by (simp add: cast_log_def)
next
  case (tasks f')
  from assms(3,4) tasks(2) show ?thesis
  proof (cases rule: cast_answers)
    case none
    with assms(1) tasks(1) show ?thesis by (simp add: cast_log_def delivered_def)
  next
    case (one i cmd)
    then have "sy_cast s \<noteq> None" using assms(2) by (auto simp: system_sync_def cast_sync_def split: option.splits)
    then obtain topic rest payload where r: "nd_round (sy_node s) = Some (topic # rest, payload)" "cmd = publish_command utf8 (topic, payload)"
      using one(1) assms(2) by (auto simp: system_sync_def cast_sync_def engaged_def)
    have "delivered s = []" "delivered s' = [(topic, payload)]"
      using one(1,2) tasks(1) r(1) \<open>sy_cast s \<noteq> None\<close> by (auto simp: delivered_def)
    with assms(1) one(3) r(2) tasks(1) show ?thesis by (simp add: cast_log_def)
  qed
next
  case (outside f')
  with assms(1) env_results [OF outside(2)] show ?thesis by (intro cast_log_same [OF assms(1)]) simp_all
next
  case (take_listening s1 ch q now)
  with assms(2) interrupt_sync [of s P] show ?thesis by (intro cast_log_same [OF assms(1)]) (simp_all add: system_sync_def)
next
  case (take_broadcasting s1 ch q now)
  with assms(2) interrupt_sync [of s P] show ?thesis by (intro cast_log_same [OF assms(1)]) (simp_all add: system_sync_def)
next
  case (ticks order now)
  with loop_ready [OF assms(2)] show ?thesis by (simp add: cast_log_sweep [OF assms(1,2)])
next
  case (unsubscribed_only now bid bids i r br)
  then have "nd_hand (sy_node s) = None \<and> fl_caller (sy_flow s) MessageLoop = Free"
    using loop_ready [OF assms(2)] by blast
  with unsubscribed_only(1) show ?thesis by (simp add: cast_log_sweep [OF assms(1,2)])
next
  case (sweeps now bid bids s1)
  with loop_ready [OF assms(2)] show ?thesis by (simp add: cast_log_sweep [OF assms(1,2)])
next
  case (takes_message s1 m q now)
  with assms(2) interrupt_sync [of s P] show ?thesis by (intro cast_log_same [OF assms(1)]) (simp_all add: system_sync_def)
next
  case (publishes topic rest payload)
  with assms(1) show ?thesis by (simp add: cast_log_def delivered_def answered_casts_def)
next
  case (published i r topic rest payload)
  with assms(1) show ?thesis by (simp add: cast_log_def delivered_def returned_def)
qed (use assms(1) in \<open>auto elim: cast_log_same\<close>)

definition cast_inv :: "(string \<Rightarrow> byte list) \<Rightarrow> ('kp, 'cert) system \<Rightarrow> bool" where
  "cast_inv utf8 s \<longleftrightarrow> system_sync utf8 s \<and> cast_log utf8 s \<and> flow_calls (sy_flow s) \<and> cast_served (sy_flow s)"

lemma cast_inv_step:
  assumes "cast_inv utf8 s" and "system_step P U utf8 valid s s'"
  shows "cast_inv utf8 s'"
proof -
  have sy: "system_sync utf8 s" "cast_log utf8 s" using assms(1) by (simp_all add: cast_inv_def)
  have "flow_calls (sy_flow s') \<and> cast_served (sy_flow s')"
  proof (rule step_invariant.inv_run [of "flow_step valid" "\<lambda>f. flow_calls f \<and> cast_served f", OF _ system_flow_step [OF sy(1) assms(2)]])
    show "step_invariant (flow_step valid) (\<lambda>f. flow_calls f \<and> cast_served f)"
      by (rule step_invariant.intro) (auto simp: flow_step_def intro: flow_calls_env flow_calls_task cast_served_env cast_served_task)
  qed (use assms(1) in \<open>simp add: cast_inv_def\<close>)
  with sy assms system_sync_step [OF sy(1) assms(2)] cast_log_step [OF sy(2,1) _ _ assms(2)] show ?thesis
    by (simp add: cast_inv_def)
qed

interpretation casts: step_invariant "system_step P U utf8 valid" "cast_inv utf8" for P U utf8 valid
  using cast_inv_step by unfold_locales

lemma cast_inv_init: "nd_hand n = None \<Longrightarrow> nd_published n = [] \<Longrightarrow> cast_inv utf8 (system_init n tx)"
  by (simp add: cast_inv_def system_sync_init cast_log_def)
    (simp add: system_init_def flow_init_def flow_calls_def cast_served_def serving_def cast_call_def delivered_def answered_casts_def)

lemma wire_casts:
  assumes "flow_fifo f"
  shows "subseq (filter is_publish (fl_wire f @ fl_requests f)) (answered_casts f)"
proof -
  have "fl_wire f @ fl_requests f = answered f" using assms by (simp add: flow_fifo_def)
  then show ?thesis unfolding answered_casts_def answered_def by (simp only:) (intro subseq_filter subseq_map subseq_filter_left)
qed

subsection \<open>A run that reaches the broker\<close>

lemma polls:
  assumes "fl_loop f = Polling"
  shows "(own_step valid)\<^sup>*\<^sup>* f (f\<lparr>fl_requests := [], fl_wire := fl_wire f @ fl_requests f\<rparr>)"
  using assms
proof (induction "fl_requests f" arbitrary: f)
  case Nil
  then have "f\<lparr>fl_requests := [], fl_wire := fl_wire f @ fl_requests f\<rparr> = f" by (cases f) simp
  then show ?case by simp
next
  case (Cons r q)
  let ?g = "f\<lparr>fl_requests := q, fl_wire := fl_wire f @ [r]\<rparr>"
  have "task_step valid f ?g" using Cons.prems Cons.hyps(2) by (intro task_step.poll_request) simp_all
  then have "own_step valid f ?g" by (simp add: own_step_def tasks_move_def)
  moreover have "(own_step valid)\<^sup>*\<^sup>* ?g (f\<lparr>fl_requests := [], fl_wire := fl_wire f @ fl_requests f\<rparr>)"
    using Cons.hyps(1) [of ?g] Cons.prems by (simp flip: Cons.hyps(2))
  ultimately show ?case by (rule converse_rtranclp_into_rtranclp)
qed

text \<open>A call that is offered while the tasks are idle is answered and its request is sent.\<close>

lemma call_served:
  assumes "fl_caller f c = Offering i cmd" and "fl_task f = Receiving" and "fl_cmds f = []" and "fl_requests f = []"
    and "fl_loop f = Polling" and "valid cmd"
  shows "(own_step valid)\<^sup>*\<^sup>* f (f\<lparr>fl_caller := (fl_caller f)(c := Free), fl_results := fl_results f @ [(i, cmd, Ok ())],
    fl_wire := fl_wire f @ [cmd]\<rparr>)"
proof -
  define f1 where "f1 = f\<lparr>fl_caller := (fl_caller f)(c := Waiting i cmd), fl_task := Executing c i cmd\<rparr>"
  define f2 where "f2 = f1\<lparr>fl_caller := (fl_caller f1)(c := Free), fl_results := fl_results f1 @ [(i, cmd, Ok ())],
    fl_task := Receiving, fl_requests := fl_requests f1 @ [cmd]\<rparr>"
  have a: "(own_step valid)\<^sup>*\<^sup>* f f1" unfolding f1_def using assms(1-3) by (rule offer_served)
  have b: "own_step valid f1 f2" unfolding f2_def using assms by (intro execution_served) (simp_all add: f1_def capacities)
  have "(own_step valid)\<^sup>*\<^sup>* f2 (f2\<lparr>fl_requests := [], fl_wire := fl_wire f2 @ fl_requests f2\<rparr>)"
    using assms(5) by (intro polls) (simp add: f1_def f2_def)
  with a b have "(own_step valid)\<^sup>*\<^sup>* f (f2\<lparr>fl_requests := [], fl_wire := fl_wire f2 @ fl_requests f2\<rparr>)" by auto
  moreover have "f2\<lparr>fl_requests := [], fl_wire := fl_wire f2 @ fl_requests f2\<rparr> =
      f\<lparr>fl_caller := (fl_caller f)(c := Free), fl_results := fl_results f @ [(i, cmd, Ok ())], fl_wire := fl_wire f @ [cmd]\<rparr>"
    using assms(2,4) by (cases f) (simp add: f1_def f2_def)
  ultimately show ?thesis by simp
qed

lemma rest_lists:
  assumes "at_rest s" and "queue (sy_node s) = ch # q" and "ch_topic_type ch = Broadcast"
  shows "\<exists>s'. (system_step P U utf8 valid)\<^sup>*\<^sup>* s s' \<and> at_rest s' \<and> nd_keys (sy_node s') = nd_keys (sy_node s) \<and> sy_flow s' = sy_flow s \<and>
    topics (sy_node s') = topics (sy_node s) @ [tc_topic (ch_topic ch)] \<and>
    nd_world (sy_node s') = (nd_world (sy_node s))\<lparr>w_queue := q\<rparr> \<and> nd_issued (sy_node s') = nd_issued (sy_node s)"
proof -
  have i: "interrupt P s = s" using assms(1) by (simp add: interrupt_def at_rest_def)
  let ?s1 = "s\<lparr>sy_node := (sy_node s)\<lparr>nd_world := (nd_world (sy_node s))\<lparr>w_queue := q\<rparr>, nd_hand := Some (0, ch)\<rparr>,
    sy_msg := Registering (Ok ())\<rparr>"
  let ?n = "(move_node P (NewChannel (\<lambda>_ _. Ok ()) 0 ch) (sy_node ?s1))\<lparr>nd_hand := None\<rparr>"
  let ?s2 = "?s1\<lparr>sy_node := ?n, sy_msg := Selecting\<rparr>"
  have "system_step P U utf8 valid s ?s1"
    using system_step.take_broadcasting [of s s P ch q] assms i by (simp add: at_rest_def)
  moreover have "system_step P U utf8 valid ?s1 ?s2"
    using assms(1) by (intro system_step.registers [of _ "Ok ()" 0 ch]) (simp_all add: lock_allows_def at_rest_def)
  ultimately have "(system_step P U utf8 valid)\<^sup>*\<^sup>* s ?s2" by auto
  moreover have "rr_broadcast_topics (register_channel sub now ch reg) = rr_broadcast_topics reg @ [tc_topic (ch_topic ch)]" for sub now reg
    using assms(3) by (rule register_broadcast_topics)
  ultimately show ?thesis using assms(1) by (intro exI [of _ ?s2]) (auto simp: at_rest_def)
qed

lemma rest_subscribes:
  assumes "at_rest s" and "queue (sy_node s) = ch # q" and "ch_topic_type ch = Listen" and "valid (channel_command ch)"
    and "fl_requests (sy_flow s) = []"
  shows "\<exists>s'. (system_step P U utf8 valid)\<^sup>*\<^sup>* s s' \<and> at_rest s' \<and> nd_keys (sy_node s') = nd_keys (sy_node s) \<and>
    fl_requests (sy_flow s') = [] \<and> topics (sy_node s') = topics (sy_node s) \<and>
    nd_world (sy_node s') = (nd_world (sy_node s))\<lparr>w_queue := q\<rparr> \<and> nd_issued (sy_node s') = nd_issued (sy_node s)"
proof -
  have i: "interrupt P s = s" and r: "sy_msg s = Selecting" "quiet (sy_flow s)"
    using assms(1) by (simp_all add: interrupt_def at_rest_def)
  let ?f = "begin_call MessageLoop (channel_command ch) (sy_flow s)" and ?i = "fl_next (sy_flow s)"
  let ?s1 = "s\<lparr>sy_node := (sy_node s)\<lparr>nd_world := (nd_world (sy_node s))\<lparr>w_queue := q\<rparr>, nd_hand := Some (0, ch)\<rparr>,
    sy_flow := ?f, sy_msg := Subscribing ?i\<rparr>"
  let ?g = "?f\<lparr>fl_caller := (fl_caller ?f)(MessageLoop := Free), fl_results := fl_results ?f @ [(?i, channel_command ch, Ok ())],
    fl_wire := fl_wire ?f @ [channel_command ch]\<rparr>"
  let ?s2 = "?s1\<lparr>sy_flow := ?g\<rparr>" and ?s3 = "?s1\<lparr>sy_flow := ?g, sy_msg := Registering (Ok ())\<rparr>"
  let ?n = "(move_node P (NewChannel (\<lambda>_ _. Ok ()) 0 ch) (sy_node ?s3))\<lparr>nd_hand := None\<rparr>"
  let ?s4 = "?s3\<lparr>sy_node := ?n, sy_msg := Selecting\<rparr>"
  have 1: "system_step P U utf8 valid s ?s1"
    using system_step.take_listening [of s s P ch q] assms(2,3) i r(1) by simp
  have "(own_step valid)\<^sup>*\<^sup>* ?f ?g" using r(2) assms(4,5) by (intro call_served) (simp_all add: begin_call_def quiet_def)
  then have 2: "(system_step P U utf8 valid)\<^sup>*\<^sup>* ?s1 ?s2" using own_steps_system [of valid ?s1 ?g P U utf8] by simp
  have 3: "system_step P U utf8 valid ?s2 ?s3"
    using system_step.subscribed [of ?s2 ?i "Ok ()" P U utf8 valid] by (auto simp: returned_def)
  have 4: "system_step P U utf8 valid ?s3 ?s4"
    using assms(1) by (intro system_step.registers [of _ "Ok ()" 0 ch]) (simp_all add: lock_allows_def at_rest_def)
  from 2 3 4 have "(system_step P U utf8 valid)\<^sup>*\<^sup>* ?s1 ?s4" by (meson rtranclp.rtrancl_into_rtrancl)
  with 1 have "(system_step P U utf8 valid)\<^sup>*\<^sup>* s ?s4" by (rule converse_rtranclp_into_rtranclp)
  moreover have "at_rest ?s4" using assms(1) by (auto simp: at_rest_def quiet_def begin_call_def)
  ultimately show ?thesis using assms(5)
    by (intro exI [of _ ?s4]) (simp add: assms(3) begin_call_def register_channel_def update_record_def ensure_record_def Let_def split: option.split)
qed

lemma rest_publishes:
  assumes "at_rest s" and "topics (sy_node s) = topic # rest" and "fl_requests (sy_flow s) = []"
    and "env_ok (cy_rotate (env :: cycle_env))"
    and "get_or_rotate_key (bs_key_management (np_broadcast P)) (cy_now_key env) (cy_rotate env) (nd_keys (sy_node s)) = (Ok key, keys)"
    and "\<forall>body. valid (Publish topic AtLeastOnce body)"
  shows "\<exists>s' payload. (system_step P U utf8 valid)\<^sup>*\<^sup>* s s' \<and> Publish topic AtLeastOnce (utf8 payload) \<in> set (fl_wire (sy_flow s'))"
proof -
  obtain keys' payload where s1: "system_step P U utf8 valid s
      (s\<lparr>sy_node := (sy_node s)\<lparr>nd_keys := keys', nd_round := Some (topic # rest, payload)\<rparr>\<rparr>)"
    using rest_cycle [OF assms(1,4,5)] assms(2) by metis
  let ?s1 = "s\<lparr>sy_node := (sy_node s)\<lparr>nd_keys := keys', nd_round := Some (topic # rest, payload)\<rparr>\<rparr>"
  let ?cmd = "Publish topic AtLeastOnce (utf8 payload)" and ?i = "fl_next (sy_flow s)"
  let ?f = "begin_call BroadcastLoop ?cmd (sy_flow s)"
  let ?s2 = "?s1\<lparr>sy_cast := Some ?i, sy_flow := ?f\<rparr>"
  let ?g = "?f\<lparr>fl_caller := (fl_caller ?f)(BroadcastLoop := Free), fl_results := fl_results ?f @ [(?i, ?cmd, Ok ())], fl_wire := fl_wire ?f @ [?cmd]\<rparr>"
  have s2: "system_step P U utf8 valid ?s1 ?s2"
    using system_step.publishes [of ?s1 topic rest payload P U utf8 valid] assms(1) by (simp add: at_rest_def)
  have "(own_step valid)\<^sup>*\<^sup>* ?f ?g"
    using assms(1,3,6) by (intro call_served) (simp_all add: at_rest_def quiet_def begin_call_def)
  then have "(system_step P U utf8 valid)\<^sup>*\<^sup>* ?s2 (?s2\<lparr>sy_flow := ?g\<rparr>)" using own_steps_system [of valid ?s2 ?g P U utf8] by simp
  with s1 s2 have "(system_step P U utf8 valid)\<^sup>*\<^sup>* s (?s2\<lparr>sy_flow := ?g\<rparr>)" by (meson converse_rtranclp_into_rtranclp)
  then show ?thesis by (intro exI [of _ "?s2\<lparr>sy_flow := ?g\<rparr>"] exI [of _ payload]) simp
qed

lemma demo_wire:
  obtains n0 :: "(nat, nat \<times> nat) node" and bs s payload where
    "main_node (demo_init False) demo_config Map.empty [] = Some (n0, bs)" "key_wf (bs_key_management bs) []"
    "(system_step (demo_params bs) demo_requests (map of_char) (\<lambda>_. True))\<^sup>*\<^sup>* (system_init n0 0) s"
    "Publish ''u1/cast'' AtLeastOnce (map of_char payload) \<in> set (fl_wire (sy_flow s))"
proof (rule demo_registered)
  fix n0 n1 :: "(nat, nat \<times> nat) node" and bs key keys
  assume m: "main_node (demo_init False) demo_config Map.empty [] = Some (n0, bs)" and k: "key_wf (bs_key_management bs) []"
    and n1: "node_step (demo_params bs) demo_requests n0 n1" "nd_net n1 = nd_net n0" "nd_hand n1 = nd_hand n0" "nd_published n1 = nd_published n0"
    and r: "nd_round n1 = None"
    and q: "queue n1 = [beacon_channel ''u1'' ''u1/rec'' Listen, beacon_channel ''u1'' ''u1/cast'' Broadcast]"
    and g: "get_or_rotate_key (bs_key_management (np_broadcast (demo_params bs))) (cy_now_key demo_cycle) (cy_rotate demo_cycle)
       (nd_keys n1) = (Ok key, keys)"
  let ?step = "system_step (demo_params bs) demo_requests (map of_char) (\<lambda>_. True)"
  let ?s1 = "(system_init n0 0)\<lparr>sy_node := n1\<rparr>"
  have s1: "?step (system_init n0 0) ?s1"
    using n1 by (intro system_step.node_moves) (simp add: node_aside_def system_init_def)
  have "at_rest ?s1" "fl_requests (sy_flow ?s1) = []" using r by (simp_all add: at_rest_def system_init_def quiet_def flow_init_def)
  moreover have "topics n0 = []"
    using m by (elim main_nodeE) (simp add: node_init_def network_init_def beacon_loop_init_def registry_new_def)
  ultimately obtain s2 where s2: "?step\<^sup>*\<^sup>* ?s1 s2" "at_rest s2" "nd_keys (sy_node s2) = nd_keys n1"
    "queue (sy_node s2) = [beacon_channel ''u1'' ''u1/cast'' Broadcast]" "fl_requests (sy_flow s2) = []" "topics (sy_node s2) = []"
    using rest_subscribes [of ?s1 "beacon_channel ''u1'' ''u1/rec'' Listen" _ "\<lambda>_. True" "demo_params bs" demo_requests "map of_char"] q n1(2)
    by (auto simp: beacon_channel_def)
  obtain s3 where s3: "?step\<^sup>*\<^sup>* s2 s3" "at_rest s3" "nd_keys (sy_node s3) = nd_keys n1" "fl_requests (sy_flow s3) = []"
    "topics (sy_node s3) = [''u1/cast'']"
    using rest_lists [OF s2(2,4), of "demo_params bs" demo_requests "map of_char" "\<lambda>_. True"] s2(3,5,6) by (auto simp: beacon_channel_def)
  obtain s4 payload where "?step\<^sup>*\<^sup>* s3 s4" "Publish ''u1/cast'' AtLeastOnce (map of_char payload) \<in> set (fl_wire (sy_flow s4))"
    using rest_publishes [OF s3(2,5,4) demo_env_ok, of "demo_params bs" key keys "\<lambda>_. True" demo_requests "map of_char"] g s3(3) by auto
  moreover have "?step\<^sup>*\<^sup>* (system_init n0 0) s4"
    using s1 s2(1) s3(1) \<open>?step\<^sup>*\<^sup>* s3 s4\<close> by (meson converse_rtranclp_into_rtranclp rtranclp_trans)
  ultimately show ?thesis using that [OF m k] by blast
qed

subsection \<open>Properties\<close>

lemma main_init:
  assumes "main_node ie config fs keys = Some (n0, bs)"
  shows "nd_hand n0 = None" "nd_published n0 = []"
  using assms by (auto elim!: main_nodeE simp: node_init_def)

lemma delivered_round:
  "(topic, payload) \<in> set (delivered s) \<Longrightarrow> \<exists>rest. nd_round (sy_node s) = Some (topic # rest, payload)"
  by (cases "nd_round (sy_node s)" rule: next_cast.cases) (auto simp: delivered_def split: if_splits)

text \<open>
  C4: The node on its MQTT client is still the node and the MQTT client: every run of the two loops with
  their calls, the tasks and their queues is, seen from the node, a run of the node whose calls
  answer at once, and with it of the abstract service, and, seen from the client, a run of the MQTT
  tasks with their callers. So whatever is shown of either holds of the system.
\<close>

theorem system_refines:
  assumes "main_node ie config fs keys = Some (n0, bs)" and "np_broadcast P = bs" and "key_wf (bs_key_management bs) keys"
    and "(system_step P U utf8 valid)\<^sup>*\<^sup>* (system_init n0 tx) s"
  shows "node_reach P U n0 (sy_node s) \<and> flow_reach valid (flow_init tx) (sy_flow s) \<and>
    service_step\<^sup>*\<^sup>* service_init (service_of (sy_node s))"
  using system_parts [OF main_init(1) [OF assms(1)] assms(4)] node_reach_service [OF assms(1-3)] by blast

theorem system_refines_witness:
  "\<exists>(n0 :: (nat, nat \<times> nat) node) bs s. main_node (demo_init False) demo_config Map.empty [] = Some (n0, bs) \<and>
     (system_step (demo_params bs) demo_requests (map of_char) (\<lambda>_. True))\<^sup>*\<^sup>* (system_init n0 0) s \<and> fl_wire (sy_flow s) \<noteq> [] \<and>
     node_reach (demo_params bs) demo_requests n0 (sy_node s) \<and> service_step\<^sup>*\<^sup>* service_init (service_of (sy_node s))"
proof (rule demo_wire)
  fix n0 :: "(nat, nat \<times> nat) node" and bs s payload
  assume m: "main_node (demo_init False) demo_config Map.empty [] = Some (n0, bs)" and k: "key_wf (bs_key_management bs) []"
    and r: "(system_step (demo_params bs) demo_requests (map of_char) (\<lambda>_. True))\<^sup>*\<^sup>* (system_init n0 0) s"
    and w: "Publish ''u1/cast'' AtLeastOnce (map of_char payload) \<in> set (fl_wire (sy_flow s))"
  have "fl_wire (sy_flow s) \<noteq> []" using w by auto
  with system_refines [OF m demo_np k r] m r show ?thesis by blast
qed

text \<open>
  C2: What reaches the broker: in every run of the system the publications handed to the client, sent
  or queued, are an ordered part of the publications the broadcast loop has made, without
  duplicates or strays, the one whose call has just returned included; and each goes to the topic of
  a beacon id that was issued to a host for which the CA has a certificate.
\<close>

theorem wire_to_certified:
  assumes "main_node ie config fs keys = Some (n0, bs)" and "np_broadcast P = bs" and "key_wf (bs_key_management bs) keys"
    and "(system_step P U utf8 valid)\<^sup>*\<^sup>* (system_init n0 tx) s"
  shows "subseq (filter is_publish (fl_wire (sy_flow s) @ fl_requests (sy_flow s)))
      (map (publish_command utf8) (nd_published (sy_node s) @ delivered s)) \<and>
    (\<forall>topic q body. Publish topic q body \<in> set (fl_wire (sy_flow s)) \<longrightarrow>
       (\<exists>bid host. topic = bid @ ''/cast'' \<and> (bid, host) \<in> set (nd_issued (sy_node s)) \<and> certified (sy_node s) host))"
proof -
  obtain ca fs' where n0: "n0 = node_init ca fs' (gr_gateway_url (cf_gateway_registration config)) keys"
    using assms(1) by (rule main_nodeE)
  note parts = system_parts [OF main_init(1) [OF assms(1)] assms(4)]
  have inv: "node_inv P (gr_gateway_url (cf_gateway_registration config)) (sy_node s)"
    using assms(2,3) parts(1) n0 by (intro node_inv_reach) auto
  have "cast_inv utf8 s" using casts.inv_run [OF assms(4) cast_inv_init [OF main_init [OF assms(1)]]] .
  then have sub: "subseq (filter is_publish (fl_wire (sy_flow s) @ fl_requests (sy_flow s)))
      (map (publish_command utf8) (nd_published (sy_node s) @ delivered s))"
    using wire_casts [of "sy_flow s"] flow_inv_reach [OF parts(2)] by (simp add: cast_inv_def cast_log_def flow_inv_def)
  have "\<exists>bid host. topic = bid @ ''/cast'' \<and> (bid, host) \<in> set (nd_issued (sy_node s)) \<and> certified (sy_node s) host"
    if "Publish topic q body \<in> set (fl_wire (sy_flow s))" for topic q body
  proof -
    have "Publish topic q body \<in> set (filter is_publish (fl_wire (sy_flow s) @ fl_requests (sy_flow s)))" using that by simp
    from list_emb_set [OF sub this]
    have "Publish topic q body \<in> set (map (publish_command utf8) (nd_published (sy_node s) @ delivered s))" by metis
    then have "\<exists>payload. (topic, payload) \<in> set (nd_published (sy_node s) @ delivered s)" by (auto simp: publish_command_def)
    then obtain payload where "(topic, payload) \<in> set (nd_published (sy_node s) @ delivered s)" by blast
    then have "cast_of (ids (sy_node s)) topic"
      using inv delivered_round [of topic payload s] by (auto simp: node_inv_def list_all_iff)
    moreover have "\<forall>(bid, host)\<in>set (nd_issued (sy_node s)). certified (sy_node s) host"
      using inv by (simp add: node_inv_def list_all_iff)
    ultimately show ?thesis by (fastforce simp: cast_of_def ids_def)
  qed
  with sub show ?thesis by blast
qed

theorem wire_to_certified_witness:
  "\<exists>(n0 :: (nat, nat \<times> nat) node) bs s payload bid host. main_node (demo_init False) demo_config Map.empty [] = Some (n0, bs) \<and>
     (system_step (demo_params bs) demo_requests (map of_char) (\<lambda>_. True))\<^sup>*\<^sup>* (system_init n0 0) s \<and>
     Publish ''u1/cast'' AtLeastOnce (map of_char payload) \<in> set (fl_wire (sy_flow s)) \<and>
     ''u1/cast'' = bid @ ''/cast'' \<and> (bid, host) \<in> set (nd_issued (sy_node s)) \<and> certified (sy_node s) host"
proof (rule demo_wire)
  fix n0 :: "(nat, nat \<times> nat) node" and bs s payload
  assume m: "main_node (demo_init False) demo_config Map.empty [] = Some (n0, bs)" and k: "key_wf (bs_key_management bs) []"
    and r: "(system_step (demo_params bs) demo_requests (map of_char) (\<lambda>_. True))\<^sup>*\<^sup>* (system_init n0 0) s"
    and w: "Publish ''u1/cast'' AtLeastOnce (map of_char payload) \<in> set (fl_wire (sy_flow s))"
  from wire_to_certified [OF m demo_np k r] w m r show ?thesis by blast
qed

end
