(* ===== verification/Node_Lock.thy ===== *)
theory Node_Lock
  imports Node_Wire
begin

section \<open>Waiting for the topic list (\<open>src/app.rs\<close>, \<open>registry.rs\<close>)\<close>

text \<open>
  The broadcast loop keeps the read lock of the topic list while it publishes, and the message loop
  waits for the write lock when it registers a broadcasting channel. Meanwhile inbound messages
  pile up. Once their queue is full the event loop waits for the message loop and sends no requests;
  once the request queue is full too, the publication under way never returns, and the lock is
  never released. The witness runs into this from the start of \<open>main\<close>, with twelve devices.
\<close>

subsection \<open>The wait\<close>

definition lock_wait :: "(mqtt_command \<Rightarrow> bool) \<Rightarrow> ('kp, 'cert) system \<Rightarrow> bool" where
  "lock_wait valid s \<longleftrightarrow>
     (\<exists>r now ch. sy_msg s = Registering r \<and> nd_hand (sy_node s) = Some (now, ch) \<and> ch_topic_type ch = Broadcast) \<and>
     (\<exists>topic rest payload. nd_round (sy_node s) = Some (topic # rest, payload)) \<and>
     (\<exists>i cmd. sy_cast s = Some i \<and> fl_caller (sy_flow s) BroadcastLoop = Waiting i cmd \<and>
        fl_task (sy_flow s) = Executing BroadcastLoop i cmd \<and> valid cmd) \<and>
     (\<exists>msg. fl_loop (sy_flow s) = Forwarding msg) \<and> length (fl_inbound (sy_flow s)) = MSG_CAPACITY \<and>
     length (fl_requests (sy_flow s)) = REQ_CAPACITY"

definition stands_still :: "('kp, 'cert) system \<Rightarrow> ('kp, 'cert) system \<Rightarrow> bool" where
  "stands_still s s' \<longleftrightarrow> fl_taken (sy_flow s') = fl_taken (sy_flow s) \<and> fl_wire (sy_flow s') = fl_wire (sy_flow s) \<and>
     fl_results (sy_flow s') = fl_results (sy_flow s) \<and> nw_loop (nd_net (sy_node s')) = nw_loop (nd_net (sy_node s)) \<and>
     nd_round (sy_node s') = nd_round (sy_node s) \<and> nd_published (sy_node s') = nd_published (sy_node s)"

lemma lock_wait_flow:
  assumes "lock_wait valid s" and "own_step valid (sy_flow s) f'"
  shows "lock_wait valid (s\<lparr>sy_flow := f'\<rparr>) \<and> stands_still s (s\<lparr>sy_flow := f'\<rparr>)"
proof (cases "tasks_move valid (sy_flow s) f'")
  case True
  then have "task_step valid (sy_flow s) f'" "fl_taken f' = fl_taken (sy_flow s)" by (simp_all add: tasks_move_def)
  then show ?thesis using assms(1) by (cases rule: task_step.cases) (auto simp: lock_wait_def stands_still_def)
next
  case False
  then have "env_step (sy_flow s) f'" using assms(2) by (simp add: own_step_def)
  then show ?thesis using assms(1) by (cases rule: env_step.cases) (auto simp: lock_wait_def stands_still_def)
qed

lemma register_lists:
  assumes "ch_topic_type ch = Broadcast"
  shows "\<not> (nd_round n \<noteq> None \<and> lock_allows n (nd_net (move_node P (NewChannel sub now ch) n)))"
  by (auto simp: lock_allows_def register_broadcast_topics [OF assms])

lemma lock_wait_step:
  assumes "lock_wait valid s" and "system_step P U utf8 valid s s'"
  shows "lock_wait valid s' \<and> stands_still s s'"
  using assms(2)
proof (cases rule: system_step.cases)
  case (node_moves n')
  have "nd_round n' = nd_round (sy_node s)" using aside_round [OF node_moves(2)] assms(1) by (auto simp: lock_wait_def)
  with node_moves assms(1) show ?thesis by (auto simp: lock_wait_def stands_still_def node_aside_def)
next
  case (tasks f')
  then show ?thesis using lock_wait_flow [OF assms(1)] by (simp add: own_step_def)
next
  case (outside f')
  then show ?thesis using lock_wait_flow [OF assms(1)] by (simp add: own_step_def)
next
  case (registers r now ch n')
  then have "ch_topic_type ch = Broadcast" "nd_round (sy_node s) \<noteq> None" using assms(1) by (auto simp: lock_wait_def)
  with register_lists [of ch "sy_node s" P "\<lambda>_ _. r" now] registers(4,5) show ?thesis by simp
qed (use assms(1) in \<open>auto simp: lock_wait_def returned_def\<close>)

lemma lock_wait_forever: "(system_step P U utf8 valid)\<^sup>*\<^sup>* s s' \<Longrightarrow> lock_wait valid s \<Longrightarrow> lock_wait valid s' \<and> stands_still s s'"
proof (induction rule: rtranclp_induct)
  case (step s1 s2)
  then show ?case using lock_wait_step [OF _ step.hyps(2)] by (auto simp: stands_still_def)
qed (simp add: stands_still_def)

subsection \<open>A run into the wait\<close>

text \<open>The message loop waits for the lock, and the publications go on.\<close>

definition lock_due :: "('kp, 'cert) system \<Rightarrow> bool" where
  "lock_due s \<longleftrightarrow>
     (\<exists>r now ch. sy_msg s = Registering r \<and> nd_hand (sy_node s) = Some (now, ch) \<and> ch_topic_type ch = Broadcast) \<and>
     sy_cast s = None \<and> fl_task (sy_flow s) = Receiving \<and> fl_cmds (sy_flow s) = [] \<and>
     (\<exists>msg. fl_loop (sy_flow s) = Forwarding msg) \<and> length (fl_inbound (sy_flow s)) = MSG_CAPACITY \<and>
     length (fl_requests (sy_flow s)) \<le> REQ_CAPACITY"

lemma cast_done:
  assumes "lock_due s" and "nd_round (sy_node s) = Some (topic # rest, payload)"
    and "length (fl_requests (sy_flow s)) < REQ_CAPACITY" and "valid (Publish topic AtLeastOnce (utf8 payload))"
  shows "\<exists>s'. (system_step P U utf8 valid)\<^sup>*\<^sup>* s s' \<and> lock_due s' \<and> nd_round (sy_node s') = Some (rest, payload) \<and>
    length (fl_requests (sy_flow s')) = Suc (length (fl_requests (sy_flow s)))"
proof -
  let ?cmd = "Publish topic AtLeastOnce (utf8 payload)" and ?i = "fl_next (sy_flow s)"
  obtain f where f: "(system_step P U utf8 valid)\<^sup>*\<^sup>* s (s\<lparr>sy_cast := Some ?i, sy_flow := f\<rparr>)"
    "fl_caller f = (fl_caller (sy_flow s))(BroadcastLoop := Waiting ?i ?cmd)" "fl_task f = Executing BroadcastLoop ?i ?cmd"
    "fl_cmds f = []" "fl_loop f = fl_loop (sy_flow s)" "fl_inbound f = fl_inbound (sy_flow s)" "fl_requests f = fl_requests (sy_flow s)"
    using cast_begins [where ?utf8.0 = utf8 and P = P and U = U and valid = valid, OF _ assms(2)] assms(1) by (auto simp: lock_due_def)
  let ?g = "f\<lparr>fl_caller := (fl_caller f)(BroadcastLoop := Free), fl_results := fl_results f @ [(?i, ?cmd, Ok ())],
    fl_task := Receiving, fl_requests := fl_requests f @ [?cmd]\<rparr>"
  let ?s1 = "s\<lparr>sy_cast := Some ?i, sy_flow := ?g\<rparr>"
  let ?s' = "?s1\<lparr>sy_cast := None, sy_node := (sy_node ?s1)\<lparr>nd_round := Some (rest, payload),
    nd_published := nd_published (sy_node ?s1) @ [(topic, payload)]\<rparr>\<rparr>"
  have "(own_step valid)\<^sup>*\<^sup>* f ?g" using f assms by (intro r_into_rtranclp execution_served) (auto simp: lock_due_def)
  then have "(system_step P U utf8 valid)\<^sup>*\<^sup>* (s\<lparr>sy_cast := Some ?i, sy_flow := f\<rparr>) ?s1"
    using own_steps_system [of valid "s\<lparr>sy_cast := Some ?i, sy_flow := f\<rparr>" ?g P U utf8] by simp
  moreover have "system_step P U utf8 valid ?s1 ?s'"
    by (rule system_step.published [of _ ?i "Ok ()"]) (auto simp: returned_def assms(2))
  ultimately have "(system_step P U utf8 valid)\<^sup>*\<^sup>* s ?s'" using f(1) by (meson rtranclp.rtrancl_into_rtrancl rtranclp_trans)
  moreover have "lock_due ?s'" using assms(1,3) f(4-7) by (auto simp: lock_due_def)
  ultimately show ?thesis using f(7) by (intro exI [of _ ?s']) simp
qed

lemma casts_fill:
  assumes "lock_due s" and "nd_round (sy_node s) = Some (ts, payload)" and "REQ_CAPACITY < length (fl_requests (sy_flow s)) + length ts"
    and "\<forall>t\<in>set ts. valid (Publish t AtLeastOnce (utf8 payload))"
  shows "\<exists>s'. (system_step P U utf8 valid)\<^sup>*\<^sup>* s s' \<and> lock_wait valid s'"
  using assms
proof (induction ts arbitrary: s)
  case Nil
  then show ?case by (simp add: lock_due_def)
next
  case (Cons t ts)
  show ?case
  proof (cases "length (fl_requests (sy_flow s)) < REQ_CAPACITY")
    case True
    obtain s1 where s1: "(system_step P U utf8 valid)\<^sup>*\<^sup>* s s1" "lock_due s1" "nd_round (sy_node s1) = Some (ts, payload)"
      "length (fl_requests (sy_flow s1)) = Suc (length (fl_requests (sy_flow s)))"
      using cast_done [where P = P and U = U and ?utf8.0 = utf8 and valid = valid, OF Cons.prems(1,2) True] Cons.prems(4) by auto
    then obtain s' where "(system_step P U utf8 valid)\<^sup>*\<^sup>* s1 s'" "lock_wait valid s'"
      using Cons.IH [OF s1(2,3)] Cons.prems(3,4) by auto
    with s1(1) show ?thesis by (meson rtranclp_trans)
  next
    case False
    then have full: "length (fl_requests (sy_flow s)) = REQ_CAPACITY" using Cons.prems(1) by (simp add: lock_due_def)
    let ?cmd = "Publish t AtLeastOnce (utf8 payload)" and ?i = "fl_next (sy_flow s)"
    obtain f where f: "(system_step P U utf8 valid)\<^sup>*\<^sup>* s (s\<lparr>sy_cast := Some ?i, sy_flow := f\<rparr>)"
      "fl_caller f = (fl_caller (sy_flow s))(BroadcastLoop := Waiting ?i ?cmd)" "fl_task f = Executing BroadcastLoop ?i ?cmd"
      "fl_loop f = fl_loop (sy_flow s)" "fl_inbound f = fl_inbound (sy_flow s)" "fl_requests f = fl_requests (sy_flow s)"
      using cast_begins [where ?utf8.0 = utf8 and P = P and U = U and valid = valid, OF _ Cons.prems(2)] Cons.prems(1) by (auto simp: lock_due_def)
    have "lock_wait valid (s\<lparr>sy_cast := Some ?i, sy_flow := f\<rparr>)"
      using f(2-6) full Cons.prems by (auto simp: lock_wait_def lock_due_def)
    with f(1) show ?thesis by blast
  qed
qed

lemma lock_reached:
  assumes "at_rest s" and "length (fl_requests (sy_flow s)) \<le> REQ_CAPACITY" and "queue (sy_node s) = ch # q" and "ch_topic_type ch = Broadcast"
    and "env_ok (cy_rotate (env :: cycle_env))"
    and "get_or_rotate_key (bs_key_management (np_broadcast P)) (cy_now_key env) (cy_rotate env) (nd_keys (sy_node s)) = (Ok key, keys)"
  shows "\<exists>s' payload. (system_step P U utf8 valid)\<^sup>*\<^sup>* s s' \<and> lock_due s' \<and> nd_round (sy_node s') = Some (topics (sy_node s), payload) \<and>
    fl_requests (sy_flow s') = fl_requests (sy_flow s)"
proof -
  have r: "sy_msg s = Selecting" "sy_cast s = None" "quiet (sy_flow s)"
    using assms(1) by (simp_all add: at_rest_def)
  obtain keys' payload where s1: "system_step P U utf8 valid s
      (s\<lparr>sy_node := (sy_node s)\<lparr>nd_keys := keys', nd_round := Some (topics (sy_node s), payload)\<rparr>\<rparr>)"
    using rest_cycle [OF assms(1,5,6)] by blast
  let ?n1 = "(sy_node s)\<lparr>nd_keys := keys', nd_round := Some (topics (sy_node s), payload)\<rparr>"
  let ?s1 = "s\<lparr>sy_node := ?n1\<rparr>"
  let ?s2 = "?s1\<lparr>sy_node := ?n1\<lparr>nd_world := (nd_world ?n1)\<lparr>w_queue := q\<rparr>, nd_hand := Some (0, ch)\<rparr>, sy_msg := Registering (Ok ())\<rparr>"
  have "interrupt P ?s1 = ?s1" using r(1) by (simp add: interrupt_def)
  then have s2: "system_step P U utf8 valid ?s1 ?s2"
    using system_step.take_broadcasting [of ?s1 ?s1 P ch q] r(1) assms(3,4) by simp
  obtain f where f: "(own_step valid)\<^sup>*\<^sup>* (sy_flow s) f" "fl_loop f = Polling" "length (fl_inbound f) = MSG_CAPACITY"
    "fl_requests f = fl_requests (sy_flow s)" "fl_task f = Receiving" "fl_cmds f = []"
    using message_rounds [of "sy_flow s" MSG_CAPACITY valid] r(3) by (auto simp: quiet_def)
  fix m
  let ?s3 = "?s2\<lparr>sy_flow := f\<lparr>fl_loop := Forwarding m\<rparr>\<rparr>"
  have "env_step f (f\<lparr>fl_loop := Forwarding m\<rparr>)" using f(2) by (rule env_step.publish_arrives)
  then have "own_step valid f (f\<lparr>fl_loop := Forwarding m\<rparr>)" by (simp add: own_step_def)
  with f(1) have "(own_step valid)\<^sup>*\<^sup>* (sy_flow ?s2) (f\<lparr>fl_loop := Forwarding m\<rparr>)" by (simp add: rtranclp.rtrancl_into_rtrancl)
  then have "(system_step P U utf8 valid)\<^sup>*\<^sup>* ?s2 ?s3" by (rule own_steps_system)
  with s1 s2 have run: "(system_step P U utf8 valid)\<^sup>*\<^sup>* s ?s3" by (meson converse_rtranclp_into_rtranclp)
  have "lock_due ?s3" using r(2) f assms(2,4) by (auto simp: lock_due_def)
  with run f(4) show ?thesis by (intro exI [of _ ?s3] exI [of _ payload]) simp
qed

subsection \<open>A node with many beacons\<close>

text \<open>One device after the other makes its handshake and gets both of its channels registered.\<close>

definition demo_uuid :: "nat \<Rightarrow> string" where
  "demo_uuid i = replicate (Suc i) CHR ''b''"

definition nth_env :: "nat \<Rightarrow> (nat, nat \<times> nat, string) http_env" where
  "nth_env i = (demo_env 64)\<lparr>he_uuid := demo_uuid i\<rparr>"

definition nth_channels :: "nat \<Rightarrow> topic_channel list" where
  "nth_channels i = [beacon_channel (demo_uuid i) (demo_uuid i @ ''/rec'') Listen, beacon_channel (demo_uuid i) (demo_uuid i @ ''/cast'') Broadcast]"

lemma demo_sign:
  assumes "ca_loaded ca = ca_loaded demo_ca"
  shows "\<exists>c ca'. sign_csr demo_rcgen 1000 (\<lambda>s. None) ''lamp'' ''csr'' ca = (Ok c, ca') \<and> ca_loaded ca' = ca_loaded demo_ca"
  using assms by (simp add: sign_csr_def op_sign_csr_def run_stmt_def demo_defs)

lemma nth_handshake:
  assumes "ca_loaded (w_ca w) = ca_loaded demo_ca" and "w_queue w = []"
  obtains resp w' where "dispatch (nth_env i) demo_state demo_request w = (resp, w')" "ca_loaded (w_ca w') = ca_loaded demo_ca"
    "w_queue w' = nth_channels i" "fst ` set (accepted (nth_env i) demo_request resp) \<subseteq> {demo_uuid i}"
proof -
  obtain c ca where sg: "sign_csr demo_rcgen 1000 (\<lambda>s. None) ''lamp'' ''csr'' (w_ca w) = (Ok c, ca)" "ca_loaded ca = ca_loaded demo_ca"
    using demo_sign [OF assms(1)] by blast
  have e: "he_rcgen (nth_env i) = demo_rcgen" "he_now (nth_env i) = 1000" "he_db (nth_env i) = (\<lambda>s. None)" "he_io (nth_env i) = (\<lambda>p. None)"
    "he_uuid (nth_env i) = demo_uuid i" "he_device_json (nth_env i) = he_device_json (demo_env 64)" "he_accepts (nth_env i) = (\<lambda>q. length q < 64)"
    by (simp_all add: nth_env_def demo_env_def)
  have d: "contains_key demo_request HEADER_INIT" "\<not> contains_key demo_request HEADER_HEALTH"
    by (simp_all add: demo_request_def contains_key_def header_names)
  obtain resp w' where h: "handle_device_init (nth_env i) demo_state demo_request w = (resp, w')" by fastforce
  then have "ca_loaded (w_ca w') = ca_loaded demo_ca" "w_queue w' = nth_channels i"
    using sg assms(2) unfolding handle_device_init_def e demo_process_init
    by (auto simp: Let_def demo_device_def record_identity_def e demo_state_def demo_register_identity try_send_def nth_channels_def)
  moreover have "dispatch (nth_env i) demo_state demo_request w = (resp, w')" using h d by (simp add: dispatch_def)
  moreover have "accepted (nth_env i) demo_request resp \<in> {[], [(demo_uuid i, ''lamp'')]}"
    unfolding accepted_def e demo_process_init by (simp add: demo_device_def)
  then have "fst ` set (accepted (nth_env i) demo_request resp) \<subseteq> {demo_uuid i}" by auto
  ultimately show ?thesis using that by blast
qed

definition beacons_rest :: "nat \<Rightarrow> (nat, nat \<times> nat) system \<Rightarrow> bool" where
  "beacons_rest k s \<longleftrightarrow> at_rest s \<and> fl_requests (sy_flow s) = [] \<and> queue (sy_node s) = [] \<and> nd_keys (sy_node s) = [] \<and>
     ca_loaded (w_ca (nd_world (sy_node s))) = ca_loaded demo_ca \<and> ids (sy_node s) \<subseteq> demo_uuid ` {..<k} \<and>
     topics (sy_node s) = map (\<lambda>i. demo_uuid i @ ''/cast'') [0..<k]"

lemma demo_uuid_eq [simp]: "demo_uuid i = demo_uuid j \<longleftrightarrow> i = j"
  by (auto simp: demo_uuid_def dest: arg_cong [where f = length])

lemma nth_served:
  assumes "beacons_rest k s"
  shows "\<exists>n. system_step (demo_params bs) demo_requests utf8 valid s (s\<lparr>sy_node := n\<rparr>) \<and> at_rest (s\<lparr>sy_node := n\<rparr>) \<and>
    nd_keys n = [] \<and> topics n = topics (sy_node s) \<and> queue n = nth_channels k \<and>
    ca_loaded (w_ca (nd_world n)) = ca_loaded demo_ca \<and> ids n \<subseteq> demo_uuid ` {..<Suc k}"
proof -
  have b: "ca_loaded (w_ca (nd_world (sy_node s))) = ca_loaded demo_ca" "queue (sy_node s) = []" "ids (sy_node s) \<subseteq> demo_uuid ` {..<k}"
    using assms by (simp_all add: beacons_rest_def)
  obtain resp w where h: "dispatch (nth_env k) demo_state demo_request (nd_world (sy_node s)) = (resp, w)"
    "ca_loaded (w_ca w) = ca_loaded demo_ca" "w_queue w = nth_channels k" "fst ` set (accepted (nth_env k) demo_request resp) \<subseteq> {demo_uuid k}"
    using b(1,2) by (rule nth_handshake)
  let ?n = "(sy_node s)\<lparr>nd_world := w, nd_issued := nd_issued (sy_node s) @ accepted (nth_env k) demo_request resp\<rparr>"
  have "demo_requests (sy_node s) (nth_env k)" using b(3) by (auto simp: demo_requests_def nth_env_def demo_env_def)
  then have "node_step (demo_params bs) demo_requests (sy_node s) ?n" using h(1) by (intro node_step.serve) (simp_all add: demo_params_def)
  then have "system_step (demo_params bs) demo_requests utf8 valid s (s\<lparr>sy_node := ?n\<rparr>)"
    by (intro system_step.node_moves) (simp add: node_aside_def)
  moreover have "ids ?n \<subseteq> demo_uuid ` {..<Suc k}" using b(3) h(4) by (auto simp: ids_def image_Un)
  ultimately show ?thesis using h(2,3) assms by (intro exI [of _ ?n]) (simp add: beacons_rest_def at_rest_def)
qed

lemma nth_subscribed:
  assumes "beacons_rest k s"
  shows "\<exists>s'. (system_step (demo_params bs) demo_requests utf8 (\<lambda>_. True))\<^sup>*\<^sup>* s s' \<and> at_rest s' \<and> fl_requests (sy_flow s') = [] \<and>
    nd_keys (sy_node s') = [] \<and> topics (sy_node s') = topics (sy_node s) \<and>
    queue (sy_node s') = [beacon_channel (demo_uuid k) (demo_uuid k @ ''/cast'') Broadcast] \<and>
    ca_loaded (w_ca (nd_world (sy_node s'))) = ca_loaded demo_ca \<and> ids (sy_node s') \<subseteq> demo_uuid ` {..<Suc k}"
proof -
  let ?step = "system_step (demo_params bs) demo_requests utf8 (\<lambda>_. True)"
  obtain n where n: "?step s (s\<lparr>sy_node := n\<rparr>)" "at_rest (s\<lparr>sy_node := n\<rparr>)" "nd_keys n = []" "topics n = topics (sy_node s)"
    "queue n = nth_channels k" "ca_loaded (w_ca (nd_world n)) = ca_loaded demo_ca" "ids n \<subseteq> demo_uuid ` {..<Suc k}"
    using nth_served [OF assms, of bs utf8 "\<lambda>_. True"] by blast
  have "fl_requests (sy_flow s) = []" using assms by (simp add: beacons_rest_def)
  then obtain s' where s': "?step\<^sup>*\<^sup>* (s\<lparr>sy_node := n\<rparr>) s'" "at_rest s'" "nd_keys (sy_node s') = nd_keys n" "fl_requests (sy_flow s') = []"
    "topics (sy_node s') = topics n" "nd_issued (sy_node s') = nd_issued n"
    "nd_world (sy_node s') = (nd_world n)\<lparr>w_queue := [beacon_channel (demo_uuid k) (demo_uuid k @ ''/cast'') Broadcast]\<rparr>"
    using rest_subscribes [OF n(2), of "beacon_channel (demo_uuid k) (demo_uuid k @ ''/rec'') Listen" _ "\<lambda>_. True" "demo_params bs" demo_requests utf8] n(5)
    by (auto simp: nth_channels_def beacon_channel_def)
  have "?step\<^sup>*\<^sup>* s s'" using n(1) s'(1) by (rule converse_rtranclp_into_rtranclp)
  then show ?thesis using s' n(3,4,6,7) by (intro exI [of _ s']) (simp add: ids_def)
qed

lemma nth_registered:
  assumes "beacons_rest k s"
  shows "\<exists>s'. (system_step (demo_params bs) demo_requests utf8 (\<lambda>_. True))\<^sup>*\<^sup>* s s' \<and> beacons_rest (Suc k) s'"
proof -
  let ?step = "system_step (demo_params bs) demo_requests utf8 (\<lambda>_. True)"
  obtain s1 where s1: "?step\<^sup>*\<^sup>* s s1" "at_rest s1" "fl_requests (sy_flow s1) = []" "nd_keys (sy_node s1) = []"
    "topics (sy_node s1) = topics (sy_node s)" "queue (sy_node s1) = [beacon_channel (demo_uuid k) (demo_uuid k @ ''/cast'') Broadcast]"
    "ca_loaded (w_ca (nd_world (sy_node s1))) = ca_loaded demo_ca" "ids (sy_node s1) \<subseteq> demo_uuid ` {..<Suc k}"
    using nth_subscribed [OF assms] by blast
  then obtain s' where s': "?step\<^sup>*\<^sup>* s1 s'" "at_rest s'" "nd_keys (sy_node s') = []" "sy_flow s' = sy_flow s1"
    "topics (sy_node s') = topics (sy_node s) @ [demo_uuid k @ ''/cast'']" "nd_issued (sy_node s') = nd_issued (sy_node s1)"
    "nd_world (sy_node s') = (nd_world (sy_node s1))\<lparr>w_queue := []\<rparr>"
    using rest_lists [OF s1(2,6), of "demo_params bs" demo_requests utf8 "\<lambda>_. True"] by (auto simp: beacon_channel_def)
  have "beacons_rest (Suc k) s'" using assms s1(3,7,8) s'(2-7) by (auto simp: beacons_rest_def ids_def)
  with s1(1) s'(1) show ?thesis by (meson rtranclp_trans)
qed

lemma many_registered:
  "beacons_rest 0 s \<Longrightarrow> \<exists>s'. (system_step (demo_params bs) demo_requests utf8 (\<lambda>_. True))\<^sup>*\<^sup>* s s' \<and> beacons_rest k s'"
proof (induction k)
  case (Suc k)
  then obtain s1 where "(system_step (demo_params bs) demo_requests utf8 (\<lambda>_. True))\<^sup>*\<^sup>* s s1" "beacons_rest k s1" by blast
  with nth_registered [of k s1 bs utf8] show ?case by (meson rtranclp_trans)
qed blast

lemma demo_lock_start:
  obtains n0 :: "(nat, nat \<times> nat) node" and bs s key keys where
    "main_node (demo_init False) demo_config Map.empty [] = Some (n0, bs)"
    "(system_step (demo_params bs) demo_requests utf8 (\<lambda>_. True))\<^sup>*\<^sup>* (system_init n0 0) s" "at_rest s" "fl_requests (sy_flow s) = []"
    "length (topics (sy_node s)) = 11" "queue (sy_node s) = [beacon_channel (demo_uuid 11) (demo_uuid 11 @ ''/cast'') Broadcast]"
    "get_or_rotate_key (bs_key_management (np_broadcast (demo_params bs))) (cy_now_key demo_cycle) (cy_rotate demo_cycle) (nd_keys (sy_node s)) = (Ok key, keys)"
proof -
  obtain fs where m: "main_node (demo_init False) demo_config Map.empty [] =
      Some (node_init demo_ca fs None [], app_broadcast_state demo_config (key_management_new 3600 7200))"
    using demo_main by blast
  let ?n0 = "node_init demo_ca fs None []" and ?bs = "app_broadcast_state demo_config (key_management_new 3600 7200)"
  have "beacons_rest 0 (system_init ?n0 0)"
    by (simp add: beacons_rest_def at_rest_def system_init_def quiet_def flow_init_def node_init_def ids_def network_init_def
        beacon_loop_init_def registry_new_def)
  from many_registered [OF this, of ?bs utf8 11] obtain s1 where
    s1: "(system_step (demo_params ?bs) demo_requests utf8 (\<lambda>_. True))\<^sup>*\<^sup>* (system_init ?n0 0) s1" "beacons_rest 11 s1" by blast
  obtain s where s: "(system_step (demo_params ?bs) demo_requests utf8 (\<lambda>_. True))\<^sup>*\<^sup>* s1 s" "at_rest s" "fl_requests (sy_flow s) = []"
    "nd_keys (sy_node s) = []" "topics (sy_node s) = topics (sy_node s1)"
    "queue (sy_node s) = [beacon_channel (demo_uuid 11) (demo_uuid 11 @ ''/cast'') Broadcast]"
    using nth_subscribed [OF s1(2), of ?bs utf8] by blast
  have "length (topics (sy_node s)) = 11" using s(5) s1(2) by (simp add: beacons_rest_def)
  moreover have "\<exists>key keys. get_or_rotate_key (bs_key_management ?bs) (cy_now_key demo_cycle) (cy_rotate demo_cycle) [] = (Ok key, keys)"
    by (simp add: app_broadcast_state_def demo_cycle_def ex_simps)
  ultimately show ?thesis using that [OF m rtranclp_trans [OF s1(1) s(1)] s(2,3) _ s(6)] s(4) by (auto simp: demo_np)
qed

subsection \<open>Property\<close>

text \<open>
  C5: The lock of the topic list can stop the node for good: from any state at rest in which a
  broadcasting channel is queued and the listed beacons are more than the client's request queue
  has room for, a run exists into a state where the message loop waits for the write lock, the
  broadcast loop holds the read lock and waits for its publication, the command task waits for room
  in the request queue, and the event loop, which would make room, waits for the message loop. From
  then on, whatever happens, no message is taken, no request is sent, no call returns, nothing is
  published or registered, and the lock is held.
\<close>

theorem lock_deadlock:
  assumes "at_rest s" and "queue (sy_node s) = ch # q" and "ch_topic_type ch = Broadcast"
    and "length (fl_requests (sy_flow s)) \<le> 10" and "10 < length (fl_requests (sy_flow s)) + length (topics (sy_node s))"
    and "env_ok (cy_rotate (env :: cycle_env))"
    and "get_or_rotate_key (bs_key_management (np_broadcast P)) (cy_now_key env) (cy_rotate env) (nd_keys (sy_node s)) = (Ok key, keys)"
    and "\<forall>t\<in>set (topics (sy_node s)). \<forall>body. valid (Publish t AtLeastOnce body)"
  shows "\<exists>s'. (system_step P U utf8 valid)\<^sup>*\<^sup>* s s' \<and> lock_wait valid s' \<and>
    (\<forall>s''. (system_step P U utf8 valid)\<^sup>*\<^sup>* s' s'' \<longrightarrow> lock_wait valid s'' \<and> stands_still s' s'')"
proof -
  have c: "length (fl_requests (sy_flow s)) \<le> REQ_CAPACITY" using assms(4) by (simp add: capacities)
  obtain s1 payload where s1: "(system_step P U utf8 valid)\<^sup>*\<^sup>* s s1" "lock_due s1"
    "nd_round (sy_node s1) = Some (topics (sy_node s), payload)" "fl_requests (sy_flow s1) = fl_requests (sy_flow s)"
    using lock_reached [OF assms(1) c assms(2,3,6,7)] by metis
  obtain s' where "(system_step P U utf8 valid)\<^sup>*\<^sup>* s1 s'" "lock_wait valid s'"
    using casts_fill [OF s1(2,3), of valid utf8 P U] assms(5,8) s1(4) by (auto simp: capacities)
  with s1(1) lock_wait_forever show ?thesis by (meson rtranclp_trans)
qed

theorem lock_deadlock_witness:
  "\<exists>(n0 :: (nat, nat \<times> nat) node) bs s s'. main_node (demo_init False) demo_config Map.empty [] = Some (n0, bs) \<and>
     (system_step (demo_params bs) demo_requests (map of_char) (\<lambda>_. True))\<^sup>*\<^sup>* (system_init n0 0) s \<and> length (topics (sy_node s)) = 11 \<and>
     (system_step (demo_params bs) demo_requests (map of_char) (\<lambda>_. True))\<^sup>*\<^sup>* s s' \<and> lock_wait (\<lambda>_. True) s' \<and>
     (\<forall>s''. (system_step (demo_params bs) demo_requests (map of_char) (\<lambda>_. True))\<^sup>*\<^sup>* s' s'' \<longrightarrow> lock_wait (\<lambda>_. True) s'' \<and> stands_still s' s'')"
proof (rule demo_lock_start)
  fix n0 :: "(nat, nat \<times> nat) node" and bs s key keys
  assume m: "main_node (demo_init False) demo_config Map.empty [] = Some (n0, bs)"
    and r: "(system_step (demo_params bs) demo_requests (map of_char) (\<lambda>_. True))\<^sup>*\<^sup>* (system_init n0 0) s"
    and s: "at_rest s" "fl_requests (sy_flow s) = []" and t: "length (topics (sy_node s)) = 11"
    and q: "queue (sy_node s) = [beacon_channel (demo_uuid 11) (demo_uuid 11 @ ''/cast'') Broadcast]"
    and k: "get_or_rotate_key (bs_key_management (np_broadcast (demo_params bs))) (cy_now_key demo_cycle) (cy_rotate demo_cycle)
       (nd_keys (sy_node s)) = (Ok key, keys)"
  have "\<exists>s'. (system_step (demo_params bs) demo_requests (map of_char) (\<lambda>_. True))\<^sup>*\<^sup>* s s' \<and> lock_wait (\<lambda>_. True) s' \<and>
     (\<forall>s''. (system_step (demo_params bs) demo_requests (map of_char) (\<lambda>_. True))\<^sup>*\<^sup>* s' s'' \<longrightarrow> lock_wait (\<lambda>_. True) s'' \<and> stands_still s' s'')"
    using s(2) t by (intro lock_deadlock [OF s(1) q _ _ _ demo_env_ok k]) (simp_all add: beacon_channel_def)
  with m r t show ?thesis by blast
qed

end
