(* ===== verification/Sql.thy ===== *)
theory Sql
  imports Prelude "HOL-Library.Multiset"
begin

section \<open>SQL on tables with constraints (\<open>migrations/\<close>)\<close>

text \<open>
  The part of SQL that the migrations and the statements of the program use, with SQLite's documented
  meaning: dynamically typed values, comparisons that are unknown on \<open>NULL\<close>, column constraints
  (\<open>NOT NULL\<close>, \<open>CHECK\<close>, \<open>UNIQUE\<close>, \<open>PRIMARY KEY\<close>, \<open>DEFAULT\<close>, \<open>AUTOINCREMENT\<close>), \<open>INSERT\<close> with
  \<open>ON CONFLICT .. DO UPDATE\<close>, \<open>UPDATE\<close>, \<open>DELETE\<close> and \<open>SELECT\<close>. A statement that violates a constraint
  fails and changes nothing. The order of rows that a query leaves open is left open here too: a
  query has a set of possible answers.

  Every statement keeps the constraints of its tables; a typing of the assigned expressions gives
  the same for the types of the columns, which SQLite itself does not enforce.
\<close>

subsection \<open>Values and expressions\<close>

datatype sql_value = SNull | SInt int | SText string | SBlob "byte list"

datatype sql_type = SqlInteger | SqlText | SqlBlob

datatype sql_expr =
    Lit sql_value
  | Col string
  | Excluded string
  | Param nat
  | Equal sql_expr sql_expr
  | Less sql_expr sql_expr
  | LessEq sql_expr sql_expr
  | Conj sql_expr sql_expr

type_synonym sql_row = "(string \<times> sql_value) list"

definition cell :: "sql_row \<Rightarrow> string \<Rightarrow> sql_value" where
  "cell r c = (case map_of r c of Some v \<Rightarrow> v | None \<Rightarrow> SNull)"

fun codes_less :: "nat list \<Rightarrow> nat list \<Rightarrow> bool" where
  "codes_less xs [] = False"
| "codes_less [] (y # ys) = True"
| "codes_less (x # xs) (y # ys) = (x < y \<or> x = y \<and> codes_less xs ys)"

fun type_rank :: "sql_value \<Rightarrow> nat" where
  "type_rank SNull = 0" | "type_rank (SInt n) = 1" | "type_rank (SText s) = 2" | "type_rank (SBlob b) = 3"

fun value_less :: "sql_value \<Rightarrow> sql_value \<Rightarrow> bool" where
  "value_less (SInt m) (SInt n) = (m < n)"
| "value_less (SText s) (SText t) = codes_less (map of_char s) (map of_char t)"
| "value_less (SBlob a) (SBlob b) = codes_less (map unat a) (map unat b)"
| "value_less v w = (type_rank v < type_rank w)"

definition truth :: "bool \<Rightarrow> sql_value" where
  "truth b = SInt (if b then 1 else 0)"

fun is_true :: "sql_value \<Rightarrow> bool" where
  "is_true (SInt n) = (n \<noteq> 0)"
| "is_true _ = False"

definition compare_values :: "(sql_value \<Rightarrow> sql_value \<Rightarrow> bool) \<Rightarrow> sql_value \<Rightarrow> sql_value \<Rightarrow> sql_value" where
  "compare_values f v w = (if v = SNull \<or> w = SNull then SNull else truth (f v w))"

definition conj_values :: "sql_value \<Rightarrow> sql_value \<Rightarrow> sql_value" where
  "conj_values v w = (if v = SInt 0 \<or> w = SInt 0 then truth False else if v = SNull \<or> w = SNull then SNull else truth True)"

text \<open>The value of an expression under bound parameters, in a row and with the row \<open>excluded\<close>.\<close>

fun eval :: "sql_value list \<Rightarrow> sql_row \<Rightarrow> sql_row \<Rightarrow> sql_expr \<Rightarrow> sql_value" where
  "eval ps r ex (Lit v) = v"
| "eval ps r ex (Col c) = cell r c"
| "eval ps r ex (Excluded c) = cell ex c"
| "eval ps r ex (Param i) = (if i < length ps then ps ! i else SNull)"
| "eval ps r ex (Equal a b) = compare_values (=) (eval ps r ex a) (eval ps r ex b)"
| "eval ps r ex (Less a b) = compare_values value_less (eval ps r ex a) (eval ps r ex b)"
| "eval ps r ex (LessEq a b) = compare_values (\<lambda>v w. \<not> value_less w v) (eval ps r ex a) (eval ps r ex b)"
| "eval ps r ex (Conj a b) = conj_values (eval ps r ex a) (eval ps r ex b)"

abbreviation holds :: "sql_value list \<Rightarrow> sql_expr \<Rightarrow> sql_row \<Rightarrow> bool" where
  "holds ps e r \<equiv> is_true (eval ps r [] e)"

subsection \<open>Tables and their constraints\<close>

record column =
  co_name :: string
  co_type :: sql_type
  co_not_null :: bool
  co_unique :: bool
  co_rowid :: bool
  co_autoincrement :: bool
  co_default :: "sql_value option"
  co_check :: "sql_expr option"

record table =
  ta_columns :: "column list"
  ta_rows :: "sql_row list"
  ta_seq :: int

type_synonym database = "string \<rightharpoonup> table"

datatype sql_error =
    NoSuchTable string
  | NotNullFailed string string
  | CheckFailed string string
  | UniqueFailed string string

definition null_fails :: "sql_row \<Rightarrow> column \<Rightarrow> bool" where
  "null_fails r c \<longleftrightarrow> co_not_null c \<and> cell r (co_name c) = SNull"

definition check_fails :: "sql_row \<Rightarrow> column \<Rightarrow> bool" where
  "check_fails r c \<longleftrightarrow> (case co_check c of Some e \<Rightarrow> eval [] r [] e = SInt 0 | None \<Rightarrow> False)"

definition clashes :: "sql_row list \<Rightarrow> sql_row \<Rightarrow> column \<Rightarrow> bool" where
  "clashes rs r c \<longleftrightarrow> co_unique c \<and> cell r (co_name c) \<noteq> SNull \<and> list_ex (\<lambda>q. cell q (co_name c) = cell r (co_name c)) rs"

text \<open>The first constraint that a row violates among the other rows of its table.\<close>

definition violation :: "string \<Rightarrow> column list \<Rightarrow> sql_row list \<Rightarrow> sql_row \<Rightarrow> sql_error option" where
  "violation tn cs rs r =
     (case List.find (null_fails r) cs of Some c \<Rightarrow> Some (NotNullFailed tn (co_name c)) | None \<Rightarrow>
      case List.find (check_fails r) cs of Some c \<Rightarrow> Some (CheckFailed tn (co_name c)) | None \<Rightarrow>
      map_option (\<lambda>c. UniqueFailed tn (co_name c)) (List.find (clashes rs r) cs))"

subsection \<open>Statements\<close>

type_synonym assigns = "(string \<times> sql_expr) list"

datatype sql_stmt =
    CreateTable string "column list"
  | CreateIndex string string
  | Insert string assigns "(string \<times> assigns) option"
  | Update string assigns sql_expr
  | Delete string sql_expr

definition assign :: "sql_value list \<Rightarrow> assigns \<Rightarrow> sql_row \<Rightarrow> sql_row \<Rightarrow> sql_row" where
  "assign ps sets ex r = map (\<lambda>(c, v). (c, case map_of sets c of Some e \<Rightarrow> eval ps r ex e | None \<Rightarrow> v)) r"

text \<open>
  An \<open>INTEGER PRIMARY KEY\<close> that is not given becomes one more than the largest there is or, with
  \<open>AUTOINCREMENT\<close>, ever was, which \<open>ta_seq\<close> remembers.
\<close>

fun int_of :: "sql_value \<Rightarrow> int" where
  "int_of (SInt n) = n"
| "int_of _ = 0"

definition next_rowid :: "table \<Rightarrow> column \<Rightarrow> int" where
  "next_rowid t c = fold (\<lambda>r m. max (int_of (cell r (co_name c))) m) (ta_rows t) (if co_autoincrement c then ta_seq t else 0) + 1"

definition new_cell :: "sql_value list \<Rightarrow> table \<Rightarrow> assigns \<Rightarrow> column \<Rightarrow> sql_value" where
  "new_cell ps t vals c =
     (let v = (case map_of vals (co_name c) of Some e \<Rightarrow> eval ps [] [] e
               | None \<Rightarrow> (case co_default c of Some v \<Rightarrow> v | None \<Rightarrow> SNull)) in
      if co_rowid c \<and> v = SNull then SInt (next_rowid t c) else v)"

definition inserted_row :: "sql_value list \<Rightarrow> table \<Rightarrow> assigns \<Rightarrow> sql_row" where
  "inserted_row ps t vals = map (\<lambda>c. (co_name c, new_cell ps t vals c)) (ta_columns t)"

fun update_rows ::
  "string \<Rightarrow> column list \<Rightarrow> (sql_row \<Rightarrow> bool) \<Rightarrow> (sql_row \<Rightarrow> sql_row) \<Rightarrow> sql_row list \<Rightarrow> sql_row list \<Rightarrow> (sql_row list, sql_error) result" where
  "update_rows tn cs hit f before [] = Ok before"
| "update_rows tn cs hit f before (r # rs) =
     (if hit r then
        (case violation tn cs (before @ rs) (f r) of
           Some e \<Rightarrow> Err e
         | None \<Rightarrow> update_rows tn cs hit f (before @ [f r]) rs)
      else update_rows tn cs hit f (before @ [r]) rs)"

definition add_row :: "sql_row \<Rightarrow> table \<Rightarrow> table" where
  "add_row r t = t\<lparr>ta_rows := ta_rows t @ [r],
     ta_seq := fold (\<lambda>c m. if co_rowid c then max (int_of (cell r (co_name c))) m else m) (ta_columns t) (ta_seq t)\<rparr>"

definition sql_insert :: "string \<Rightarrow> sql_value list \<Rightarrow> assigns \<Rightarrow> (string \<times> assigns) option \<Rightarrow> table \<Rightarrow> (table, sql_error) result" where
  "sql_insert tn ps vals conflict t =
     (let cs = ta_columns t; r = inserted_row ps t vals in
      case violation tn cs [] r of Some e \<Rightarrow> Err e | None \<Rightarrow>
      (case conflict of
         Some (c, sets) \<Rightarrow>
           if list_ex (\<lambda>q. cell q c = cell r c \<and> cell r c \<noteq> SNull) (ta_rows t)
           then (case update_rows tn cs (\<lambda>q. cell q c = cell r c) (assign ps sets r) [] (ta_rows t) of
                   Err e \<Rightarrow> Err e | Ok rs \<Rightarrow> Ok (t\<lparr>ta_rows := rs\<rparr>))
           else (case violation tn cs (ta_rows t) r of Some e \<Rightarrow> Err e | None \<Rightarrow> Ok (add_row r t))
       | None \<Rightarrow> (case violation tn cs (ta_rows t) r of Some e \<Rightarrow> Err e | None \<Rightarrow> Ok (add_row r t))))"

text \<open>A statement gives the number of rows it has affected and the new database.\<close>

fun exec :: "sql_stmt \<Rightarrow> sql_value list \<Rightarrow> database \<Rightarrow> (nat \<times> database, sql_error) result" where
  "exec (CreateTable tn cs) ps db =
     Ok (0, if db tn = None then db(tn \<mapsto> \<lparr>ta_columns = cs, ta_rows = [], ta_seq = 0\<rparr>) else db)"
| "exec (CreateIndex ix tn) ps db = (case db tn of None \<Rightarrow> Err (NoSuchTable tn) | Some t \<Rightarrow> Ok (0, db))"
| "exec (Insert tn vals conflict) ps db =
     (case db tn of None \<Rightarrow> Err (NoSuchTable tn) | Some t \<Rightarrow>
      case sql_insert tn ps vals conflict t of Err e \<Rightarrow> Err e | Ok t' \<Rightarrow> Ok (1, db(tn \<mapsto> t')))"
| "exec (Update tn sets w) ps db =
     (case db tn of None \<Rightarrow> Err (NoSuchTable tn) | Some t \<Rightarrow>
      case update_rows tn (ta_columns t) (holds ps w) (assign ps sets []) [] (ta_rows t) of
        Err e \<Rightarrow> Err e
      | Ok rs \<Rightarrow> Ok (length (filter (holds ps w) (ta_rows t)), db(tn \<mapsto> t\<lparr>ta_rows := rs\<rparr>)))"
| "exec (Delete tn w) ps db =
     (case db tn of None \<Rightarrow> Err (NoSuchTable tn) | Some t \<Rightarrow>
      Ok (length (filter (holds ps w) (ta_rows t)), db(tn \<mapsto> t\<lparr>ta_rows := filter (\<lambda>r. \<not> holds ps w r) (ta_rows t)\<rparr>)))"

text \<open>
  A query: projected columns, condition, column of a descending order. Its answers are the selected
  rows in any order that the \<open>ORDER BY\<close> admits.
\<close>

record query =
  qu_columns :: "string list"
  qu_table :: string
  qu_where :: sql_expr
  qu_desc :: "string option"

definition selected :: "query \<Rightarrow> sql_value list \<Rightarrow> database \<Rightarrow> sql_row list" where
  "selected q ps db = (case db (qu_table q) of None \<Rightarrow> [] | Some t \<Rightarrow> filter (holds ps (qu_where q)) (ta_rows t))"

definition in_order :: "string option \<Rightarrow> sql_row list \<Rightarrow> bool" where
  "in_order desc rs \<longleftrightarrow> (case desc of None \<Rightarrow> True | Some c \<Rightarrow> sorted_wrt (\<lambda>r r'. \<not> value_less (cell r c) (cell r' c)) rs)"

definition answers :: "query \<Rightarrow> sql_value list \<Rightarrow> database \<Rightarrow> sql_value list list \<Rightarrow> bool" where
  "answers q ps db out \<longleftrightarrow> (\<exists>rs. mset rs = mset (selected q ps db) \<and> in_order (qu_desc q) rs \<and>
     out = map (\<lambda>r. map (cell r) (qu_columns q)) rs)"

subsection \<open>Well-formed databases\<close>

fun of_type :: "sql_value \<Rightarrow> sql_type \<Rightarrow> bool" where
  "of_type SNull ty = True"
| "of_type (SInt n) ty = (ty = SqlInteger)"
| "of_type (SText s) ty = (ty = SqlText)"
| "of_type (SBlob b) ty = (ty = SqlBlob)"

definition row_typed :: "column list \<Rightarrow> sql_row \<Rightarrow> bool" where
  "row_typed cs r \<longleftrightarrow> list_all2 (\<lambda>c (n, v). n = co_name c \<and> of_type v (co_type c)) cs r"

definition row_ok :: "column list \<Rightarrow> sql_row \<Rightarrow> bool" where
  "row_ok cs r \<longleftrightarrow> row_typed cs r \<and> list_all (\<lambda>c. \<not> null_fails r c \<and> \<not> check_fails r c) cs"

definition unique_ok :: "column list \<Rightarrow> sql_row list \<Rightarrow> bool" where
  "unique_ok cs rs \<longleftrightarrow> list_all (\<lambda>c. co_unique c \<longrightarrow>
     distinct (filter (\<lambda>v. v \<noteq> SNull) (map (\<lambda>r. cell r (co_name c)) rs))) cs"

definition columns_ok :: "column list \<Rightarrow> bool" where
  "columns_ok cs \<longleftrightarrow> distinct (map co_name cs) \<and>
     list_all (\<lambda>c. (co_rowid c \<longrightarrow> co_type c = SqlInteger) \<and> (\<forall>v. co_default c = Some v \<longrightarrow> of_type v (co_type c))) cs"

definition table_ok :: "table \<Rightarrow> bool" where
  "table_ok t \<longleftrightarrow> columns_ok (ta_columns t) \<and> list_all (row_ok (ta_columns t)) (ta_rows t) \<and> unique_ok (ta_columns t) (ta_rows t)"

definition db_ok :: "database \<Rightarrow> bool" where
  "db_ok db \<longleftrightarrow> (\<forall>t\<in>ran db. table_ok t)"

text \<open>Typed assignments: each expression has the type of the column it is assigned to.\<close>

fun fits :: "column list \<Rightarrow> sql_value list \<Rightarrow> sql_type \<Rightarrow> sql_expr \<Rightarrow> bool" where
  "fits cs ps ty (Lit v) = of_type v ty"
| "fits cs ps ty (Col c) = list_ex (\<lambda>co. co_name co = c \<and> co_type co = ty) cs"
| "fits cs ps ty (Excluded c) = list_ex (\<lambda>co. co_name co = c \<and> co_type co = ty) cs"
| "fits cs ps ty (Param i) = (i < length ps \<longrightarrow> of_type (ps ! i) ty)"
| "fits cs ps ty e = (ty = SqlInteger)"

definition assigns_fit :: "column list \<Rightarrow> sql_value list \<Rightarrow> assigns \<Rightarrow> bool" where
  "assigns_fit cs ps sets \<longleftrightarrow> list_all (\<lambda>co. \<forall>e. map_of sets (co_name co) = Some e \<longrightarrow> fits cs ps (co_type co) e) cs"

fun stmt_fits :: "database \<Rightarrow> sql_value list \<Rightarrow> sql_stmt \<Rightarrow> bool" where
  "stmt_fits db ps (CreateTable tn cs) = columns_ok cs"
| "stmt_fits db ps (CreateIndex ix tn) = True"
| "stmt_fits db ps (Insert tn vals conflict) =
     (case db tn of None \<Rightarrow> True | Some t \<Rightarrow> assigns_fit (ta_columns t) ps vals \<and>
        (case conflict of None \<Rightarrow> True | Some (c, sets) \<Rightarrow> assigns_fit (ta_columns t) ps sets))"
| "stmt_fits db ps (Update tn sets w) = (case db tn of None \<Rightarrow> True | Some t \<Rightarrow> assigns_fit (ta_columns t) ps sets)"
| "stmt_fits db ps (Delete tn w) = True"

subsection \<open>Statements keep databases well formed\<close>

lemma row_typed_names: "row_typed cs r \<Longrightarrow> map fst r = map co_name cs"
  unfolding row_typed_def by (induction rule: list_all2_induct) auto

lemma cell_typed:
  assumes "row_typed cs r" and "distinct (map co_name cs)" and "co \<in> set cs"
  shows "of_type (cell r (co_name co)) (co_type co)"
  using assms unfolding row_typed_def
proof (induction rule: list_all2_induct)
  case (Cons c cs p r)
  then show ?case by (cases p) (auto simp: cell_def image_iff)
qed simp

lemma compare_typed [simp]: "of_type (compare_values f v w) SqlInteger" "of_type (conj_values v w) SqlInteger"
  by (simp_all add: compare_values_def conj_values_def truth_def)

lemma eval_typed:
  assumes "distinct (map co_name cs)" and "r = [] \<or> row_typed cs r" and "ex = [] \<or> row_typed cs ex" and "fits cs ps ty e"
  shows "of_type (eval ps r ex e) ty"
proof -
  have c: "of_type (cell q c) ty" if "q = [] \<or> row_typed cs q" and "list_ex (\<lambda>co. co_name co = c \<and> co_type co = ty) cs" for q c
    using that cell_typed [OF _ assms(1), of q] by (auto simp: list_ex_iff cell_def)
  show ?thesis using assms(4) c [OF assms(2)] c [OF assms(3)] by (cases e) auto
qed

lemma assign_typed:
  assumes "distinct (map co_name cs)" and "row_typed cs r" and "ex = [] \<or> row_typed cs ex" and "assigns_fit cs ps sets"
  shows "row_typed cs (assign ps sets ex r)"
proof -
  have "of_type (eval ps r ex e) (co_type co)" if "co \<in> set cs" "map_of sets (co_name co) = Some e" for co e
    using that assms(4) eval_typed [OF assms(1) _ assms(3)] assms(2) by (auto simp: assigns_fit_def list_all_iff)
  then show ?thesis using assms(2)
    unfolding row_typed_def assign_def list_all2_map2 by (elim list.rel_mono_strong) (auto split: option.split)
qed

lemma inserted_row_typed:
  assumes "columns_ok (ta_columns t)" and "assigns_fit (ta_columns t) ps vals"
  shows "row_typed (ta_columns t) (inserted_row ps t vals)"
proof -
  have d: "distinct (map co_name (ta_columns t))" using assms(1) by (simp add: columns_ok_def)
  have "of_type (new_cell ps t vals co) (co_type co)" if "co \<in> set (ta_columns t)" for co
    using that assms eval_typed [OF d, of "[]" "[]" ps]
    by (auto simp: new_cell_def Let_def columns_ok_def assigns_fit_def list_all_iff split: option.splits)
  then show ?thesis unfolding row_typed_def inserted_row_def list_all2_map2 by (intro list.rel_refl_strong) auto
qed

lemma find_SomeD: "List.find P xs = Some x \<Longrightarrow> x \<in> set xs \<and> P x"
  by (auto simp: find_Some_iff)

lemma violation_None:
  "violation tn cs rs r = None \<longleftrightarrow> (\<forall>c\<in>set cs. \<not> null_fails r c \<and> \<not> check_fails r c \<and> \<not> clashes rs r c)"
  by (auto simp: violation_def find_None_iff dest: find_SomeD split: option.splits)

lemma unique_ok_insert:
  "unique_ok cs (xs @ r # ys) \<longleftrightarrow> unique_ok cs (xs @ ys) \<and> (\<forall>c\<in>set cs. \<not> clashes (xs @ ys) r c)"
proof -
  have k: "distinct (filter (\<lambda>v. v \<noteq> SNull) (map g (xs @ r # ys))) \<longleftrightarrow>
      distinct (filter (\<lambda>v. v \<noteq> SNull) (map g (xs @ ys))) \<and> \<not> (g r \<noteq> SNull \<and> (\<exists>q\<in>set (xs @ ys). g q = g r))" for g :: "sql_row \<Rightarrow> sql_value"
    by (auto simp: image_iff)
  show ?thesis unfolding unique_ok_def clashes_def list_all_iff list_ex_iff k by blast
qed

lemma unique_ok_filter:
  assumes "unique_ok cs rs"
  shows "unique_ok cs (filter P rs)"
proof -
  have "distinct (filter Q (map g rs)) \<Longrightarrow> distinct (filter Q (map g (filter P rs)))" for Q and g :: "sql_row \<Rightarrow> sql_value"
    by (induction rs) auto
  with assms show ?thesis by (auto simp: unique_ok_def list_all_iff)
qed

definition rows_ok :: "column list \<Rightarrow> sql_row list \<Rightarrow> bool" where
  "rows_ok cs rs \<longleftrightarrow> list_all (row_ok cs) rs \<and> unique_ok cs rs"

lemma rows_ok_insert:
  assumes "rows_ok cs (xs @ ys)" and "row_typed cs r" and "violation tn cs (xs @ ys) r = None"
  shows "rows_ok cs (xs @ r # ys)"
  using assms by (auto simp: rows_ok_def row_ok_def violation_None unique_ok_insert list_all_iff)

lemma rows_ok_remove: "rows_ok cs (xs @ r # ys) \<Longrightarrow> rows_ok cs (xs @ ys)"
  by (auto simp: rows_ok_def unique_ok_insert)

lemma update_rows_ok:
  assumes "update_rows tn cs hit f before rs = Ok rs'" and "rows_ok cs (before @ rs)"
    and "\<And>r. row_typed cs r \<Longrightarrow> row_typed cs (f r)"
  shows "rows_ok cs rs'"
  using assms(1,2)
proof (induction rs arbitrary: before)
  case (Cons r rs)
  show ?case
  proof (cases "hit r")
    case True
    then have v: "violation tn cs (before @ rs) (f r) = None" and u: "update_rows tn cs hit f (before @ [f r]) rs = Ok rs'"
      using Cons.prems(1) by (auto split: option.splits)
    have "row_typed cs (f r)" using Cons.prems(2) assms(3) by (auto simp: rows_ok_def row_ok_def)
    with rows_ok_insert [OF rows_ok_remove [OF Cons.prems(2)] this v] Cons.IH [OF u] show ?thesis by simp
  next
    case False
    with Cons show ?thesis by simp
  qed
qed simp

lemma sql_insert_ok:
  assumes "table_ok t" and "assigns_fit (ta_columns t) ps vals" and "\<And>c sets. conflict = Some (c, sets) \<Longrightarrow> assigns_fit (ta_columns t) ps sets"
    and "sql_insert tn ps vals conflict t = Ok t'"
  shows "table_ok t' \<and> ta_columns t' = ta_columns t"
proof -
  let ?cs = "ta_columns t" and ?r = "inserted_row ps t vals"
  have ok: "columns_ok ?cs" "rows_ok ?cs (ta_rows t)" using assms(1) by (simp_all add: table_ok_def rows_ok_def)
  have d: "distinct (map co_name ?cs)" using ok(1) by (simp add: columns_ok_def)
  have r: "row_typed ?cs ?r" using inserted_row_typed [OF ok(1) assms(2)] .
  have add: "table_ok (add_row ?r t) \<and> ta_columns (add_row ?r t) = ?cs" if "violation tn ?cs (ta_rows t) ?r = None"
    using rows_ok_insert [of ?cs "ta_rows t" "[]" ?r tn] ok r that by (simp add: table_ok_def add_row_def rows_ok_def)
  have upd: "table_ok (t\<lparr>ta_rows := rs\<rparr>)"
    if "update_rows tn ?cs hit (assign ps sets ?r) [] (ta_rows t) = Ok rs" and "assigns_fit ?cs ps sets" for hit sets rs
    using update_rows_ok [OF that(1)] ok assign_typed [OF d _ disjI2 [OF r] that(2)] by (simp add: table_ok_def rows_ok_def)
  from assms(3,4) add upd show ?thesis
    by (auto simp: sql_insert_def Let_def split: option.splits if_splits result.splits)
qed

lemma db_ok_upd: "db_ok db \<Longrightarrow> table_ok t \<Longrightarrow> db_ok (db(tn \<mapsto> t))"
  by (auto simp: db_ok_def ran_def)

lemma exec_ok:
  assumes "db_ok db" and "stmt_fits db ps st" and "exec st ps db = Ok (n, db')"
  shows "db_ok db'"
proof (cases st)
  case (CreateTable tn cs)
  then have "table_ok \<lparr>ta_columns = cs, ta_rows = [], ta_seq = 0\<rparr>" using assms(2) by (simp add: table_ok_def unique_ok_def list_all_iff)
  with CreateTable assms(1,3) show ?thesis by (auto intro: db_ok_upd)
next
  case (Insert tn vals conflict)
  then obtain t t' where t: "db tn = Some t" "sql_insert tn ps vals conflict t = Ok t'" "db' = db(tn \<mapsto> t')"
    using assms(3) by (auto split: option.splits result.splits)
  moreover have "table_ok t" using assms(1) t(1) by (auto simp: db_ok_def ran_def)
  ultimately have "table_ok t'" using sql_insert_ok [of t ps vals conflict tn t'] assms(2) Insert by (auto split: option.splits)
  with assms(1) t(3) show ?thesis by (auto intro: db_ok_upd)
next
  case (Update tn sets w)
  then obtain t rs where t: "db tn = Some t" "update_rows tn (ta_columns t) (holds ps w) (assign ps sets []) [] (ta_rows t) = Ok rs"
    "db' = db(tn \<mapsto> t\<lparr>ta_rows := rs\<rparr>)" "assigns_fit (ta_columns t) ps sets"
    using assms(2,3) by (auto split: option.splits result.splits)
  have ok: "table_ok t" using assms(1) t(1) by (auto simp: db_ok_def ran_def)
  then have "table_ok (t\<lparr>ta_rows := rs\<rparr>)"
    using update_rows_ok [OF t(2)] assign_typed [OF _ _ disjI1 [OF refl] t(4)] by (simp add: table_ok_def rows_ok_def columns_ok_def)
  with assms(1) t(3) show ?thesis by (auto intro: db_ok_upd)
next
  case (Delete tn w)
  then obtain t where t: "db tn = Some t" "db' = db(tn \<mapsto> t\<lparr>ta_rows := filter (\<lambda>r. \<not> holds ps w r) (ta_rows t)\<rparr>)"
    using assms(3) by (auto split: option.splits)
  have "table_ok t" using assms(1) t(1) by (auto simp: db_ok_def ran_def)
  then have "table_ok (t\<lparr>ta_rows := filter (\<lambda>r. \<not> holds ps w r) (ta_rows t)\<rparr>)"
    using unique_ok_filter [of "ta_columns t" "ta_rows t"] by (auto simp: table_ok_def list_all_iff)
  with assms(1) t(2) show ?thesis by (auto intro: db_ok_upd)
qed (use assms in \<open>auto split: option.splits\<close>)

text \<open>An update that keeps the unique columns and the constraints of single rows does not fail.\<close>

definition harmless :: "column list \<Rightarrow> (sql_row \<Rightarrow> sql_row) \<Rightarrow> bool" where
  "harmless cs f \<longleftrightarrow> (\<forall>r. row_ok cs r \<longrightarrow> row_typed cs (f r) \<and> (\<forall>c\<in>set cs. \<not> null_fails (f r) c \<and> \<not> check_fails (f r) c \<and>
     (co_unique c \<longrightarrow> cell (f r) (co_name c) = cell r (co_name c))))"

lemma update_rows_harmless:
  assumes "rows_ok cs (before @ rs)" and "harmless cs f"
  shows "update_rows tn cs hit f before rs = Ok (before @ map (\<lambda>r. if hit r then f r else r) rs)"
  using assms(1)
proof (induction rs arbitrary: before)
  case (Cons r rs)
  show ?case
  proof (cases "hit r")
    case True
    have r: "row_ok cs r" and clash: "\<forall>c\<in>set cs. \<not> clashes (before @ rs) r c"
      using Cons.prems by (auto simp: rows_ok_def unique_ok_insert)
    with assms(2) have f: "row_typed cs (f r)" "\<forall>c\<in>set cs. \<not> null_fails (f r) c \<and> \<not> check_fails (f r) c \<and> \<not> clashes (before @ rs) (f r) c"
      by (auto simp: harmless_def clashes_def)
    then have v: "violation tn cs (before @ rs) (f r) = None" by (simp add: violation_None)
    from rows_ok_insert [OF rows_ok_remove [OF Cons.prems] f(1) v] Cons.IH [of "before @ [f r]"] True v show ?thesis by simp
  next
    case False
    with Cons show ?thesis by simp
  qed
qed simp

lemma cell_assign:
  "cell (assign ps sets ex r) c =
     (if map_of r c = None then SNull else case map_of sets c of Some e \<Rightarrow> eval ps r ex e | None \<Rightarrow> cell r c)"
proof -
  have "map_of (map (\<lambda>(c, v). (c, g c v)) xs) c = map_option (g c) (map_of xs c)" for g :: "string \<Rightarrow> sql_value \<Rightarrow> sql_value" and xs
    by (induction xs) auto
  from this [of "\<lambda>c v. case map_of sets c of Some e \<Rightarrow> eval ps r ex e | None \<Rightarrow> v" r]
  show ?thesis by (auto simp: cell_def assign_def split: option.split)
qed

lemma harmless_assign:
  assumes "distinct (map co_name cs)" and "\<forall>c\<in>set cs. co_check c = None" and "assigns_fit cs ps sets" and "ex = [] \<or> row_typed cs ex"
    and "\<forall>c\<in>set cs. co_unique c \<longrightarrow> map_of sets (co_name c) = None"
    and "\<And>r c e. row_ok cs r \<Longrightarrow> map_of sets c = Some e \<Longrightarrow> eval ps r ex e \<noteq> SNull"
  shows "harmless cs (assign ps sets ex)"
  unfolding harmless_def
proof (intro allI impI conjI ballI)
  fix r c
  assume r: "row_ok cs r"
  then have ty: "row_typed cs r" by (simp add: row_ok_def)
  with assms(1,3,4) show "row_typed cs (assign ps sets ex r)" by (intro assign_typed)
  assume c: "c \<in> set cs"
  then have m: "map_of r (co_name c) \<noteq> None" using row_typed_names [OF ty] by (metis image_eqI list.set_map map_of_eq_None_iff)
  show "\<not> null_fails (assign ps sets ex r) c"
    using m r c assms(6) [OF r] by (auto simp: null_fails_def cell_assign row_ok_def list_all_iff split: option.splits)
  show "\<not> check_fails (assign ps sets ex r) c" using c assms(2) by (simp add: check_fails_def)
  show "cell (assign ps sets ex r) (co_name c) = cell r (co_name c)" if "co_unique c"
    using m c assms(5) that by (auto simp: cell_assign)
qed

lemma of_type_iff [simp]:
  "of_type v SqlInteger \<longleftrightarrow> v = SNull \<or> (\<exists>n. v = SInt n)" "of_type v SqlText \<longleftrightarrow> v = SNull \<or> (\<exists>s. v = SText s)"
  "of_type v SqlBlob \<longleftrightarrow> v = SNull \<or> (\<exists>b. v = SBlob b)"
  by (cases v; auto)+

lemma next_rowid_fresh:
  assumes "r \<in> set (ta_rows t)"
  shows "cell r (co_name c) \<noteq> SInt (next_rowid t c)"
proof -
  have le: "x \<le> fold (\<lambda>r m. max (g r) m) rs x" for rs :: "sql_row list" and g and x :: int
    by (induction rs arbitrary: x) (auto intro: order_trans [OF max.cobounded2])
  have "r \<in> set rs \<Longrightarrow> g r \<le> fold (\<lambda>r m. max (g r) m) rs x" for rs :: "sql_row list" and g and x :: int
  proof (induction rs arbitrary: x)
    case (Cons q rs)
    then show ?case using le [of "max (g q) x" g rs] by auto
  qed simp
  from this [OF assms, of "\<lambda>r. int_of (cell r (co_name c))" "if co_autoincrement c then ta_seq t else 0"]
  have "int_of (cell r (co_name c)) < next_rowid t c" by (simp add: next_rowid_def)
  then show ?thesis by auto
qed

lemma exec_columns:
  assumes "exec st ps db = Ok (n, db')" and "db tn = Some t"
  shows "\<exists>t'. db' tn = Some t' \<and> ta_columns t' = ta_columns t"
  using assms by (cases st)
    (auto simp: sql_insert_def add_row_def Let_def split: option.splits result.splits if_splits)

end
