(* ===== verification/Database.thy ===== *)
theory Database
  imports Sql Ca Key_Management
begin

section \<open>The database (\<open>migrations/\<close>, \<open>src/infra/ca/\<close>, \<open>key_management.rs\<close>)\<close>

text \<open>
  The schema that the migrations create and the SQL statements of the program, as they stand in the
  source, with their bound parameters. The tables of \<open>Ca\<close> and \<open>Key_Management\<close> are what the rows mean
  to the program; the statements do on the database what the functions there do on those tables, and
  fail exactly where these report a violated key.
\<close>

subsection \<open>Migrations\<close>

definition nullable :: "string \<Rightarrow> sql_type \<Rightarrow> column" where
  "nullable n ty = \<lparr>co_name = n, co_type = ty, co_not_null = False, co_unique = False, co_rowid = False,
     co_autoincrement = False, co_default = None, co_check = None\<rparr>"

definition not_null :: "string \<Rightarrow> sql_type \<Rightarrow> column" where
  "not_null n ty = (nullable n ty)\<lparr>co_not_null := True\<rparr>"

text \<open>An \<open>INTEGER PRIMARY KEY\<close> is the row id, which is never \<open>NULL\<close>.\<close>

definition integer_primary_key :: "string \<Rightarrow> column" where
  "integer_primary_key n = (not_null n SqlInteger)\<lparr>co_unique := True, co_rowid := True\<rparr>"

definition ca_keys_columns :: "column list" where
  "ca_keys_columns =
     [(integer_primary_key ''id'')\<lparr>co_check := Some (Equal (Col ''id'') (Lit (SInt 1)))\<rparr>,
      not_null ''cert_pem'' SqlText, not_null ''key_pem'' SqlText]"

definition device_certs_columns :: "column list" where
  "device_certs_columns =
     [(integer_primary_key ''id'')\<lparr>co_autoincrement := True\<rparr>,
      (not_null ''device_id'' SqlText)\<lparr>co_unique := True\<rparr>, not_null ''cert_pem'' SqlText,
      not_null ''issued_at'' SqlInteger, not_null ''expires_at'' SqlInteger,
      (not_null ''revoked'' SqlInteger)\<lparr>co_default := Some (SInt 0)\<rparr>]"

definition node_identity_columns :: "column list" where
  "node_identity_columns =
     [(integer_primary_key ''id'')\<lparr>co_check := Some (Equal (Col ''id'') (Lit (SInt 1)))\<rparr>,
      not_null ''cert_pem'' SqlText, not_null ''key_pem'' SqlText,
      not_null ''issued_at'' SqlInteger, not_null ''expires_at'' SqlInteger]"

definition broadcast_keys_columns :: "column list" where
  "broadcast_keys_columns =
     [(not_null ''key_id'' SqlBlob)\<lparr>co_unique := True\<rparr>, not_null ''key_material'' SqlBlob,
      not_null ''created_at'' SqlInteger, not_null ''rotates_at'' SqlInteger, not_null ''expires_at'' SqlInteger,
      (not_null ''is_active'' SqlInteger)\<lparr>co_default := Some (SInt 1)\<rparr>]"

definition migrations :: "sql_stmt list" where
  "migrations =
     [CreateTable ''ca_keys'' ca_keys_columns, CreateTable ''device_certs'' device_certs_columns,
      CreateTable ''node_identity'' node_identity_columns, CreateTable ''broadcast_keys'' broadcast_keys_columns,
      CreateIndex ''idx_broadcast_keys_active'' ''broadcast_keys'']"

fun run_all :: "sql_stmt list \<Rightarrow> database \<Rightarrow> (database, sql_error) result" where
  "run_all [] db = Ok db"
| "run_all (st # sts) db = (case exec st [] db of Err e \<Rightarrow> Err e | Ok (n, db') \<Rightarrow> run_all sts db')"

definition migrate :: "database \<Rightarrow> (database, sql_error) result" where
  "migrate db = run_all migrations db"

subsection \<open>The statements of the program\<close>

definition insert_ca_stmt :: sql_stmt where
  "insert_ca_stmt = Insert ''ca_keys'' [(''id'', Lit (SInt 1)), (''cert_pem'', Param 0), (''key_pem'', Param 1)] None"

definition upsert_device_stmt :: sql_stmt where
  "upsert_device_stmt =
     Insert ''device_certs''
       [(''device_id'', Param 0), (''cert_pem'', Param 1), (''issued_at'', Param 2), (''expires_at'', Param 3), (''revoked'', Lit (SInt 0))]
       (Some (''device_id'', [(''cert_pem'', Excluded ''cert_pem''), (''issued_at'', Excluded ''issued_at''),
          (''expires_at'', Excluded ''expires_at''), (''revoked'', Lit (SInt 0))]))"

definition revoke_stmt :: sql_stmt where
  "revoke_stmt = Update ''device_certs'' [(''revoked'', Lit (SInt 1))] (Equal (Col ''device_id'') (Param 0))"

definition insert_identity_stmt :: sql_stmt where
  "insert_identity_stmt =
     Insert ''node_identity''
       [(''id'', Lit (SInt 1)), (''cert_pem'', Param 0), (''key_pem'', Param 1), (''issued_at'', Param 2), (''expires_at'', Param 3)] None"

definition retire_stmt :: sql_stmt where
  "retire_stmt = Update ''broadcast_keys'' [(''is_active'', Lit (SInt 0))] (Equal (Col ''is_active'') (Lit (SInt 1)))"

definition insert_key_stmt :: sql_stmt where
  "insert_key_stmt =
     Insert ''broadcast_keys''
       [(''key_id'', Param 0), (''key_material'', Param 1), (''created_at'', Param 2), (''rotates_at'', Param 3),
        (''expires_at'', Param 4), (''is_active'', Lit (SInt 1))] None"

definition sweep_stmt :: sql_stmt where
  "sweep_stmt = Delete ''broadcast_keys'' (LessEq (Col ''expires_at'') (Param 0))"

definition every_row :: sql_expr where
  "every_row = Lit (SInt 1)"

definition select_ca :: query where
  "select_ca = \<lparr>qu_columns = [''cert_pem'', ''key_pem''], qu_table = ''ca_keys'', qu_where = Equal (Col ''id'') (Lit (SInt 1)), qu_desc = None\<rparr>"

definition select_cert :: query where
  "select_cert = \<lparr>qu_columns = [''cert_pem''], qu_table = ''device_certs'', qu_where = Equal (Col ''device_id'') (Param 0), qu_desc = None\<rparr>"

definition select_devices :: query where
  "select_devices = \<lparr>qu_columns = [''device_id'', ''cert_pem'', ''issued_at'', ''expires_at'', ''revoked''], qu_table = ''device_certs'',
     qu_where = every_row, qu_desc = None\<rparr>"

definition select_revoked :: query where
  "select_revoked = \<lparr>qu_columns = [''revoked''], qu_table = ''device_certs'', qu_where = Equal (Col ''device_id'') (Param 0), qu_desc = None\<rparr>"

definition select_identity :: query where
  "select_identity = \<lparr>qu_columns = [''cert_pem'', ''key_pem''], qu_table = ''node_identity'',
     qu_where = Equal (Col ''id'') (Lit (SInt 1)), qu_desc = None\<rparr>"

definition select_active_key :: query where
  "select_active_key = \<lparr>qu_columns = [''key_id'', ''key_material'', ''rotates_at'', ''expires_at''], qu_table = ''broadcast_keys'',
     qu_where = Conj (Equal (Col ''is_active'') (Lit (SInt 1))) (Less (Param 0) (Col ''rotates_at'')), qu_desc = Some ''rotates_at''\<rparr>"

text \<open>A statement with the values the source binds to it.\<close>

datatype db_call =
    StoreCa string string
  | StoreDevice string string int int
  | FlagDevice string
  | StoreIdentity string string int int
  | RetireKeys
  | StoreKey "byte list" "byte list" int int int
  | SweepKeys int

fun call_stmt :: "db_call \<Rightarrow> sql_stmt \<times> sql_value list" where
  "call_stmt (StoreCa cert_pem key_pem) = (insert_ca_stmt, [SText cert_pem, SText key_pem])"
| "call_stmt (StoreDevice device_id cert_pem issued_at expires_at) =
     (upsert_device_stmt, [SText device_id, SText cert_pem, SInt issued_at, SInt expires_at])"
| "call_stmt (FlagDevice device_id) = (revoke_stmt, [SText device_id])"
| "call_stmt (StoreIdentity cert_pem key_pem issued_at expires_at) =
     (insert_identity_stmt, [SText cert_pem, SText key_pem, SInt issued_at, SInt expires_at])"
| "call_stmt RetireKeys = (retire_stmt, [])"
| "call_stmt (StoreKey key_id key_material now rotates_at expires_at) =
     (insert_key_stmt, [SBlob key_id, SBlob key_material, SInt now, SInt rotates_at, SInt expires_at])"
| "call_stmt (SweepKeys now) = (sweep_stmt, [SInt now])"

definition run_call :: "db_call \<Rightarrow> database \<Rightarrow> (nat \<times> database, sql_error) result" where
  "run_call c db = exec (fst (call_stmt c)) (snd (call_stmt c)) db"

subsection \<open>What the rows mean\<close>

fun text_of :: "sql_value \<Rightarrow> string" where
  "text_of (SText s) = s"
| "text_of _ = []"

fun blob_of :: "sql_value \<Rightarrow> byte list" where
  "blob_of (SBlob b) = b"
| "blob_of _ = []"

definition rows_of :: "database \<Rightarrow> string \<Rightarrow> sql_row list" where
  "rows_of db tn = (case db tn of Some t \<Rightarrow> ta_rows t | None \<Rightarrow> [])"

definition device_of :: "sql_row \<Rightarrow> device_row" where
  "device_of r = \<lparr>dr_device_id = text_of (cell r ''device_id''), dr_cert_pem = text_of (cell r ''cert_pem''),
     dr_issued_at = int_of (cell r ''issued_at''), dr_expires_at = int_of (cell r ''expires_at''), dr_revoked = int_of (cell r ''revoked'')\<rparr>"

definition identity_of :: "sql_row \<Rightarrow> identity_row" where
  "identity_of r = \<lparr>ni_cert_pem = text_of (cell r ''cert_pem''), ni_key_pem = text_of (cell r ''key_pem''),
     ni_issued_at = int_of (cell r ''issued_at''), ni_expires_at = int_of (cell r ''expires_at'')\<rparr>"

definition key_of :: "sql_row \<Rightarrow> key_row" where
  "key_of r = \<lparr>kr_key_id = blob_of (cell r ''key_id''), kr_key_material = blob_of (cell r ''key_material''),
     kr_created_at = int_of (cell r ''created_at''), kr_rotates_at = int_of (cell r ''rotates_at''),
     kr_expires_at = int_of (cell r ''expires_at''), kr_is_active = int_of (cell r ''is_active'')\<rparr>"

definition first_of :: "'a list \<Rightarrow> 'a option" where
  "first_of xs = (case xs of [] \<Rightarrow> None | x # _ \<Rightarrow> Some x)"

definition ca_of :: "database \<Rightarrow> ca_db" where
  "ca_of db = \<lparr>db_ca_keys = map_option (\<lambda>r. (text_of (cell r ''cert_pem''), text_of (cell r ''key_pem''))) (first_of (rows_of db ''ca_keys'')),
     db_device_certs = map device_of (rows_of db ''device_certs''),
     db_node_identity = map_option identity_of (first_of (rows_of db ''node_identity''))\<rparr>"

definition keys_of :: "database \<Rightarrow> key_table" where
  "keys_of db = map key_of (rows_of db ''broadcast_keys'')"

text \<open>What the same calls do on the tables of \<open>Ca\<close> and \<open>Key_Management\<close>: \<open>None\<close> is a violated key.\<close>

fun model_call :: "db_call \<Rightarrow> ca_db \<times> key_table \<Rightarrow> (nat \<times> ca_db \<times> key_table) option" where
  "model_call (StoreCa cert_pem key_pem) (d, t) =
     (if db_ca_keys d \<noteq> None then None else Some (1, d\<lparr>db_ca_keys := Some (cert_pem, key_pem)\<rparr>, t))"
| "model_call (StoreDevice device_id cert_pem issued_at expires_at) (d, t) =
     Some (1, d\<lparr>db_device_certs := upsert_device device_id (cert_pem, issued_at, expires_at) (db_device_certs d)\<rparr>, t)"
| "model_call (FlagDevice device_id) (d, t) =
     Some (rows_affected device_id (db_device_certs d), d\<lparr>db_device_certs := revoke_rows device_id (db_device_certs d)\<rparr>, t)"
| "model_call (StoreIdentity cert_pem key_pem issued_at expires_at) (d, t) =
     (if db_node_identity d \<noteq> None then None
      else Some (1, d\<lparr>db_node_identity := Some \<lparr>ni_cert_pem = cert_pem, ni_key_pem = key_pem,
        ni_issued_at = issued_at, ni_expires_at = expires_at\<rparr>\<rparr>, t))"
| "model_call RetireKeys (d, t) = Some (length (active_rows t), d, retire_active t)"
| "model_call (StoreKey key_id key_material now rotates_at expires_at) (d, t) =
     (case insert_key [] \<lparr>kr_key_id = key_id, kr_key_material = key_material, kr_created_at = now,
        kr_rotates_at = rotates_at, kr_expires_at = expires_at, kr_is_active = 1\<rparr> t of
        (Err e, t') \<Rightarrow> None | (Ok _, t') \<Rightarrow> Some (1, d, t'))"
| "model_call (SweepKeys now) (d, t) = Some (length t - length (delete_expired now t), d, delete_expired now t)"

definition schema :: "(string \<times> column list) list" where
  "schema = [(''ca_keys'', ca_keys_columns), (''device_certs'', device_certs_columns),
     (''node_identity'', node_identity_columns), (''broadcast_keys'', broadcast_keys_columns)]"

definition schema_ok :: "database \<Rightarrow> bool" where
  "schema_ok db \<longleftrightarrow> db_ok db \<and> list_all (\<lambda>(tn, cs). map_option ta_columns (db tn) = Some cs) schema"

lemmas column_defs = nullable_def not_null_def integer_primary_key_def

lemmas schema_defs = ca_keys_columns_def device_certs_columns_def node_identity_columns_def broadcast_keys_columns_def column_defs

lemmas stmt_defs = insert_ca_stmt_def upsert_device_stmt_def revoke_stmt_def insert_identity_stmt_def retire_stmt_def
  insert_key_stmt_def sweep_stmt_def

subsection \<open>The schema is kept\<close>

lemma columns_ok_schema [simp]:
  "columns_ok ca_keys_columns" "columns_ok device_certs_columns" "columns_ok node_identity_columns" "columns_ok broadcast_keys_columns"
  by (simp_all add: columns_ok_def schema_defs)

lemma schema_table:
  assumes "schema_ok db" and "(tn, cs) \<in> set schema"
  obtains t where "db tn = Some t" "ta_columns t = cs" "rows_ok cs (ta_rows t)" "table_ok t"
proof -
  obtain t where t: "db tn = Some t" "ta_columns t = cs" using assms by (auto simp: schema_ok_def list_all_iff)
  then have "table_ok t" using assms(1) by (auto simp: schema_ok_def db_ok_def ran_def)
  with t that show ?thesis by (simp add: table_ok_def rows_ok_def)
qed

lemma schema_members [simp]:
  "(''ca_keys'', ca_keys_columns) \<in> set schema" "(''device_certs'', device_certs_columns) \<in> set schema"
  "(''node_identity'', node_identity_columns) \<in> set schema" "(''broadcast_keys'', broadcast_keys_columns) \<in> set schema"
  by (simp_all add: schema_def)

lemma call_fits:
  assumes "schema_ok db"
  shows "stmt_fits db (snd (call_stmt c)) (fst (call_stmt c))"
  using assms by (cases c) (auto simp: stmt_defs schema_ok_def schema_def assigns_fit_def schema_defs split: option.splits)

lemma schema_ok_exec:
  assumes "schema_ok db" and "stmt_fits db ps st" and "exec st ps db = Ok (n, db')"
  shows "schema_ok db'"
proof -
  have "db_ok db'" using assms by (auto simp: schema_ok_def intro: exec_ok)
  moreover have "map_option ta_columns (db' tn) = Some cs" if "(tn, cs) \<in> set schema" for tn cs
    using that assms(1) exec_columns [OF assms(3), of tn] by (fastforce simp: schema_ok_def list_all_iff)
  ultimately show ?thesis by (auto simp: schema_ok_def list_all_iff)
qed

subsection \<open>The shape of the rows\<close>

lemmas shape_defs = row_ok_def row_typed_def schema_defs null_fails_def check_fails_def list_all2_Cons1 compare_values_def truth_def cell_def

lemma device_shape:
  assumes "row_ok device_certs_columns r"
  obtains i d c a x v where "r = [(''id'', SInt i), (''device_id'', SText d), (''cert_pem'', SText c), (''issued_at'', SInt a),
    (''expires_at'', SInt x), (''revoked'', SInt v)]"
  using assms by (auto simp: shape_defs)

lemma key_shape:
  assumes "row_ok broadcast_keys_columns r"
  obtains k m a o' x v where "r = [(''key_id'', SBlob k), (''key_material'', SBlob m), (''created_at'', SInt a), (''rotates_at'', SInt o'),
    (''expires_at'', SInt x), (''is_active'', SInt v)]"
  using assms by (auto simp: shape_defs)

lemma ca_shape:
  assumes "row_ok ca_keys_columns r"
  obtains c k where "r = [(''id'', SInt 1), (''cert_pem'', SText c), (''key_pem'', SText k)]"
  using assms by (auto simp: shape_defs split: if_splits)

lemma identity_shape:
  assumes "row_ok node_identity_columns r"
  obtains c k a x where "r = [(''id'', SInt 1), (''cert_pem'', SText c), (''key_pem'', SText k), (''issued_at'', SInt a), (''expires_at'', SInt x)]"
  using assms by (auto simp: shape_defs split: if_splits)

lemma rows_ok_row: "rows_ok cs rs \<Longrightarrow> r \<in> set rs \<Longrightarrow> row_ok cs r"
  by (simp add: rows_ok_def list_all_iff)

text \<open>A table whose primary key can only be 1 has at most one row.\<close>

lemma single_row:
  assumes "rows_ok cs rs" and "c \<in> set cs" and "co_unique c" and "\<And>r. r \<in> set rs \<Longrightarrow> cell r (co_name c) = SInt 1"
  shows "length rs \<le> 1"
proof -
  have "map (\<lambda>r. cell r (co_name c)) rs = replicate (length rs) (SInt 1)" using assms(4) by (induction rs) auto
  then have "distinct (replicate (length rs) (SInt 1))"
    using assms(1-3) by (auto simp: rows_ok_def unique_ok_def list_all_iff dest!: bspec [where x = c])
  then show ?thesis by (cases rs; cases "tl rs") auto
qed

lemma ca_single:
  assumes "rows_ok ca_keys_columns rs"
  shows "length rs \<le> 1"
proof (rule single_row [OF assms])
  show "hd ca_keys_columns \<in> set ca_keys_columns" "co_unique (hd ca_keys_columns)" by (simp_all add: ca_keys_columns_def column_defs)
  show "cell r (co_name (hd ca_keys_columns)) = SInt 1" if "r \<in> set rs" for r
    using rows_ok_row [OF assms that] by (rule ca_shape) (simp add: ca_keys_columns_def column_defs cell_def)
qed

lemma identity_single:
  assumes "rows_ok node_identity_columns rs"
  shows "length rs \<le> 1"
proof (rule single_row [OF assms])
  show "hd node_identity_columns \<in> set node_identity_columns" "co_unique (hd node_identity_columns)" by (simp_all add: node_identity_columns_def column_defs)
  show "cell r (co_name (hd node_identity_columns)) = SInt 1" if "r \<in> set rs" for r
    using rows_ok_row [OF assms that] by (rule identity_shape) (simp add: node_identity_columns_def column_defs cell_def)
qed

text \<open>Device ids are distinct.\<close>

lemma device_ids_distinct:
  assumes "rows_ok device_certs_columns rs"
  shows "distinct (map dr_device_id (map device_of rs))"
proof -
  have c: "cell r ''device_id'' = SText (dr_device_id (device_of r))" if "r \<in> set rs" for r
    using rows_ok_row [OF assms that] by (auto elim!: device_shape simp: cell_def device_of_def)
  have "distinct (filter (\<lambda>v. v \<noteq> SNull) (map (\<lambda>r. cell r ''device_id'') rs))"
    using assms by (simp add: rows_ok_def unique_ok_def device_certs_columns_def column_defs)
  moreover have "map (\<lambda>r. cell r ''device_id'') rs = map SText (map dr_device_id (map device_of rs))" using c by simp
  ultimately show ?thesis by (simp add: filter_map o_def distinct_map inj_on_def)
qed

subsection \<open>The statements on the tables of the program\<close>

definition agrees :: "db_call \<Rightarrow> database \<Rightarrow> bool" where
  "agrees c db \<longleftrightarrow>
     (case run_call c db of
        Ok (n, db') \<Rightarrow> model_call c (ca_of db, keys_of db) = Some (n, ca_of db', keys_of db')
      | Err e \<Rightarrow> model_call c (ca_of db, keys_of db) = None)"

lemma rows_of_upd [simp]: "rows_of (db(tn \<mapsto> t)) tn' = (if tn' = tn then ta_rows t else rows_of db tn')"
  by (simp add: rows_of_def)

lemma device_hit:
  assumes "row_ok device_certs_columns r"
  shows "holds [SText d] (Equal (Col ''device_id'') (Param 0)) r \<longleftrightarrow> dr_device_id (device_of r) = d"
    and "cell r ''device_id'' = SText d \<longleftrightarrow> dr_device_id (device_of r) = d"
  using assms by (auto elim!: device_shape simp: cell_def device_of_def compare_values_def truth_def)

lemma agrees_flag:
  assumes "schema_ok db"
  shows "agrees (FlagDevice d) db"
proof (rule schema_table [OF assms schema_members(2)])
  fix t
  assume t: "db ''device_certs'' = Some t" "ta_columns t = device_certs_columns" and ok: "rows_ok device_certs_columns (ta_rows t)"
  let ?w = "Equal (Col ''device_id'') (Param 0)" and ?sets = "[(''revoked'', Lit (SInt 1))]"
  have "harmless device_certs_columns (assign [SText d] ?sets [])"
    by (rule harmless_assign) (auto simp: assigns_fit_def device_certs_columns_def column_defs split: if_splits)
  with ok have u: "update_rows tn device_certs_columns (holds [SText d] ?w) (assign [SText d] ?sets []) [] (ta_rows t) =
      Ok (map (\<lambda>r. if holds [SText d] ?w r then assign [SText d] ?sets [] r else r) (ta_rows t))" for tn
    by (simp add: update_rows_harmless)
  have r: "row_ok device_certs_columns r" if "r \<in> set (ta_rows t)" for r using ok that by (rule rows_ok_row)
  have dev: "device_of (assign [SText d] ?sets [] r) = (device_of r)\<lparr>dr_revoked := 1\<rparr>" if "r \<in> set (ta_rows t)" for r
    using r [OF that] by (auto elim!: device_shape simp: device_of_def assign_def cell_def)
  have m: "map device_of (map (\<lambda>r. if holds [SText d] ?w r then assign [SText d] ?sets [] r else r) (ta_rows t)) =
      revoke_rows d (map device_of (ta_rows t))"
    using device_hit(1) [OF r] dev by (auto simp: revoke_rows_def)
  have n: "length (filter (holds [SText d] ?w) (ta_rows t)) = rows_affected d (map device_of (ta_rows t))"
    using device_hit(1) [OF r] by (auto simp: rows_affected_def filter_map o_def intro!: arg_cong [where f = length] filter_cong)
  show ?thesis using t u m n
    by (simp add: agrees_def run_call_def revoke_stmt_def ca_of_def keys_of_def rows_of_def)
qed

lemma upsert_replaces:
  assumes "distinct (map dr_device_id rs)" and "d \<in> dr_device_id ` set rs"
  shows "upsert_device d (c, a, x) rs =
    map (\<lambda>r. if dr_device_id r = d then r\<lparr>dr_cert_pem := c, dr_issued_at := a, dr_expires_at := x, dr_revoked := 0\<rparr> else r) rs"
  using assms
proof (induction rs)
  case (Cons r rs)
  let ?f = "\<lambda>r. if dr_device_id r = d then r\<lparr>dr_cert_pem := c, dr_issued_at := a, dr_expires_at := x, dr_revoked := 0\<rparr> else r"
  show ?case
  proof (cases "dr_device_id r = d")
    case True
    then have "d \<notin> dr_device_id ` set rs" using Cons.prems(1) by simp
    then have "dr_device_id q \<noteq> d" if "q \<in> set rs" for q using that by blast
    then have "map ?f rs = rs" by (intro map_idI) simp
    with True show ?thesis by simp
  qed (use Cons in auto)
qed simp

lemma upsert_appends:
  "d \<notin> dr_device_id ` set rs \<Longrightarrow> upsert_device d (c, a, x) rs = rs @ [device_entry d (c, a, x)]"
  by (induction rs) (auto simp: device_entry_def)

lemma agrees_store:
  assumes "schema_ok db"
  shows "agrees (StoreDevice d c a x) db"
proof (rule schema_table [OF assms schema_members(2)])
  fix t
  assume t: "db ''device_certs'' = Some t" "ta_columns t = device_certs_columns" and ok: "rows_ok device_certs_columns (ta_rows t)"
  let ?cs = device_certs_columns and ?ps = "[SText d, SText c, SInt a, SInt x]" and ?rs = "map device_of (ta_rows t)"
  let ?vals = "[(''device_id'', Param 0), (''cert_pem'', Param 1), (''issued_at'', Param 2), (''expires_at'', Param 3), (''revoked'', Lit (SInt 0))]"
  let ?sets = "[(''cert_pem'', Excluded ''cert_pem''), (''issued_at'', Excluded ''issued_at''),
    (''expires_at'', Excluded ''expires_at''), (''revoked'', Lit (SInt 0))]"
  obtain k where k: "k = next_rowid t (hd ?cs)" by simp
  define nr where "nr = [(''id'', SInt k), (''device_id'', SText d), (''cert_pem'', SText c), (''issued_at'', SInt a),
    (''expires_at'', SInt x), (''revoked'', SInt 0)]"
  have new: "inserted_row ?ps t ?vals = nr"
    by (simp add: inserted_row_def new_cell_def nr_def k t(2) device_certs_columns_def column_defs)
  have cells: "cell nr ''device_id'' = SText d" "cell nr ''cert_pem'' = SText c" "cell nr ''issued_at'' = SInt a" "cell nr ''expires_at'' = SInt x"
    by (simp_all add: nr_def cell_def)
  have v0: "violation tn ?cs [] nr = None" for tn
    by (simp add: violation_None null_fails_def check_fails_def clashes_def nr_def device_certs_columns_def column_defs cell_def)
  have r: "row_ok ?cs r" if "r \<in> set (ta_rows t)" for r using ok that by (rule rows_ok_row)
  note hit = device_hit(2) [OF r]
  have ex: "list_ex (\<lambda>q. cell q ''device_id'' = SText d) (ta_rows t) \<longleftrightarrow> d \<in> dr_device_id ` set ?rs"
    using hit by (auto simp: list_ex_iff)
  show ?thesis
  proof (cases "d \<in> dr_device_id ` set ?rs")
    case True
    have "row_typed ?cs nr" by (simp add: row_typed_def nr_def device_certs_columns_def column_defs)
    then have "harmless ?cs (assign ?ps ?sets nr)"
      by (intro harmless_assign) (auto simp: assigns_fit_def device_certs_columns_def column_defs cells split: if_splits)
    with ok have u: "update_rows tn ?cs (\<lambda>q. cell q ''device_id'' = SText d) (assign ?ps ?sets nr) [] (ta_rows t) =
        Ok (map (\<lambda>q. if cell q ''device_id'' = SText d then assign ?ps ?sets nr q else q) (ta_rows t))" for tn
      by (simp add: update_rows_harmless)
    have dev: "device_of (assign ?ps ?sets nr q) = (device_of q)\<lparr>dr_cert_pem := c, dr_issued_at := a, dr_expires_at := x, dr_revoked := 0\<rparr>"
      if "q \<in> set (ta_rows t)" for q
      using r [OF that] by (auto elim!: device_shape simp: device_of_def assign_def nr_def cell_def)
    have "map device_of (map (\<lambda>q. if cell q ''device_id'' = SText d then assign ?ps ?sets nr q else q) (ta_rows t)) = upsert_device d (c, a, x) ?rs"
      using upsert_replaces [OF device_ids_distinct [OF ok] True] hit dev by simp
    with True ex u v0 new cells t show ?thesis
      by (simp add: agrees_def run_call_def upsert_device_stmt_def sql_insert_def ca_of_def keys_of_def rows_of_def)
  next
    case False
    have "violation tn ?cs (ta_rows t) nr = None" for tn
      using v0 [of tn] False ex k next_rowid_fresh [of _ t "hd ?cs"]
      by (auto simp: violation_None clashes_def list_ex_iff nr_def device_certs_columns_def column_defs cell_def)
    moreover have "map device_of (ta_rows (add_row nr t)) = upsert_device d (c, a, x) ?rs"
      using upsert_appends [OF False] by (simp add: add_row_def device_of_def device_entry_def nr_def cell_def)
    ultimately show ?thesis using False ex v0 new cells t
      by (simp add: agrees_def run_call_def upsert_device_stmt_def sql_insert_def ca_of_def keys_of_def rows_of_def)
  qed
qed

text \<open>An insertion without a conflict clause fails exactly when the row violates a constraint.\<close>

lemma exec_insert:
  assumes "db tn = Some t" and "inserted_row ps t vals = nr" and "violation tn (ta_columns t) [] nr = None"
  shows "exec (Insert tn vals None) ps db =
    (case violation tn (ta_columns t) (ta_rows t) nr of Some e \<Rightarrow> Err e | None \<Rightarrow> Ok (1, db(tn \<mapsto> add_row nr t)))"
  using assms by (simp add: sql_insert_def Let_def split: option.split)

lemma add_row_rows [simp]: "ta_rows (add_row r t) = ta_rows t @ [r]"
  by (simp add: add_row_def)

lemma agrees_ca:
  assumes "schema_ok db"
  shows "agrees (StoreCa c k) db"
proof (rule schema_table [OF assms schema_members(1)])
  fix t
  assume t: "db ''ca_keys'' = Some t" "ta_columns t = ca_keys_columns" and ok: "rows_ok ca_keys_columns (ta_rows t)"
  define nr where "nr = [(''id'', SInt 1), (''cert_pem'', SText c), (''key_pem'', SText k)]"
  have v: "violation tn ca_keys_columns rs nr = None \<longleftrightarrow> (\<forall>q\<in>set rs. cell q ''id'' \<noteq> SInt 1)" for tn rs
    by (auto simp: violation_None null_fails_def check_fails_def clashes_def list_ex_iff nr_def ca_keys_columns_def column_defs cell_def
        compare_values_def truth_def)
  have run: "run_call (StoreCa c k) db =
      (case violation ''ca_keys'' ca_keys_columns (ta_rows t) nr of Some e \<Rightarrow> Err e | None \<Rightarrow> Ok (1, db(''ca_keys'' \<mapsto> add_row nr t)))"
    unfolding run_call_def call_stmt.simps insert_ca_stmt_def fst_conv snd_conv t(2) [symmetric]
    using t(1) by (rule exec_insert)
      (simp_all add: inserted_row_def new_cell_def nr_def [symmetric] t(2) v, simp add: nr_def ca_keys_columns_def column_defs)
  have id: "cell q ''id'' = SInt 1" if "q \<in> set (ta_rows t)" for q
    using rows_ok_row [OF ok that] by (rule ca_shape) (simp add: cell_def)
  show ?thesis
  proof (cases "ta_rows t")
    case Nil
    then have "violation ''ca_keys'' ca_keys_columns (ta_rows t) nr = None" using v by simp
    with run t(1) Nil show ?thesis
      by (simp add: agrees_def ca_of_def keys_of_def rows_of_def first_of_def) (simp add: nr_def cell_def)
  next
    case (Cons q qs)
    then obtain e where "violation ''ca_keys'' ca_keys_columns (ta_rows t) nr = Some e" using v id by fastforce
    with run t(1) Cons show ?thesis by (simp add: agrees_def ca_of_def keys_of_def rows_of_def first_of_def)
  qed
qed

lemma agrees_identity:
  assumes "schema_ok db"
  shows "agrees (StoreIdentity c k a x) db"
proof (rule schema_table [OF assms schema_members(3)])
  fix t
  assume t: "db ''node_identity'' = Some t" "ta_columns t = node_identity_columns" and ok: "rows_ok node_identity_columns (ta_rows t)"
  define nr where "nr = [(''id'', SInt 1), (''cert_pem'', SText c), (''key_pem'', SText k), (''issued_at'', SInt a), (''expires_at'', SInt x)]"
  have v: "violation tn node_identity_columns rs nr = None \<longleftrightarrow> (\<forall>q\<in>set rs. cell q ''id'' \<noteq> SInt 1)" for tn rs
    by (auto simp: violation_None null_fails_def check_fails_def clashes_def list_ex_iff nr_def node_identity_columns_def column_defs cell_def
        compare_values_def truth_def)
  have run: "run_call (StoreIdentity c k a x) db =
      (case violation ''node_identity'' node_identity_columns (ta_rows t) nr of
         Some e \<Rightarrow> Err e | None \<Rightarrow> Ok (1, db(''node_identity'' \<mapsto> add_row nr t)))"
    unfolding run_call_def call_stmt.simps insert_identity_stmt_def fst_conv snd_conv t(2) [symmetric]
    using t(1) by (rule exec_insert)
      (simp_all add: inserted_row_def new_cell_def nr_def [symmetric] t(2) v, simp add: nr_def node_identity_columns_def column_defs)
  have id: "cell q ''id'' = SInt 1" if "q \<in> set (ta_rows t)" for q
    using rows_ok_row [OF ok that] by (rule identity_shape) (simp add: cell_def)
  show ?thesis
  proof (cases "ta_rows t")
    case Nil
    then have "violation ''node_identity'' node_identity_columns (ta_rows t) nr = None" using v by simp
    with run t(1) Nil show ?thesis
      by (simp add: agrees_def ca_of_def keys_of_def rows_of_def first_of_def identity_of_def) (simp add: nr_def cell_def)
  next
    case (Cons q qs)
    then obtain e where "violation ''node_identity'' node_identity_columns (ta_rows t) nr = Some e" using v id by fastforce
    with run t(1) Cons show ?thesis by (simp add: agrees_def ca_of_def keys_of_def rows_of_def first_of_def)
  qed
qed

lemma agrees_key:
  assumes "schema_ok db"
  shows "agrees (StoreKey k m a p x) db"
proof (rule schema_table [OF assms schema_members(4)])
  fix t
  assume t: "db ''broadcast_keys'' = Some t" "ta_columns t = broadcast_keys_columns" and ok: "rows_ok broadcast_keys_columns (ta_rows t)"
  define nr where "nr = [(''key_id'', SBlob k), (''key_material'', SBlob m), (''created_at'', SInt a), (''rotates_at'', SInt p),
    (''expires_at'', SInt x), (''is_active'', SInt 1)]"
  have v: "violation tn broadcast_keys_columns rs nr = None \<longleftrightarrow> (\<forall>q\<in>set rs. cell q ''key_id'' \<noteq> SBlob k)" for tn rs
    by (auto simp: violation_None null_fails_def check_fails_def clashes_def list_ex_iff nr_def broadcast_keys_columns_def column_defs cell_def)
  have run: "run_call (StoreKey k m a p x) db =
      (case violation ''broadcast_keys'' broadcast_keys_columns (ta_rows t) nr of
         Some e \<Rightarrow> Err e | None \<Rightarrow> Ok (1, db(''broadcast_keys'' \<mapsto> add_row nr t)))"
    unfolding run_call_def call_stmt.simps insert_key_stmt_def fst_conv snd_conv t(2) [symmetric]
    using t(1) by (rule exec_insert)
      (simp_all add: inserted_row_def new_cell_def nr_def [symmetric] t(2) v, simp add: nr_def broadcast_keys_columns_def column_defs)
  have "cell q ''key_id'' = SBlob (kr_key_id (key_of q))" if "q \<in> set (ta_rows t)" for q
    using rows_ok_row [OF ok that] by (rule key_shape) (simp add: cell_def key_of_def)
  then have iff: "(\<forall>q\<in>set (ta_rows t). cell q ''key_id'' \<noteq> SBlob k) \<longleftrightarrow> k \<notin> kr_key_id ` set (map key_of (ta_rows t))" by auto
  have nk: "key_of nr = \<lparr>kr_key_id = k, kr_key_material = m, kr_created_at = a, kr_rotates_at = p, kr_expires_at = x, kr_is_active = 1\<rparr>"
    by (simp add: key_of_def nr_def cell_def)
  show ?thesis
  proof (cases "violation ''broadcast_keys'' broadcast_keys_columns (ta_rows t) nr")
    case None
    then have "k \<notin> kr_key_id ` set (map key_of (ta_rows t))" using v iff by blast
    with run t(1) None nk show ?thesis by (simp add: agrees_def ca_of_def keys_of_def rows_of_def insert_key_def)
  next
    case (Some e)
    then have "k \<in> kr_key_id ` set (map key_of (ta_rows t))" using v [of "''broadcast_keys''" "ta_rows t"] iff by auto
    with run t(1) Some show ?thesis by (simp add: agrees_def ca_of_def keys_of_def rows_of_def insert_key_def)
  qed
qed

lemma agrees_retire:
  assumes "schema_ok db"
  shows "agrees RetireKeys db"
proof (rule schema_table [OF assms schema_members(4)])
  fix t
  assume t: "db ''broadcast_keys'' = Some t" "ta_columns t = broadcast_keys_columns" and ok: "rows_ok broadcast_keys_columns (ta_rows t)"
  let ?w = "Equal (Col ''is_active'') (Lit (SInt 1))" and ?sets = "[(''is_active'', Lit (SInt 0))]"
  have "harmless broadcast_keys_columns (assign [] ?sets [])"
    by (rule harmless_assign) (auto simp: assigns_fit_def broadcast_keys_columns_def column_defs split: if_splits)
  with ok have u: "update_rows tn broadcast_keys_columns (holds [] ?w) (assign [] ?sets []) [] (ta_rows t) =
      Ok (map (\<lambda>r. if holds [] ?w r then assign [] ?sets [] r else r) (ta_rows t))" for tn
    by (simp add: update_rows_harmless)
  have key: "key_of (assign [] ?sets [] r) = (key_of r)\<lparr>kr_is_active := 0\<rparr>" "holds [] ?w r \<longleftrightarrow> kr_is_active (key_of r) = 1"
    if "r \<in> set (ta_rows t)" for r
    using rows_ok_row [OF ok that]
    by (auto elim!: key_shape simp: key_of_def assign_def cell_def compare_values_def truth_def)
  have m: "map key_of (map (\<lambda>r. if holds [] ?w r then assign [] ?sets [] r else r) (ta_rows t)) = retire_active (map key_of (ta_rows t))"
    using key by (auto simp: retire_active_def)
  have n: "length (filter (holds [] ?w) (ta_rows t)) = length (active_rows (map key_of (ta_rows t)))"
    using key(2) by (auto simp: active_rows_def filter_map o_def intro!: arg_cong [where f = length] filter_cong)
  show ?thesis using t u m n by (simp add: agrees_def run_call_def retire_stmt_def ca_of_def keys_of_def rows_of_def)
qed

lemma agrees_sweep:
  assumes "schema_ok db"
  shows "agrees (SweepKeys now) db"
proof (rule schema_table [OF assms schema_members(4)])
  fix t
  assume t: "db ''broadcast_keys'' = Some t" and ok: "rows_ok broadcast_keys_columns (ta_rows t)"
  let ?w = "LessEq (Col ''expires_at'') (Param 0)"
  have hit: "holds [SInt now] ?w r \<longleftrightarrow> kr_expires_at (key_of r) \<le> now" if "r \<in> set (ta_rows t)" for r
    using rows_ok_row [OF ok that] by (auto elim!: key_shape simp: key_of_def cell_def compare_values_def truth_def)
  have m: "map key_of (filter (\<lambda>r. \<not> holds [SInt now] ?w r) (ta_rows t)) = delete_expired now (map key_of (ta_rows t))"
    using hit by (auto simp: delete_expired_def filter_map o_def intro!: arg_cong [where f = "map key_of"] filter_cong)
  have "length (filter (holds [SInt now] ?w) (ta_rows t)) + length (filter (\<lambda>r. \<not> holds [SInt now] ?w r) (ta_rows t)) = length (ta_rows t)"
    by (rule sum_length_filter_compl)
  then have n: "length (filter (holds [SInt now] ?w) (ta_rows t)) = length (map key_of (ta_rows t)) - length (delete_expired now (map key_of (ta_rows t)))"
    by (simp flip: m)
  show ?thesis using t m n by (simp add: agrees_def run_call_def sweep_stmt_def ca_of_def keys_of_def rows_of_def)
qed

lemma call_agrees: "schema_ok db \<Longrightarrow> agrees c db"
  by (cases c) (simp_all add: agrees_ca agrees_store agrees_flag agrees_identity agrees_retire agrees_key agrees_sweep)

subsection \<open>Runs\<close>

definition do_call :: "db_call \<Rightarrow> database \<Rightarrow> database" where
  "do_call c db = (case run_call c db of Ok (n, db') \<Rightarrow> db' | Err e \<Rightarrow> db)"

definition do_model :: "db_call \<Rightarrow> ca_db \<times> key_table \<Rightarrow> ca_db \<times> key_table" where
  "do_model c s = (case model_call c s of Some (n, s') \<Rightarrow> s' | None \<Rightarrow> s)"

lemma do_call_ok:
  assumes "schema_ok db"
  shows "schema_ok (do_call c db)" and "do_model c (ca_of db, keys_of db) = (ca_of (do_call c db), keys_of (do_call c db))"
proof -
  show "schema_ok (do_call c db)"
    using assms schema_ok_exec [OF assms call_fits [OF assms], of c]
    by (auto simp: do_call_def run_call_def split: result.split prod.split)
  show "do_model c (ca_of db, keys_of db) = (ca_of (do_call c db), keys_of (do_call c db))"
    using call_agrees [OF assms, of c] by (auto simp: agrees_def do_model_def do_call_def split: result.splits prod.splits)
qed

lemma fold_calls:
  assumes "schema_ok db"
  shows "schema_ok (fold do_call cs db)" and
    "fold do_model cs (ca_of db, keys_of db) = (ca_of (fold do_call cs db), keys_of (fold do_call cs db))"
  using assms by (induction cs arbitrary: db) (simp_all add: do_call_ok)

definition empty_ca :: ca_db where
  "empty_ca = \<lparr>db_ca_keys = None, db_device_certs = [], db_node_identity = None\<rparr>"

definition fresh_db :: database where
  "fresh_db = map_of (map (\<lambda>(tn, cs). (tn, \<lparr>ta_columns = cs, ta_rows = [], ta_seq = 0\<rparr>)) schema)"

lemma migrate_fresh: "migrate Map.empty = Ok fresh_db"
  by (simp add: migrate_def migrations_def fresh_db_def schema_def fun_eq_iff)

lemma migrate_again: "schema_ok db \<Longrightarrow> migrate db = Ok db"
  by (auto simp: migrate_def migrations_def schema_ok_def schema_def split: option.split)

lemma fresh_db_ok: "schema_ok fresh_db" "ca_of fresh_db = empty_ca" "keys_of fresh_db = []"
proof -
  have "table_ok \<lparr>ta_columns = cs, ta_rows = [], ta_seq = 0\<rparr>" if "(tn, cs) \<in> set schema" for tn cs
    using that by (auto simp: table_ok_def unique_ok_def schema_def list_all_iff)
  then have "db_ok fresh_db" unfolding db_ok_def ran_def fresh_db_def by (auto dest!: map_of_SomeD)
  moreover have "list_all (\<lambda>(tn, cs). map_option ta_columns (fresh_db tn) = Some cs) schema" by (simp add: fresh_db_def schema_def)
  ultimately show "schema_ok fresh_db" by (simp add: schema_ok_def)
  show "ca_of fresh_db = empty_ca" "keys_of fresh_db = []"
    by (simp_all add: ca_of_def keys_of_def empty_ca_def rows_of_def fresh_db_def schema_def first_of_def)
qed

subsection \<open>Queries\<close>

lemma answers_unique:
  assumes "length (selected q ps db) \<le> 1"
  shows "answers q ps db out \<longleftrightarrow> out = map (\<lambda>r. map (cell r) (qu_columns q)) (selected q ps db)"
proof -
  have "mset rs = mset (selected q ps db) \<longleftrightarrow> rs = selected q ps db" for rs
  proof
    assume m: "mset rs = mset (selected q ps db)"
    then have "length rs \<le> 1" using assms by (metis size_mset)
    with m assms show "rs = selected q ps db"
      by (cases rs; cases "selected q ps db") (auto dest: mset_eq_length)
  qed simp
  moreover have "in_order (qu_desc q) (selected q ps db)"
    using assms by (cases "selected q ps db") (auto simp: in_order_def split: option.split)
  ultimately show ?thesis by (auto simp: answers_def)
qed

lemma find_device_None: "find_device rs d = None \<longleftrightarrow> d \<notin> dr_device_id ` set rs"
  by (induction rs) auto

lemma find_device_filter:
  "distinct (map dr_device_id rs) \<Longrightarrow> filter (\<lambda>r. dr_device_id r = d) rs = (case find_device rs d of None \<Rightarrow> [] | Some r \<Rightarrow> [r])"
  by (induction rs) (auto simp: find_device_None [THEN iffD2])

text \<open>A query for a device sees its one row.\<close>

lemma device_query:
  assumes "schema_ok db" and "qu_table q = ''device_certs''" and "qu_where q = Equal (Col ''device_id'') (Param 0)"
    and "\<And>r. row_ok device_certs_columns r \<Longrightarrow> map (cell r) (qu_columns q) = g (device_of r)"
  shows "answers q [SText d] db out \<longleftrightarrow> out = (case find_device (db_device_certs (ca_of db)) d of None \<Rightarrow> [] | Some r \<Rightarrow> [g r])"
proof (rule schema_table [OF assms(1) schema_members(2)])
  fix t
  assume t: "db ''device_certs'' = Some t" and ok: "rows_ok device_certs_columns (ta_rows t)"
  let ?sel = "selected q [SText d] db"
  have r: "row_ok device_certs_columns r" if "r \<in> set (ta_rows t)" for r using ok that by (rule rows_ok_row)
  have sel: "?sel = filter (\<lambda>r. dr_device_id (device_of r) = d) (ta_rows t)"
    using t device_hit(1) [OF r] assms(2,3) by (auto simp: selected_def intro!: filter_cong)
  then have m: "map device_of ?sel = (case find_device (db_device_certs (ca_of db)) d of None \<Rightarrow> [] | Some r \<Rightarrow> [r])"
    using find_device_filter [OF device_ids_distinct [OF ok], of d] t by (simp add: ca_of_def rows_of_def filter_map o_def)
  then have "length ?sel = length (case find_device (db_device_certs (ca_of db)) d of None \<Rightarrow> [] | Some r \<Rightarrow> [r])"
    by (metis length_map)
  then have one: "length ?sel \<le> 1" by (simp split: option.splits)
  have "map (\<lambda>r. map (cell r) (qu_columns q)) ?sel = map g (map device_of ?sel)"
    using sel r assms(4) by simp
  then show ?thesis using answers_unique [OF one] m by (simp split: option.splits)
qed

text \<open>A query for the one row of a table.\<close>

lemma single_query:
  assumes "schema_ok db" and "(qu_table q, cs) \<in> set schema" and "qu_where q = Equal (Col ''id'') (Lit (SInt 1))"
    and "\<And>rs. rows_ok cs rs \<Longrightarrow> length rs \<le> 1" and "\<And>r. row_ok cs r \<Longrightarrow> cell r ''id'' = SInt 1 \<and> map (cell r) (qu_columns q) = g r"
  shows "answers q [] db out \<longleftrightarrow> out = (case first_of (rows_of db (qu_table q)) of None \<Rightarrow> [] | Some r \<Rightarrow> [g r])"
proof (rule schema_table [OF assms(1,2)])
  fix t
  assume t: "db (qu_table q) = Some t" and ok: "rows_ok cs (ta_rows t)"
  have r: "holds [] (qu_where q) r" "map (cell r) (qu_columns q) = g r" if "r \<in> set (ta_rows t)" for r
    using assms(3) assms(5) [OF rows_ok_row [OF ok that]] by (simp_all add: compare_values_def truth_def)
  then have sel: "selected q [] db = ta_rows t" using t by (simp add: selected_def)
  with answers_unique [of q "[]" db out] assms(4) [OF ok] r(2) t show ?thesis
    by (cases "ta_rows t") (auto simp: rows_of_def first_of_def)
qed

lemma key_query:
  assumes "schema_ok db" and "length (active_rows (keys_of db)) \<le> 1"
  shows "answers select_active_key [SInt now] db out \<longleftrightarrow>
    out = (case select_active now (keys_of db) of None \<Rightarrow> []
           | Some r \<Rightarrow> [[SBlob (kr_key_id r), SBlob (kr_key_material r), SInt (kr_rotates_at r), SInt (kr_expires_at r)]])"
proof (rule schema_table [OF assms(1) schema_members(4)])
  fix t
  assume t: "db ''broadcast_keys'' = Some t" and ok: "rows_ok broadcast_keys_columns (ta_rows t)"
  let ?sel = "selected select_active_key [SInt now] db"
  have r: "holds [SInt now] (qu_where select_active_key) r \<longleftrightarrow> kr_is_active (key_of r) = 1 \<and> now < kr_rotates_at (key_of r)"
    "map (cell r) (qu_columns select_active_key) =
       [SBlob (kr_key_id (key_of r)), SBlob (kr_key_material (key_of r)), SInt (kr_rotates_at (key_of r)), SInt (kr_expires_at (key_of r))]"
    if "r \<in> set (ta_rows t)" for r
    using rows_ok_row [OF ok that]
    by (auto elim!: key_shape simp: select_active_key_def key_of_def cell_def compare_values_def conj_values_def truth_def)
  have "?sel = filter (\<lambda>r. kr_is_active (key_of r) = 1 \<and> now < kr_rotates_at (key_of r)) (ta_rows t)"
    using t r(1) by (auto simp: selected_def select_active_key_def intro!: filter_cong)
  then have m: "map key_of ?sel = filter (\<lambda>r. now < kr_rotates_at r) (active_rows (keys_of db))"
    and sub: "set ?sel \<subseteq> set (ta_rows t)" and a: "select_active now (keys_of db) = latest (map key_of ?sel)"
    using t by (auto simp: keys_of_def rows_of_def active_rows_def select_active_def filter_map o_def conj_commute)
  have "length (map key_of ?sel) \<le> 1" unfolding m using assms(2) length_filter_le order_trans by blast
  then have one: "length ?sel \<le> 1" by simp
  with answers_unique [OF one, of out] a sub r(2) show ?thesis by (cases ?sel) auto
qed

lemma devices_query:
  assumes "schema_ok db" and "answers select_devices [] db out"
  shows "mset out = mset (map (\<lambda>r. [SText (dr_device_id r), SText (dr_cert_pem r), SInt (dr_issued_at r), SInt (dr_expires_at r),
    SInt (dr_revoked r)]) (db_device_certs (ca_of db)))"
proof (rule schema_table [OF assms(1) schema_members(2)])
  fix t
  assume t: "db ''device_certs'' = Some t" and ok: "rows_ok device_certs_columns (ta_rows t)"
  let ?g = "\<lambda>r. [SText (dr_device_id r), SText (dr_cert_pem r), SInt (dr_issued_at r), SInt (dr_expires_at r), SInt (dr_revoked r)]"
  obtain rs where rs: "mset rs = mset (ta_rows t)" "out = map (\<lambda>r. map (cell r) (qu_columns select_devices)) rs"
    using assms(2) t by (auto simp: answers_def selected_def select_devices_def every_row_def)
  have "map (cell r) (qu_columns select_devices) = ?g (device_of r)" if "r \<in> set (ta_rows t)" for r
    using rows_ok_row [OF ok that] by (auto elim!: device_shape simp: select_devices_def device_of_def cell_def)
  moreover have "set rs = set (ta_rows t)" using rs(1) by (rule mset_eq_setD)
  ultimately have "out = map (\<lambda>r. ?g (device_of r)) rs" unfolding rs(2) by (intro map_cong) simp_all
  then have "mset out = image_mset (\<lambda>r. ?g (device_of r)) (mset (ta_rows t))" using rs(1) by simp
  then show ?thesis using t by (simp add: ca_of_def rows_of_def multiset.map_comp o_def)
qed

lemma ca_query:
  assumes "schema_ok db"
  shows "answers select_ca [] db out \<longleftrightarrow> out = (case db_ca_keys (ca_of db) of None \<Rightarrow> [] | Some (c, k) \<Rightarrow> [[SText c, SText k]])"
proof -
  let ?g = "\<lambda>r. [SText (text_of (cell r ''cert_pem'')), SText (text_of (cell r ''key_pem''))]"
  have "answers select_ca [] db out \<longleftrightarrow> out = (case first_of (rows_of db (qu_table select_ca)) of None \<Rightarrow> [] | Some r \<Rightarrow> [?g r])"
  proof (rule single_query [OF assms])
    fix r
    assume "row_ok ca_keys_columns r"
    then show "cell r ''id'' = SInt 1 \<and> map (cell r) (qu_columns select_ca) = ?g r"
      by (rule ca_shape) (simp add: select_ca_def cell_def)
  qed (use ca_single in \<open>auto simp: select_ca_def\<close>)
  then show ?thesis by (cases "first_of (rows_of db ''ca_keys'')") (simp_all add: select_ca_def ca_of_def)
qed

lemma identity_query:
  assumes "schema_ok db"
  shows "answers select_identity [] db out \<longleftrightarrow>
    out = (case db_node_identity (ca_of db) of None \<Rightarrow> [] | Some r \<Rightarrow> [[SText (ni_cert_pem r), SText (ni_key_pem r)]])"
proof -
  let ?g = "\<lambda>r. [SText (text_of (cell r ''cert_pem'')), SText (text_of (cell r ''key_pem''))]"
  have "answers select_identity [] db out \<longleftrightarrow> out = (case first_of (rows_of db (qu_table select_identity)) of None \<Rightarrow> [] | Some r \<Rightarrow> [?g r])"
  proof (rule single_query [OF assms])
    fix r
    assume "row_ok node_identity_columns r"
    then show "cell r ''id'' = SInt 1 \<and> map (cell r) (qu_columns select_identity) = ?g r"
      by (rule identity_shape) (simp add: select_identity_def cell_def)
  qed (use identity_single in \<open>auto simp: select_identity_def\<close>)
  then show ?thesis by (cases "first_of (rows_of db ''node_identity'')") (simp_all add: select_identity_def ca_of_def identity_of_def)
qed

lemma key_ids_distinct:
  assumes "rows_ok broadcast_keys_columns rs"
  shows "distinct (map kr_key_id (map key_of rs))"
proof -
  have c: "cell r ''key_id'' = SBlob (kr_key_id (key_of r))" if "r \<in> set rs" for r
    using rows_ok_row [OF assms that] by (auto elim!: key_shape simp: cell_def key_of_def)
  have "distinct (filter (\<lambda>v. v \<noteq> SNull) (map (\<lambda>r. cell r ''key_id'') rs))"
    using assms by (simp add: rows_ok_def unique_ok_def broadcast_keys_columns_def column_defs)
  moreover have "map (\<lambda>r. cell r ''key_id'') rs = map SBlob (map kr_key_id (map key_of rs))" using c by simp
  ultimately show ?thesis by (simp add: filter_map o_def distinct_map inj_on_def)
qed

lemma schema_constraints:
  assumes "schema_ok db"
  shows "length (rows_of db ''ca_keys'') \<le> 1" "length (rows_of db ''node_identity'') \<le> 1"
    "distinct (map dr_device_id (db_device_certs (ca_of db)))" "distinct (map kr_key_id (keys_of db))"
proof -
  have "rows_ok cs (rows_of db tn)" if "(tn, cs) \<in> set schema" for tn cs
    using assms that by (rule schema_table) (simp add: rows_of_def)
  then have "rows_ok ca_keys_columns (rows_of db ''ca_keys'')" "rows_ok node_identity_columns (rows_of db ''node_identity'')"
    "rows_ok device_certs_columns (rows_of db ''device_certs'')" "rows_ok broadcast_keys_columns (rows_of db ''broadcast_keys'')"
    by simp_all
  then show "length (rows_of db ''ca_keys'') \<le> 1" "length (rows_of db ''node_identity'') \<le> 1"
    "distinct (map dr_device_id (db_device_certs (ca_of db)))" "distinct (map kr_key_id (keys_of db))"
    using ca_single identity_single device_ids_distinct key_ids_distinct by (simp_all add: ca_of_def keys_of_def)
qed

subsection \<open>Properties\<close>

text \<open>
  C28: The database does what the tables of the program's model do: on the database that the migrations
  create, whatever sequence of the program's statements is executed, with whatever values, the rows
  mean exactly the tables that the corresponding functions compute; the next statement reports the
  same number of affected rows, and it violates a key exactly where those functions say so.
\<close>

theorem sql_refines_tables:
  "\<exists>db0. migrate Map.empty = Ok db0 \<and>
    fold do_model cs (empty_ca, []) = (ca_of (fold do_call cs db0), keys_of (fold do_call cs db0)) \<and>
    (case run_call c (fold do_call cs db0) of
       Ok (n, db') \<Rightarrow> model_call c (fold do_model cs (empty_ca, [])) = Some (n, ca_of db', keys_of db')
     | Err e \<Rightarrow> model_call c (fold do_model cs (empty_ca, [])) = None)"
proof -
  have m: "fold do_model cs (empty_ca, []) = (ca_of (fold do_call cs fresh_db), keys_of (fold do_call cs fresh_db))"
    using fold_calls(2) [OF fresh_db_ok(1), of cs] fresh_db_ok(2,3) by simp
  have "agrees c (fold do_call cs fresh_db)" using call_agrees [OF fold_calls(1) [OF fresh_db_ok(1)]] .
  then show ?thesis unfolding agrees_def m [symmetric] using m migrate_fresh by blast
qed

text \<open>
  Whatever statements the program executes, the database stays well typed and within the
  constraints of the migrations: there is at most one CA key and one node identity, device ids and
  key ids are distinct, and running the migrations again, as every start does, changes nothing.
\<close>

theorem database_constraints:
  "\<exists>db0. migrate Map.empty = Ok db0 \<and>
    (let db = fold do_call cs db0 in db_ok db \<and> length (rows_of db ''ca_keys'') \<le> 1 \<and> length (rows_of db ''node_identity'') \<le> 1 \<and>
       distinct (map dr_device_id (db_device_certs (ca_of db))) \<and> distinct (map kr_key_id (keys_of db)) \<and> migrate db = Ok db)"
proof -
  have ok: "schema_ok (fold do_call cs fresh_db)" using fold_calls(1) [OF fresh_db_ok(1)] .
  then have "db_ok (fold do_call cs fresh_db)" by (simp add: schema_ok_def)
  with schema_constraints [OF ok] migrate_again [OF ok] migrate_fresh show ?thesis
    by (intro exI [of _ fresh_db]) (simp add: Let_def)
qed

text \<open>
  C30: The queries of the program answer what the model's lookups give: a certificate, a revocation
  flag, the CA key, the node identity, the list of devices up to its order, and, as long as at most
  one key is active, the active key in force. No choice that SQL leaves to the database shows.
\<close>

theorem sql_queries:
  assumes "schema_ok db"
  shows "(answers select_cert [SText d] db out \<longleftrightarrow>
      out = (case find_device (db_device_certs (ca_of db)) d of None \<Rightarrow> [] | Some r \<Rightarrow> [[SText (dr_cert_pem r)]])) \<and>
    (answers select_revoked [SText d] db out \<longleftrightarrow>
      out = (case find_device (db_device_certs (ca_of db)) d of None \<Rightarrow> [] | Some r \<Rightarrow> [[SInt (dr_revoked r)]])) \<and>
    (answers select_ca [] db out \<longleftrightarrow> out = (case db_ca_keys (ca_of db) of None \<Rightarrow> [] | Some (c, k) \<Rightarrow> [[SText c, SText k]])) \<and>
    (answers select_identity [] db out \<longleftrightarrow>
      out = (case db_node_identity (ca_of db) of None \<Rightarrow> [] | Some r \<Rightarrow> [[SText (ni_cert_pem r), SText (ni_key_pem r)]])) \<and>
    (answers select_devices [] db out \<longrightarrow>
      mset out = mset (map (\<lambda>r. [SText (dr_device_id r), SText (dr_cert_pem r), SInt (dr_issued_at r), SInt (dr_expires_at r),
        SInt (dr_revoked r)]) (db_device_certs (ca_of db)))) \<and>
    (length (active_rows (keys_of db)) \<le> 1 \<longrightarrow>
      (answers select_active_key [SInt now] db out \<longleftrightarrow>
        out = (case select_active now (keys_of db) of None \<Rightarrow> []
               | Some r \<Rightarrow> [[SBlob (kr_key_id r), SBlob (kr_key_material r), SInt (kr_rotates_at r), SInt (kr_expires_at r)]])))"
proof -
  have "answers select_cert [SText d] db out \<longleftrightarrow>
      out = (case find_device (db_device_certs (ca_of db)) d of None \<Rightarrow> [] | Some r \<Rightarrow> [[SText (dr_cert_pem r)]])"
    using assms by (rule device_query) (auto elim!: device_shape simp: select_cert_def device_of_def cell_def)
  moreover have "answers select_revoked [SText d] db out \<longleftrightarrow>
      out = (case find_device (db_device_certs (ca_of db)) d of None \<Rightarrow> [] | Some r \<Rightarrow> [[SInt (dr_revoked r)]])"
    using assms by (rule device_query) (auto elim!: device_shape simp: select_revoked_def device_of_def cell_def)
  ultimately show ?thesis
    using ca_query [OF assms] identity_query [OF assms] devices_query [OF assms] key_query [OF assms] by blast
qed

theorem sql_queries_witness:
  "\<exists>db. schema_ok db \<and> answers select_cert [SText ''d1''] db [[SText ''new'']] \<and> answers select_revoked [SText ''d1''] db [[SInt 0]] \<and>
     answers select_active_key [SInt 5] db [[SBlob [2], SBlob [3], SInt 20, SInt 30]]"
proof -
  let ?cs = "[StoreDevice ''d1'' ''old'' 1 2, FlagDevice ''d1'', StoreDevice ''d1'' ''new'' 3 4, StoreKey [1] [3] 0 9 10, RetireKeys,
    StoreKey [2] [3] 10 20 30]"
  define db where "db = fold do_call ?cs fresh_db"
  have ok: "schema_ok db" unfolding db_def using fold_calls(1) [OF fresh_db_ok(1)] .
  have "(ca_of db, keys_of db) = fold do_model ?cs (empty_ca, [])"
    unfolding db_def fold_calls(2) [OF fresh_db_ok(1), unfolded fresh_db_ok(2,3)] ..
  then have t: "db_device_certs (ca_of db) = [device_entry ''d1'' (''new'', 3, 4)]"
    "keys_of db = [\<lparr>kr_key_id = [1], kr_key_material = [3], kr_created_at = 0, kr_rotates_at = 9, kr_expires_at = 10, kr_is_active = 0\<rparr>,
      \<lparr>kr_key_id = [2], kr_key_material = [3], kr_created_at = 10, kr_rotates_at = 20, kr_expires_at = 30, kr_is_active = 1\<rparr>]"
    by (simp_all add: do_model_def empty_ca_def revoke_rows_def insert_key_def retire_active_def device_entry_def)
  show ?thesis using ok sql_queries [OF ok, of "''d1''" _ 5]
    by (intro exI [of _ db]) (simp add: t device_entry_def active_rows_def select_active_def)
qed

end
