(* ===== verification/Stored.thy ===== *)
theory Stored
  imports Database
begin

section \<open>The operations on the database (\<open>src/infra/ca/\<close>, \<open>key_management.rs\<close>)\<close>

text \<open>
  \<open>Ca\<close> and \<open>Key_Management\<close> state the operations of the CA service and of the key manager on tables of
  rows. Here they are written as the source has them, on the pool: each binds its values, lets the
  driver execute the statement or the query on the database of \<open>Sql\<close>, decodes the rows that come
  back and words the errors. Every one of them does on the database what its counterpart does on
  the tables the database stands for, whatever rows the driver picks where SQL leaves a choice, and
  keeps the schema.
\<close>

subsection \<open>The driver\<close>

text \<open>
  \<open>dv_rows\<close> gives the rows of a query in the order the database chooses, \<open>dv_error\<close> the text of a violated
  constraint, \<open>dv_decode\<close> the text of the error for a row that does not have the expected types.
\<close>

record driver =
  dv_rows :: "query \<Rightarrow> sql_value list \<Rightarrow> database \<Rightarrow> sql_value list list"
  dv_error :: "sql_error \<Rightarrow> string"
  dv_decode :: string

definition program_queries :: "query list" where
  "program_queries = [select_ca, select_cert, select_devices, select_revoked, select_identity, select_active_key]"

definition driver_ok :: "driver \<Rightarrow> bool" where
  "driver_ok dv \<longleftrightarrow> (\<forall>q\<in>set program_queries. \<forall>ps db. schema_ok db \<longrightarrow> answers q ps db (dv_rows dv q ps db))"

definition execute :: "driver \<Rightarrow> string option \<Rightarrow> db_call \<Rightarrow> database \<Rightarrow> nat res \<times> database" where
  "execute dv fault c db =
     (case fault of
        Some e \<Rightarrow> (Err e, db)
      | None \<Rightarrow> (case run_call c db of Err e \<Rightarrow> (Err (dv_error dv e), db) | Ok (n, db') \<Rightarrow> (Ok n, db')))"

definition fetch_optional ::
  "driver \<Rightarrow> string option \<Rightarrow> (sql_value list \<Rightarrow> 'a option) \<Rightarrow> query \<Rightarrow> sql_value list \<Rightarrow> database \<Rightarrow> 'a option res" where
  "fetch_optional dv fault decode q ps db =
     (case fault of
        Some e \<Rightarrow> Err e
      | None \<Rightarrow> (case dv_rows dv q ps db of
           [] \<Rightarrow> Ok None
         | r # _ \<Rightarrow> (case decode r of None \<Rightarrow> Err (dv_decode dv) | Some x \<Rightarrow> Ok (Some x))))"

definition fetch_all ::
  "driver \<Rightarrow> string option \<Rightarrow> (sql_value list \<Rightarrow> 'a option) \<Rightarrow> query \<Rightarrow> sql_value list \<Rightarrow> database \<Rightarrow> 'a list res" where
  "fetch_all dv fault decode q ps db =
     (case fault of
        Some e \<Rightarrow> Err e
      | None \<Rightarrow> (case those (map decode (dv_rows dv q ps db)) of None \<Rightarrow> Err (dv_decode dv) | Some xs \<Rightarrow> Ok xs))"

text \<open>The tuples that the source asks for.\<close>

fun text_tuple :: "sql_value list \<Rightarrow> string option" where
  "text_tuple [SText s] = Some s"
| "text_tuple _ = None"

fun int_tuple :: "sql_value list \<Rightarrow> int option" where
  "int_tuple [SInt n] = Some n"
| "int_tuple _ = None"

fun pem_tuple :: "sql_value list \<Rightarrow> (string \<times> string) option" where
  "pem_tuple [SText c, SText k] = Some (c, k)"
| "pem_tuple _ = None"

fun key_tuple :: "sql_value list \<Rightarrow> (byte list \<times> byte list \<times> int \<times> int) option" where
  "key_tuple [SBlob k, SBlob m, SInt r, SInt x] = Some (k, m, r, x)"
| "key_tuple _ = None"

fun device_tuple :: "sql_value list \<Rightarrow> device_cert_record option" where
  "device_tuple [SText d, SText c, SInt a, SInt x, SInt v] =
     Some \<lparr>dc_device_id = d, dc_cert_pem = c, dc_issued_at = a, dc_expires_at = x, dc_revoked = (v \<noteq> 0)\<rparr>"
| "device_tuple _ = None"

subsection \<open>Broadcast keys\<close>

definition rotate_key_sql :: "driver \<Rightarrow> key_management \<Rightarrow> rotate_env \<Rightarrow> database \<Rightarrow> broadcast_key res \<times> database" where
  "rotate_key_sql dv km env db =
     (let now = re_now env;
          rotates_at = i64_add now (wrap_i64 (int (km_rotation_interval km)));
          expires_at = i64_add now (wrap_i64 (int (km_key_expiry km)));
          key_material = re_key_material env;
          key_id = re_key_id env in
      case execute dv (re_faults env RetireActive) RetireKeys db of
        (Err e, db1) \<Rightarrow> (Err (''Failed to retire active broadcast keys: '' @ e), db1)
      | (Ok _, db1) \<Rightarrow>
          (case execute dv (re_faults env InsertKey) (StoreKey key_id key_material now rotates_at expires_at) db1 of
             (Err e, db2) \<Rightarrow> (Err (''Failed to insert new broadcast key: '' @ e), db2)
           | (Ok _, db2) \<Rightarrow>
               (Ok \<lparr>bk_key_id = key_id, bk_key_material = key_material, bk_rotates_at = rotates_at, bk_expires_at = expires_at\<rparr>, db2)))"

definition get_or_rotate_key_sql :: "driver \<Rightarrow> key_management \<Rightarrow> int \<Rightarrow> rotate_env \<Rightarrow> database \<Rightarrow> broadcast_key res \<times> database" where
  "get_or_rotate_key_sql dv km now env db =
     (case fetch_optional dv (re_faults env SelectActive) key_tuple select_active_key [SInt now] db of
        Err e \<Rightarrow> (Err (''Failed to query broadcast keys: '' @ e), db)
      | Ok (Some (key_id_bytes, key_material_bytes, rotates_at, expires_at)) \<Rightarrow>
          (build_key key_id_bytes key_material_bytes rotates_at expires_at, db)
      | Ok None \<Rightarrow> rotate_key_sql dv km env db)"

definition sweep_expired_sql :: "driver \<Rightarrow> int \<Rightarrow> key_faults \<Rightarrow> database \<Rightarrow> nat res \<times> database" where
  "sweep_expired_sql dv now faults db =
     (case execute dv (faults DeleteExpired) (SweepKeys now) db of
        (Err e, db1) \<Rightarrow> (Err (''Failed to sweep expired broadcast keys: '' @ e), db1)
      | (Ok rows, db1) \<Rightarrow> (Ok rows, db1))"

subsection \<open>The certificate authority\<close>

text \<open>The service with its pool.\<close>

record ('kp, 'cert) ca_stored =
  st_loaded :: "('kp, 'cert) ca_state option"
  st_pool :: database

definition load_ca_sql ::
  "driver \<Rightarrow> ('kp, 'cert, 'csr, 'ip) rcgen \<Rightarrow> ca_faults \<Rightarrow> database \<Rightarrow> ('kp, 'cert) ca_state option res" where
  "load_ca_sql dv rg faults db =
     (case fetch_optional dv (faults SelectCa) pem_tuple select_ca [] db of
        Err e \<Rightarrow> Err (''Failed to query CA from database: '' @ e)
      | Ok None \<Rightarrow> Ok None
      | Ok (Some (cert_pem, key_pem)) \<Rightarrow>
          (case rg_key_from_pem rg key_pem of
             Err e \<Rightarrow> Err (''Failed to parse CA private key: '' @ e) | Ok key_pair \<Rightarrow>
           case rg_from_ca_cert_pem rg cert_pem of
             Err e \<Rightarrow> Err (''Failed to parse CA certificate: '' @ e) | Ok params \<Rightarrow>
           case rg_self_signed rg params key_pair of
             Err e \<Rightarrow> Err (''Failed to reconstruct CA cert: '' @ e) | Ok cert \<Rightarrow>
           Ok (Some \<lparr>cs_subject_cn = CA_CN, cs_cert = cert, cs_key_pair = key_pair\<rparr>)))"

definition generate_and_persist_ca_sql ::
  "driver \<Rightarrow> ('kp, 'cert, 'csr, 'ip) rcgen \<Rightarrow> 'kp res \<Rightarrow> ca_faults \<Rightarrow> database \<Rightarrow> ('kp, 'cert) ca_state res \<times> database" where
  "generate_and_persist_ca_sql dv rg generated faults db =
     (case generated of Err e \<Rightarrow> (Err (''Failed to generate CA key pair: '' @ e), db) | Ok key_pair \<Rightarrow>
      case rg_self_signed rg (ca_params rg) key_pair of
        Err e \<Rightarrow> (Err (''Failed to self-sign CA certificate: '' @ e), db) | Ok cert \<Rightarrow>
      case execute dv (faults InsertCa) (StoreCa (rg_pem rg cert) (rg_key_to_pem rg key_pair)) db of
        (Err e, db1) \<Rightarrow> (Err (''Failed to persist CA to database: '' @ e), db1)
      | (Ok _, db1) \<Rightarrow> (Ok \<lparr>cs_subject_cn = CA_CN, cs_cert = cert, cs_key_pair = key_pair\<rparr>, db1))"

definition load_or_generate_ca_sql ::
  "driver \<Rightarrow> ('kp, 'cert, 'csr, 'ip) rcgen \<Rightarrow> 'kp res \<Rightarrow> ca_faults \<Rightarrow> database \<Rightarrow> ('kp, 'cert) ca_state res \<times> database" where
  "load_or_generate_ca_sql dv rg generated faults db =
     (case load_ca_sql dv rg faults db of
        Err e \<Rightarrow> (Err e, db)
      | Ok (Some st) \<Rightarrow> (Ok st, db)
      | Ok None \<Rightarrow> generate_and_persist_ca_sql dv rg generated faults db)"

text \<open>\<open>sqlx::migrate!\<close>: the migrations, unless the driver fails.\<close>

definition run_migrations :: "driver \<Rightarrow> string option \<Rightarrow> database \<Rightarrow> unit res \<times> database" where
  "run_migrations dv fault db =
     (case fault of
        Some e \<Rightarrow> (Err e, db)
      | None \<Rightarrow> (case migrate db of Err e \<Rightarrow> (Err (dv_error dv e), db) | Ok db' \<Rightarrow> (Ok (), db')))"

definition ca_init_sql ::
  "driver \<Rightarrow> ('kp, 'cert, 'csr, 'ip) rcgen \<Rightarrow> string option \<Rightarrow> 'kp res \<Rightarrow> ca_faults \<Rightarrow> ('kp, 'cert) ca_stored \<Rightarrow>
     unit res \<times> ('kp, 'cert) ca_stored" where
  "ca_init_sql dv rg migration_fault generated faults s =
     (case run_migrations dv migration_fault (st_pool s) of
        (Err e, db) \<Rightarrow> (Err (''Failed to run CA migrations: '' @ e), s\<lparr>st_pool := db\<rparr>)
      | (Ok _, db) \<Rightarrow>
          (case load_or_generate_ca_sql dv rg generated faults db of
             (Err e, db1) \<Rightarrow> (Err e, s\<lparr>st_pool := db1\<rparr>)
           | (Ok st, db1) \<Rightarrow> (Ok (), s\<lparr>st_pool := db1, st_loaded := Some st\<rparr>)))"

definition sign_csr_sql ::
  "driver \<Rightarrow> ('kp, 'cert, 'csr, 'ip) rcgen \<Rightarrow> int \<Rightarrow> ca_faults \<Rightarrow> string \<Rightarrow> string \<Rightarrow> ('kp, 'cert) ca_stored \<Rightarrow>
     string res \<times> ('kp, 'cert) ca_stored" where
  "sign_csr_sql dv rg now faults device_id csr_pem s =
     (case st_loaded s of None \<Rightarrow> (Err not_initialised, s) | Some ca \<Rightarrow>
      case op_sign_csr rg now ca csr_pem of Err e \<Rightarrow> (Err e, s) | Ok (cert_pem, issued_at, expires_at) \<Rightarrow>
      case execute dv (faults UpsertDevice) (StoreDevice device_id cert_pem issued_at expires_at) (st_pool s) of
        (Err e, db) \<Rightarrow> (Err (''Failed to persist device cert: '' @ e), s\<lparr>st_pool := db\<rparr>)
      | (Ok _, db) \<Rightarrow> (Ok cert_pem, s\<lparr>st_pool := db\<rparr>))"

definition get_cert_sql :: "driver \<Rightarrow> ca_faults \<Rightarrow> string \<Rightarrow> ('kp, 'cert) ca_stored \<Rightarrow> string option res" where
  "get_cert_sql dv faults device_id s =
     map_err (\<lambda>e. ''Failed to query device cert: '' @ e)
       (fetch_optional dv (faults SelectCert) text_tuple select_cert [SText device_id] (st_pool s))"

definition list_devices_sql :: "driver \<Rightarrow> ca_faults \<Rightarrow> ('kp, 'cert) ca_stored \<Rightarrow> device_cert_record list res" where
  "list_devices_sql dv faults s =
     map_err (\<lambda>e. ''Failed to list device certs: '' @ e) (fetch_all dv (faults ListDevices) device_tuple select_devices [] (st_pool s))"

definition revoke_sql :: "driver \<Rightarrow> ca_faults \<Rightarrow> string \<Rightarrow> ('kp, 'cert) ca_stored \<Rightarrow> unit res \<times> ('kp, 'cert) ca_stored" where
  "revoke_sql dv faults device_id s =
     (case execute dv (faults RevokeDevice) (FlagDevice device_id) (st_pool s) of
        (Err e, db) \<Rightarrow> (Err (''Failed to revoke device cert: '' @ e), s\<lparr>st_pool := db\<rparr>)
      | (Ok rows, db) \<Rightarrow>
          (if rows = 0 then (Err (''Unknown device: '' @ device_id), s\<lparr>st_pool := db\<rparr>) else (Ok (), s\<lparr>st_pool := db\<rparr>)))"

definition is_revoked_sql :: "driver \<Rightarrow> ca_faults \<Rightarrow> string \<Rightarrow> ('kp, 'cert) ca_stored \<Rightarrow> bool res" where
  "is_revoked_sql dv faults device_id s =
     (case fetch_optional dv (faults SelectRevoked) int_tuple select_revoked [SText device_id] (st_pool s) of
        Err e \<Rightarrow> Err (''Failed to query revocation status: '' @ e)
      | Ok row \<Rightarrow> Ok (unwrap_or (map_option (\<lambda>r. r \<noteq> 0) row) False))"

definition ensure_node_identity_sql ::
  "driver \<Rightarrow> ('kp, 'cert, 'csr, 'ip) rcgen \<Rightarrow> 'kp res \<Rightarrow> int \<Rightarrow> ca_faults \<Rightarrow> ('kp, 'cert) ca_stored \<Rightarrow>
     (string \<times> string) res \<times> ('kp, 'cert) ca_stored" where
  "ensure_node_identity_sql dv rg generated now faults s =
     (case fetch_optional dv (faults SelectIdentity) pem_tuple select_identity [] (st_pool s) of
        Err e \<Rightarrow> (Err (''Failed to query node identity: '' @ e), s)
      | Ok (Some (cert_pem, key_pem)) \<Rightarrow> (Ok (cert_pem, key_pem), s)
      | Ok None \<Rightarrow>
          (case st_loaded s of None \<Rightarrow> (Err not_initialised, s) | Some ca \<Rightarrow>
           case generate_node_identity rg generated now ca of
             Err e \<Rightarrow> (Err e, s)
           | Ok (cert_pem, key_pem, issued_at, expires_at) \<Rightarrow>
               (case execute dv (faults InsertIdentity) (StoreIdentity cert_pem key_pem issued_at expires_at) (st_pool s) of
                  (Err e, db) \<Rightarrow> (Err (''Failed to persist node identity: '' @ e), s\<lparr>st_pool := db\<rparr>)
                | (Ok _, db) \<Rightarrow> (Ok (cert_pem, key_pem), s\<lparr>st_pool := db\<rparr>))))"

text \<open>\<open>CaService::register\<close>: open the database, then initialise a new service on it.\<close>

definition ca_register_sql ::
  "driver \<Rightarrow> ('kp, 'cert, 'csr, 'ip) rcgen \<Rightarrow> unit res \<Rightarrow> database res \<Rightarrow> string option \<Rightarrow> 'kp res \<Rightarrow> ca_faults \<Rightarrow>
     ('kp, 'cert) ca_stored res" where
  "ca_register_sql dv rg url_ok opened migration_fault generated faults =
     (case url_ok of Err e \<Rightarrow> Err (''Invalid database URL: '' @ e) | Ok _ \<Rightarrow>
      case opened of Err e \<Rightarrow> Err (''Failed to open CA database: '' @ e) | Ok pool \<Rightarrow>
      case ca_init_sql dv rg migration_fault generated faults \<lparr>st_loaded = None, st_pool = pool\<rparr> of
        (Err e, s) \<Rightarrow> Err e
      | (Ok _, s) \<Rightarrow> Ok s)"

subsection \<open>Statements through the driver\<close>

text \<open>The constraint that a call of the program can violate.\<close>

fun call_clash :: "db_call \<Rightarrow> sql_error" where
  "call_clash (StoreCa c k) = UniqueFailed ''ca_keys'' ''id''"
| "call_clash (StoreIdentity c k a x) = UniqueFailed ''node_identity'' ''id''"
| "call_clash (StoreKey k m a p x) = UniqueFailed ''broadcast_keys'' ''key_id''"
| "call_clash (StoreDevice d c a x) = UniqueFailed ''device_certs'' ''device_id''"
| "call_clash (FlagDevice d) = UniqueFailed ''device_certs'' ''device_id''"
| "call_clash RetireKeys = UniqueFailed ''broadcast_keys'' ''key_id''"
| "call_clash (SweepKeys now) = UniqueFailed ''broadcast_keys'' ''key_id''"

lemma violation_unique:
  assumes "violation tn cs [] r = None" and "violation tn cs rs r = Some e"
  obtains c where "c \<in> set cs" "co_unique c" "e = UniqueFailed tn (co_name c)"
proof -
  have "List.find (null_fails r) cs = None" "List.find (check_fails r) cs = None"
    using assms(1) by (simp_all add: violation_def split: option.splits)
  then obtain c where "List.find (clashes rs r) cs = Some c" "e = UniqueFailed tn (co_name c)"
    using assms(2) by (auto simp: violation_def)
  moreover from this(1) have "c \<in> set cs" "clashes rs r c" by (auto simp: find_Some_iff)
  ultimately show ?thesis using that by (simp add: clashes_def)
qed

lemma insert_error:
  assumes "schema_ok db" and "(tn, cs) \<in> set schema" and "exec (Insert tn vals None) ps db = Err e"
    and "\<And>t. ta_columns t = cs \<Longrightarrow> violation tn cs [] (inserted_row ps t vals) = None"
  obtains c where "c \<in> set cs" "co_unique c" "e = UniqueFailed tn (co_name c)"
proof (rule schema_table [OF assms(1,2)])
  fix t
  assume t: "db tn = Some t" "ta_columns t = cs"
  have v: "violation tn cs [] (inserted_row ps t vals) = None" using assms(4) [OF t(2)] .
  with assms(3) t have "violation tn cs (ta_rows t) (inserted_row ps t vals) = Some e"
    by (simp add: sql_insert_def Let_def split: option.splits)
  from violation_unique [OF v this that] show ?thesis .
qed

lemmas insert_defs = inserted_row_def new_cell_def violation_None null_fails_def check_fails_def clashes_def column_defs cell_def
  compare_values_def truth_def

lemma call_error:
  assumes "schema_ok db" and "run_call c db = Err e"
  shows "e = call_clash c"
proof -
  have m: "model_call c (ca_of db, keys_of db) = None" using call_agrees [OF assms(1), of c] assms(2) by (simp add: agrees_def)
  show ?thesis
  proof (cases c)
    case (StoreCa c' k)
    then have "exec insert_ca_stmt [SText c', SText k] db = Err e" using assms(2) by (simp add: run_call_def)
    then show ?thesis unfolding insert_ca_stmt_def
      by (rule insert_error [OF assms(1) schema_members(1)])
        (auto simp: StoreCa insert_defs ca_keys_columns_def)
  next
    case (StoreIdentity c' k a x)
    then have "exec insert_identity_stmt [SText c', SText k, SInt a, SInt x] db = Err e" using assms(2) by (simp add: run_call_def)
    then show ?thesis unfolding insert_identity_stmt_def
      by (rule insert_error [OF assms(1) schema_members(3)])
        (auto simp: StoreIdentity insert_defs node_identity_columns_def)
  next
    case (StoreKey k m a p x)
    then have "exec insert_key_stmt [SBlob k, SBlob m, SInt a, SInt p, SInt x] db = Err e" using assms(2) by (simp add: run_call_def)
    then show ?thesis unfolding insert_key_stmt_def
      by (rule insert_error [OF assms(1) schema_members(4)])
        (auto simp: StoreKey insert_defs broadcast_keys_columns_def)
  qed (use m in simp_all)
qed

text \<open>What the program sees of an executed call, in terms of the tables.\<close>

lemma execute_cases:
  assumes "schema_ok db"
  obtains (fault) e where "fault = Some e" "execute dv fault c db = (Err e, db)"
  | (clash) "fault = None" "model_call c (ca_of db, keys_of db) = None" "execute dv fault c db = (Err (dv_error dv (call_clash c)), db)"
  | (works) n db' where "fault = None" "model_call c (ca_of db, keys_of db) = Some (n, ca_of db', keys_of db')" "schema_ok db'"
      "execute dv fault c db = (Ok n, db')"
proof (cases fault)
  case None
  show ?thesis
  proof (cases "run_call c db")
    case (Ok r)
    then obtain n db' where r: "run_call c db = Ok (n, db')" by (cases r) simp
    with call_agrees [OF assms, of c] do_call_ok(1) [OF assms, of c] None show ?thesis
      by (intro works [of n db']) (simp_all add: agrees_def do_call_def execute_def)
  next
    case (Err e)
    with call_agrees [OF assms, of c] call_error [OF assms Err] None show ?thesis
      by (intro clash) (simp_all add: agrees_def execute_def)
  qed
qed (simp add: fault execute_def)

subsection \<open>The keys\<close>

lemma rotate_key_stored:
  assumes "schema_ok db" and "re_unique_error env = dv_error dv (UniqueFailed ''broadcast_keys'' ''key_id'')"
    and "rotate_key_sql dv km env db = (res, db')"
  shows "rotate_key km env (keys_of db) = (res, keys_of db') \<and> ca_of db' = ca_of db \<and> schema_ok db'"
  using assms(1)
proof (cases rule: execute_cases [where fault = "re_faults env RetireActive" and c = RetireKeys and dv = dv])
  case (fault e)
  then show ?thesis using assms by (auto simp: rotate_key_sql_def rotate_key_def Let_def)
next
  case (works n db1)
  then have db1: "ca_of db1 = ca_of db" "keys_of db1 = retire_active (keys_of db)" by simp_all
  define k where "k = StoreKey (re_key_id env) (re_key_material env) (re_now env)
    (i64_add (re_now env) (wrap_i64 (int (km_rotation_interval km)))) (i64_add (re_now env) (wrap_i64 (int (km_key_expiry km))))"
  from works(3) show ?thesis
  proof (cases rule: execute_cases [where fault = "re_faults env InsertKey" and c = k and dv = dv])
    case (fault e)
    then show ?thesis using assms works db1 by (auto simp: rotate_key_sql_def rotate_key_def Let_def k_def)
  next
    case clash
    then show ?thesis using assms works db1
      by (auto simp: rotate_key_sql_def rotate_key_def insert_key_def Let_def k_def split: if_splits)
  next
    case (works m db2)
    then show ?thesis using assms \<open>execute dv _ RetireKeys db = _\<close> \<open>re_faults env RetireActive = None\<close> db1
      by (auto simp: rotate_key_sql_def rotate_key_def insert_key_def Let_def k_def split: if_splits)
  qed
qed simp

lemma driver_answers: "driver_ok dv \<Longrightarrow> schema_ok db \<Longrightarrow> q \<in> set program_queries \<Longrightarrow> answers q ps db (dv_rows dv q ps db)"
  by (simp add: driver_ok_def)

lemma fetched_key:
  assumes "driver_ok dv" and "schema_ok db" and "length (active_rows (keys_of db)) \<le> 1"
  shows "fetch_optional dv fault key_tuple select_active_key [SInt now] db =
    (case fault of Some e \<Rightarrow> Err e | None \<Rightarrow>
       Ok (map_option (\<lambda>r. (kr_key_id r, kr_key_material r, kr_rotates_at r, kr_expires_at r)) (select_active now (keys_of db))))"
proof -
  have "answers select_active_key [SInt now] db (dv_rows dv select_active_key [SInt now] db)"
    using assms by (intro driver_answers) (simp_all add: program_queries_def)
  then show ?thesis unfolding key_query [OF assms(2,3)] by (auto simp: fetch_optional_def split: option.splits)
qed

lemma get_or_rotate_key_stored:
  assumes "driver_ok dv" and "schema_ok db" and "length (active_rows (keys_of db)) \<le> 1"
    and "re_unique_error env = dv_error dv (UniqueFailed ''broadcast_keys'' ''key_id'')"
    and "get_or_rotate_key_sql dv km now env db = (res, db')"
  shows "get_or_rotate_key km now env (keys_of db) = (res, keys_of db') \<and> ca_of db' = ca_of db \<and> schema_ok db'"
proof -
  note f = fetched_key [OF assms(1-3), of "re_faults env SelectActive" now]
  show ?thesis
  proof (cases "re_faults env SelectActive")
    case None
    show ?thesis
    proof (cases "select_active now (keys_of db)")
      case None
      with \<open>re_faults env SelectActive = None\<close> f assms(5) have "rotate_key_sql dv km env db = (res, db')"
        by (simp add: get_or_rotate_key_sql_def)
      from rotate_key_stored [OF assms(2,4) this] None \<open>re_faults env SelectActive = None\<close> show ?thesis
        by (simp add: get_or_rotate_key_def)
    next
      case (Some r)
      with \<open>re_faults env SelectActive = None\<close> f assms(2,5) show ?thesis
        by (auto simp: get_or_rotate_key_sql_def get_or_rotate_key_def)
    qed
  next
    case (Some e)
    with f assms(2,5) show ?thesis by (auto simp: get_or_rotate_key_sql_def get_or_rotate_key_def)
  qed
qed

lemma sweep_expired_stored:
  assumes "schema_ok db" and "sweep_expired_sql dv now faults db = (res, db')"
  shows "sweep_expired now faults (keys_of db) = (res, keys_of db') \<and> ca_of db' = ca_of db \<and> schema_ok db'"
  using assms(1)
proof (cases rule: execute_cases [where fault = "faults DeleteExpired" and c = "SweepKeys now" and dv = dv])
qed (use assms in \<open>auto simp: sweep_expired_sql_def sweep_expired_def Let_def\<close>)

subsection \<open>The certificate authority\<close>

definition ca_abs :: "('kp, 'cert) ca_stored \<Rightarrow> ('kp, 'cert) ca_service" where
  "ca_abs s = \<lparr>ca_loaded = st_loaded s, ca_pool = ca_of (st_pool s)\<rparr>"

lemma ca_abs_simps [simp]: "ca_loaded (ca_abs s) = st_loaded s" "ca_pool (ca_abs s) = ca_of (st_pool s)"
  by (simp_all add: ca_abs_def)

lemma fetched_pem:
  assumes "driver_ok dv" and "schema_ok db"
  shows "fetch_optional dv fault pem_tuple select_ca [] db = (case fault of Some e \<Rightarrow> Err e | None \<Rightarrow> Ok (db_ca_keys (ca_of db)))"
    and "fetch_optional dv fault pem_tuple select_identity [] db =
      (case fault of Some e \<Rightarrow> Err e | None \<Rightarrow> Ok (map_option (\<lambda>r. (ni_cert_pem r, ni_key_pem r)) (db_node_identity (ca_of db))))"
proof -
  have "answers select_ca [] db (dv_rows dv select_ca [] db)" "answers select_identity [] db (dv_rows dv select_identity [] db)"
    using assms by (simp_all add: driver_answers program_queries_def)
  then show "fetch_optional dv fault pem_tuple select_ca [] db = (case fault of Some e \<Rightarrow> Err e | None \<Rightarrow> Ok (db_ca_keys (ca_of db)))"
    "fetch_optional dv fault pem_tuple select_identity [] db =
      (case fault of Some e \<Rightarrow> Err e | None \<Rightarrow> Ok (map_option (\<lambda>r. (ni_cert_pem r, ni_key_pem r)) (db_node_identity (ca_of db))))"
    unfolding ca_query [OF assms(2)] identity_query [OF assms(2)] by (auto simp: fetch_optional_def split: option.splits)
qed

lemma load_ca_stored:
  assumes "driver_ok dv" and "schema_ok db"
  shows "load_ca_sql dv rg faults db = load_ca_from_db rg faults (ca_of db)"
  using fetched_pem(1) [OF assms, of "faults SelectCa"]
  by (auto simp: load_ca_sql_def load_ca_from_db_def run_stmt_def split: option.splits)

lemma generate_ca_stored:
  assumes "schema_ok db" and "generate_and_persist_ca_sql dv rg generated faults db = (res, db')"
  shows "generate_and_persist_ca rg generated faults (dv_error dv (UniqueFailed ''ca_keys'' ''id'')) (ca_of db) = (res, ca_of db') \<and>
    keys_of db' = keys_of db \<and> schema_ok db'"
proof (cases generated)
  case (Ok key_pair)
  show ?thesis
  proof (cases "rg_self_signed rg (ca_params rg) key_pair")
    case (Ok cert)
    let ?c = "StoreCa (rg_pem rg cert) (rg_key_to_pem rg key_pair)"
    from assms(1) show ?thesis
      by (cases rule: execute_cases [where fault = "faults InsertCa" and c = ?c and dv = dv])
        (use assms Ok \<open>generated = Ok key_pair\<close> in
          \<open>auto simp: generate_and_persist_ca_sql_def generate_and_persist_ca_def run_stmt_def split: if_splits\<close>)
  qed (use assms Ok in \<open>auto simp: generate_and_persist_ca_sql_def generate_and_persist_ca_def\<close>)
qed (use assms in \<open>auto simp: generate_and_persist_ca_sql_def generate_and_persist_ca_def\<close>)

lemma load_or_generate_ca_stored:
  assumes "driver_ok dv" and "schema_ok db" and "load_or_generate_ca_sql dv rg generated faults db = (res, db')"
  shows "load_or_generate_ca rg generated faults (dv_error dv (UniqueFailed ''ca_keys'' ''id'')) (ca_of db) = (res, ca_of db') \<and>
    keys_of db' = keys_of db \<and> schema_ok db'"
  using assms(2,3) generate_ca_stored [OF assms(2), of dv rg generated faults res db']
  by (auto simp: load_or_generate_ca_sql_def load_or_generate_ca_def load_ca_stored [OF assms(1,2)] split: result.splits option.splits)

text \<open>A start finds a new file or one that an earlier run has left.\<close>

definition openable :: "database \<Rightarrow> bool" where
  "openable db \<longleftrightarrow> db = Map.empty \<or> schema_ok db"

lemma migrate_openable:
  assumes "openable db"
  obtains db' where "migrate db = Ok db'" "schema_ok db'" "ca_of db' = ca_of db" "keys_of db' = keys_of db"
proof (cases "schema_ok db")
  case True
  then show ?thesis using that migrate_again by blast
next
  case False
  then have db: "db = Map.empty" using assms by (simp add: openable_def)
  have "ca_of Map.empty = empty_ca" "keys_of Map.empty = []" by (simp_all add: ca_of_def keys_of_def rows_of_def empty_ca_def first_of_def)
  then show ?thesis using that [of fresh_db] db migrate_fresh fresh_db_ok by simp
qed

lemma ca_init_stored:
  assumes "driver_ok dv" and "openable (st_pool s)" and "ca_init_sql dv rg fault generated faults s = (res, s')"
  shows "ca_init rg (case fault of None \<Rightarrow> Ok () | Some e \<Rightarrow> Err e) generated faults (dv_error dv (UniqueFailed ''ca_keys'' ''id''))
      (ca_abs s) = (res, ca_abs s') \<and>
    keys_of (st_pool s') = keys_of (st_pool s) \<and> (schema_ok (st_pool s) \<or> res = Ok () \<longrightarrow> schema_ok (st_pool s'))"
proof (cases fault)
  case None
  obtain db where m: "migrate (st_pool s) = Ok db" "schema_ok db" "ca_of db = ca_of (st_pool s)" "keys_of db = keys_of (st_pool s)"
    using migrate_openable [OF assms(2)] .
  obtain r db1 where l: "load_or_generate_ca_sql dv rg generated faults db = (r, db1)" by fastforce
  from load_or_generate_ca_stored [OF assms(1) m(2) l] assms(3) None m l show ?thesis
    by (cases r) (auto simp: ca_init_sql_def ca_init_def run_migrations_def ca_abs_def)
qed (use assms in \<open>auto simp: ca_init_sql_def ca_init_def run_migrations_def ca_abs_def\<close>)

lemma ca_register_stored:
  assumes "driver_ok dv" and "openable db" and "ca_register_sql dv rg url_ok (Ok db) fault generated faults = Ok s"
  shows "ca_register rg url_ok (Ok (ca_of db)) (case fault of None \<Rightarrow> Ok () | Some e \<Rightarrow> Err e) generated faults
      (dv_error dv (UniqueFailed ''ca_keys'' ''id'')) = Ok (ca_abs s)" and
    "keys_of (st_pool s) = keys_of db" and "schema_ok (st_pool s)"
proof -
  let ?s = "\<lparr>st_loaded = None, st_pool = db\<rparr>"
  obtain r s1 where i: "ca_init_sql dv rg fault generated faults ?s = (r, s1)" by fastforce
  with assms(3) have ok: "r = Ok ()" "s1 = s" "url_ok = Ok ()" by (auto simp: ca_register_sql_def split: result.splits)
  have a: "ca_abs ?s = ca_new (ca_of db)" by (simp add: ca_abs_def ca_new_def)
  from ca_init_stored [OF assms(1) _ i] assms(2) ok
  show "ca_register rg url_ok (Ok (ca_of db)) (case fault of None \<Rightarrow> Ok () | Some e \<Rightarrow> Err e) generated faults
      (dv_error dv (UniqueFailed ''ca_keys'' ''id'')) = Ok (ca_abs s)"
    "keys_of (st_pool s) = keys_of db" "schema_ok (st_pool s)"
    by (simp_all add: ca_register_def a)
qed

lemma sign_csr_stored:
  assumes "schema_ok (st_pool s)" and "sign_csr_sql dv rg now faults d csr s = (res, s')"
  shows "sign_csr rg now faults d csr (ca_abs s) = (res, ca_abs s') \<and> keys_of (st_pool s') = keys_of (st_pool s) \<and> schema_ok (st_pool s')"
proof (cases "st_loaded s")
  case (Some ca)
  show ?thesis
  proof (cases "op_sign_csr rg now ca csr")
    case (Ok r)
    then obtain c a x where o: "op_sign_csr rg now ca csr = Ok (c, a, x)" by (cases r) auto
    from assms(1) show ?thesis
      by (cases rule: execute_cases [where fault = "faults UpsertDevice" and c = "StoreDevice d c a x" and dv = dv])
        (use assms Some o in \<open>auto simp: sign_csr_sql_def sign_csr_def run_stmt_def ca_abs_def\<close>)
  qed (use assms Some in \<open>auto simp: sign_csr_sql_def sign_csr_def\<close>)
qed (use assms in \<open>auto simp: sign_csr_sql_def sign_csr_def\<close>)

lemma revoke_stored:
  assumes "schema_ok (st_pool s)" and "revoke_sql dv faults d s = (res, s')"
  shows "revoke faults d (ca_abs s) = (res, ca_abs s') \<and> keys_of (st_pool s') = keys_of (st_pool s) \<and> schema_ok (st_pool s')"
  using assms(1)
proof (cases rule: execute_cases [where fault = "faults RevokeDevice" and c = "FlagDevice d" and dv = dv])
qed (use assms in \<open>auto simp: revoke_sql_def revoke_def run_stmt_def ca_abs_def Let_def split: if_splits\<close>)

lemma ensure_node_identity_stored:
  assumes "driver_ok dv" and "schema_ok (st_pool s)" and "ensure_node_identity_sql dv rg generated now faults s = (res, s')"
  shows "ensure_node_identity rg generated now faults (ca_abs s) = (res, ca_abs s') \<and>
    keys_of (st_pool s') = keys_of (st_pool s) \<and> schema_ok (st_pool s')"
proof (cases "faults SelectIdentity = None \<and> db_node_identity (ca_of (st_pool s)) = None \<and> st_loaded s \<noteq> None")
  case True
  then obtain ca where ca: "st_loaded s = Some ca" by blast
  have f: "fetch_optional dv (faults SelectIdentity) pem_tuple select_identity [] (st_pool s) = Ok None"
    using fetched_pem(2) [OF assms(1,2)] True by simp
  show ?thesis
  proof (cases "generate_node_identity rg generated now ca")
    case (Ok r)
    then obtain c k a x where g: "generate_node_identity rg generated now ca = Ok (c, k, a, x)" by (cases r) auto
    from assms(2) show ?thesis
      by (cases rule: execute_cases [where fault = "faults InsertIdentity" and c = "StoreIdentity c k a x" and dv = dv])
        (use assms(2,3) True ca g f in \<open>auto simp: ensure_node_identity_sql_def ensure_node_identity_def run_stmt_def ca_abs_def\<close>)
  qed (use assms(2,3) True ca f in \<open>auto simp: ensure_node_identity_sql_def ensure_node_identity_def run_stmt_def\<close>)
next
  case False
  then show ?thesis using assms(2,3) fetched_pem(2) [OF assms(1,2), of "faults SelectIdentity"]
    by (auto simp: ensure_node_identity_sql_def ensure_node_identity_def run_stmt_def split: option.splits)
qed

lemma get_cert_stored:
  assumes "driver_ok dv" and "schema_ok (st_pool s)"
  shows "get_cert_sql dv faults d s = get_cert faults d (ca_abs s)"
proof -
  have "answers select_cert [SText d] (st_pool s) (dv_rows dv select_cert [SText d] (st_pool s))"
    using assms by (simp add: driver_answers program_queries_def)
  then have "dv_rows dv select_cert [SText d] (st_pool s) =
      (case find_device (db_device_certs (ca_of (st_pool s))) d of None \<Rightarrow> [] | Some r \<Rightarrow> [[SText (dr_cert_pem r)]])"
    by (subst (asm) device_query [OF assms(2)]) (auto elim!: device_shape simp: select_cert_def device_of_def cell_def)
  then show ?thesis by (auto simp: get_cert_sql_def get_cert_def fetch_optional_def run_stmt_def split: option.splits)
qed

lemma is_revoked_stored:
  assumes "driver_ok dv" and "schema_ok (st_pool s)"
  shows "is_revoked_sql dv faults d s = is_revoked faults d (ca_abs s)"
proof -
  have "answers select_revoked [SText d] (st_pool s) (dv_rows dv select_revoked [SText d] (st_pool s))"
    using assms by (simp add: driver_answers program_queries_def)
  then have "dv_rows dv select_revoked [SText d] (st_pool s) =
      (case find_device (db_device_certs (ca_of (st_pool s))) d of None \<Rightarrow> [] | Some r \<Rightarrow> [[SInt (dr_revoked r)]])"
    by (subst (asm) device_query [OF assms(2)]) (auto elim!: device_shape simp: select_revoked_def device_of_def cell_def)
  then show ?thesis by (auto simp: is_revoked_sql_def is_revoked_def fetch_optional_def run_stmt_def split: option.splits)
qed

definition device_values :: "device_row \<Rightarrow> sql_value list" where
  "device_values r = [SText (dr_device_id r), SText (dr_cert_pem r), SInt (dr_issued_at r), SInt (dr_expires_at r), SInt (dr_revoked r)]"

lemma those_decoded: "\<forall>v\<in>set vs. \<exists>r. v = device_values r \<Longrightarrow> those (map device_tuple vs) = Some (map (the \<circ> device_tuple) vs)"
  by (induction vs) (auto simp: device_values_def)

lemma list_devices_stored:
  assumes "driver_ok dv" and "schema_ok (st_pool s)"
  shows "(case (list_devices_sql dv faults s, list_devices faults (ca_abs s)) of
    (Ok ds, Ok ds') \<Rightarrow> mset ds = mset ds' | (Err e, Err e') \<Rightarrow> e = e' | _ \<Rightarrow> False)"
proof -
  let ?out = "dv_rows dv select_devices [] (st_pool s)" and ?rs = "db_device_certs (ca_of (st_pool s))"
  have "answers select_devices [] (st_pool s) ?out" using assms by (simp add: driver_answers program_queries_def)
  from devices_query [OF assms(2) this] have m: "mset ?out = mset (map device_values ?rs)" by (simp add: device_values_def [abs_def])
  then have "set ?out = set (map device_values ?rs)" by (rule mset_eq_setD)
  then have t: "those (map device_tuple ?out) = Some (map (the \<circ> device_tuple) ?out)" by (intro those_decoded) auto
  have "mset (map (the \<circ> device_tuple) ?out) = mset (map (the \<circ> device_tuple) (map device_values ?rs))" using m by (simp only: mset_map)
  with t show ?thesis
    by (auto simp: list_devices_sql_def list_devices_def fetch_all_def run_stmt_def device_values_def o_def split: option.splits)
qed

subsection \<open>All operations\<close>

text \<open>
  The calls of the program on its database, a restart included: the process ends and the next one
  registers the CA service on the same file. Their outcomes are what the callers see; the devices
  come in no particular order.
\<close>

datatype 'kp store_op =
    SignCsr int ca_faults string string
  | GetCert ca_faults string
  | ListAll ca_faults
  | Revoke ca_faults string
  | IsRevoked ca_faults string
  | EnsureIdentity "'kp res" int ca_faults
  | KeyForCycle int rotate_env
  | SweepExpired int key_faults
  | Reopen "string option" "'kp res" ca_faults

datatype store_out =
    Text "string res"
  | Cert "string option res"
  | Devices "device_cert_record multiset res"
  | Done "unit res"
  | Flag "bool res"
  | Pems "(string \<times> string) res"
  | Key "broadcast_key res"
  | Rows "nat res"

fun map_ok :: "('a \<Rightarrow> 'b) \<Rightarrow> 'a res \<Rightarrow> 'b res" where
  "map_ok f (Ok x) = Ok (f x)"
| "map_ok f (Err e) = Err e"

fun op_sql ::
  "driver \<Rightarrow> ('kp, 'cert, 'csr, 'ip) rcgen \<Rightarrow> key_management \<Rightarrow> 'kp store_op \<Rightarrow> ('kp, 'cert) ca_stored \<Rightarrow> store_out \<times> ('kp, 'cert) ca_stored" where
  "op_sql dv rg km (SignCsr now faults d csr) s = map_prod Text id (sign_csr_sql dv rg now faults d csr s)"
| "op_sql dv rg km (GetCert faults d) s = (Cert (get_cert_sql dv faults d s), s)"
| "op_sql dv rg km (ListAll faults) s = (Devices (map_ok mset (list_devices_sql dv faults s)), s)"
| "op_sql dv rg km (Revoke faults d) s = map_prod Done id (revoke_sql dv faults d s)"
| "op_sql dv rg km (IsRevoked faults d) s = (Flag (is_revoked_sql dv faults d s), s)"
| "op_sql dv rg km (EnsureIdentity generated now faults) s = map_prod Pems id (ensure_node_identity_sql dv rg generated now faults s)"
| "op_sql dv rg km (KeyForCycle now env) s = map_prod Key (\<lambda>db. s\<lparr>st_pool := db\<rparr>) (get_or_rotate_key_sql dv km now env (st_pool s))"
| "op_sql dv rg km (SweepExpired now faults) s = map_prod Rows (\<lambda>db. s\<lparr>st_pool := db\<rparr>) (sweep_expired_sql dv now faults (st_pool s))"
| "op_sql dv rg km (Reopen fault generated faults) s =
     map_prod Done id (ca_init_sql dv rg fault generated faults \<lparr>st_loaded = None, st_pool = st_pool s\<rparr>)"

text \<open>The same calls on the tables; \<open>txt\<close> words a violated constraint.\<close>

fun op_table ::
  "(sql_error \<Rightarrow> string) \<Rightarrow> ('kp, 'cert, 'csr, 'ip) rcgen \<Rightarrow> key_management \<Rightarrow> 'kp store_op \<Rightarrow>
     ('kp, 'cert) ca_service \<times> key_table \<Rightarrow> store_out \<times> ('kp, 'cert) ca_service \<times> key_table" where
  "op_table txt rg km (SignCsr now faults d csr) (c, t) = map_prod Text (\<lambda>c. (c, t)) (sign_csr rg now faults d csr c)"
| "op_table txt rg km (GetCert faults d) (c, t) = (Cert (get_cert faults d c), c, t)"
| "op_table txt rg km (ListAll faults) (c, t) = (Devices (map_ok mset (list_devices faults c)), c, t)"
| "op_table txt rg km (Revoke faults d) (c, t) = map_prod Done (\<lambda>c. (c, t)) (revoke faults d c)"
| "op_table txt rg km (IsRevoked faults d) (c, t) = (Flag (is_revoked faults d c), c, t)"
| "op_table txt rg km (EnsureIdentity generated now faults) (c, t) =
     map_prod Pems (\<lambda>c. (c, t)) (ensure_node_identity rg generated now faults c)"
| "op_table txt rg km (KeyForCycle now env) (c, t) =
     map_prod Key (\<lambda>t. (c, t)) (get_or_rotate_key km now (env\<lparr>re_unique_error := txt (UniqueFailed ''broadcast_keys'' ''key_id'')\<rparr>) t)"
| "op_table txt rg km (SweepExpired now faults) (c, t) = map_prod Rows (\<lambda>t. (c, t)) (sweep_expired now faults t)"
| "op_table txt rg km (Reopen fault generated faults) (c, t) =
     map_prod Done (\<lambda>c. (c, t))
       (ca_init rg (case fault of None \<Rightarrow> Ok () | Some e \<Rightarrow> Err e) generated faults (txt (UniqueFailed ''ca_keys'' ''id'')) (ca_new (ca_pool c)))"

fun run_ops :: "('o \<Rightarrow> 's \<Rightarrow> 'r \<times> 's) \<Rightarrow> 'o list \<Rightarrow> 's \<Rightarrow> 'r list \<times> 's" where
  "run_ops f [] s = ([], s)"
| "run_ops f (x # xs) s = (let (r, s1) = f x s; (rs, s2) = run_ops f xs s1 in (r # rs, s2))"

definition stored_ok :: "('kp, 'cert) ca_stored \<Rightarrow> bool" where
  "stored_ok s \<longleftrightarrow> schema_ok (st_pool s) \<and> length (active_rows (keys_of (st_pool s))) \<le> 1"

lemma one_active_get: "length (active_rows t) \<le> 1 \<Longrightarrow> length (active_rows (snd (get_or_rotate_key km now env t))) \<le> 1"
proof -
  assume a: "length (active_rows t) \<le> 1"
  have "length (active_rows (snd (rotate_key km env t))) \<le> 1"
  proof (cases rule: rotate_key_cases [of km env t])
    case rotated
    with keys.rotate_active [OF _ rotated(2)] show ?thesis by (simp add: new_row_def)
  qed (use a in simp_all)
  with a show ?thesis by (simp add: get_or_rotate_key_def split: option.split)
qed

lemma unique_error_unused:
  "get_or_rotate_key_sql dv km now (env\<lparr>re_unique_error := u\<rparr>) db = get_or_rotate_key_sql dv km now env db"
proof -
  have "rotate_key_sql dv km (env\<lparr>re_unique_error := u\<rparr>) db = rotate_key_sql dv km env db"
    by (simp add: rotate_key_sql_def Let_def split: prod.split result.split)
  then show ?thesis by (simp add: get_or_rotate_key_sql_def split: result.split option.split)
qed

lemma key_op_stored:
  assumes "driver_ok dv" and "stored_ok s" and "op_sql dv rg km (KeyForCycle now env) s = (r, s')"
  shows "op_table (dv_error dv) rg km (KeyForCycle now env) (ca_abs s, keys_of (st_pool s)) = (r, ca_abs s', keys_of (st_pool s')) \<and> stored_ok s'"
proof -
  let ?env = "env\<lparr>re_unique_error := dv_error dv (UniqueFailed ''broadcast_keys'' ''key_id'')\<rparr>"
  obtain res db where g: "get_or_rotate_key_sql dv km now ?env (st_pool s) = (res, db)" by fastforce
  with assms(3) have r: "r = Key res" "s' = s\<lparr>st_pool := db\<rparr>" by (simp_all add: unique_error_unused)
  have "get_or_rotate_key km now ?env (keys_of (st_pool s)) = (res, keys_of db) \<and> ca_of db = ca_of (st_pool s) \<and> schema_ok db"
    using assms(1,2) by (intro get_or_rotate_key_stored [OF _ _ _ _ g]) (simp_all add: stored_ok_def)
  with r assms(2) one_active_get [of "keys_of (st_pool s)" km now ?env] show ?thesis
    by (simp add: stored_ok_def ca_abs_def)
qed

lemma op_stored:
  assumes "driver_ok dv" and "stored_ok s" and "op_sql dv rg km x s = (r, s')"
  shows "op_table (dv_error dv) rg km x (ca_abs s, keys_of (st_pool s)) = (r, ca_abs s', keys_of (st_pool s')) \<and> stored_ok s'"
proof -
  have ok: "schema_ok (st_pool s)" using assms(2) by (simp add: stored_ok_def)
  show ?thesis
  proof (cases x)
    case (SignCsr now faults d csr)
    obtain r1 s1 where "sign_csr_sql dv rg now faults d csr s = (r1, s1)" by fastforce
    with sign_csr_stored [OF ok this] SignCsr assms(2,3) show ?thesis by (simp add: stored_ok_def)
  next
    case (GetCert faults d)
    with assms get_cert_stored [OF assms(1) ok] show ?thesis by auto
  next
    case (ListAll faults)
    with assms list_devices_stored [OF assms(1) ok, of faults] show ?thesis by (auto split: result.splits)
  next
    case (Revoke faults d)
    obtain r1 s1 where "revoke_sql dv faults d s = (r1, s1)" by fastforce
    with revoke_stored [OF ok this] Revoke assms(2,3) show ?thesis by (simp add: stored_ok_def)
  next
    case (IsRevoked faults d)
    with assms is_revoked_stored [OF assms(1) ok] show ?thesis by auto
  next
    case (EnsureIdentity generated now faults)
    obtain r1 s1 where "ensure_node_identity_sql dv rg generated now faults s = (r1, s1)" by fastforce
    with ensure_node_identity_stored [OF assms(1) ok this] EnsureIdentity assms(2,3) show ?thesis by (simp add: stored_ok_def)
  next
    case (KeyForCycle now env)
    with key_op_stored [OF assms(1,2)] assms(3) show ?thesis by simp
  next
    case (SweepExpired now faults)
    obtain r1 db where "sweep_expired_sql dv now faults (st_pool s) = (r1, db)" by fastforce
    with sweep_expired_stored [OF ok this] length_active_delete [of now "keys_of (st_pool s)"] SweepExpired assms(2,3) show ?thesis
      by (auto simp: stored_ok_def ca_abs_def sweep_expired_def Let_def split: option.splits)
  next
    case (Reopen fault generated faults)
    let ?s = "\<lparr>st_loaded = None, st_pool = st_pool s\<rparr>"
    obtain r1 s1 where i: "ca_init_sql dv rg fault generated faults ?s = (r1, s1)" by fastforce
    have a: "ca_abs ?s = ca_new (ca_of (st_pool s))" by (simp add: ca_abs_def ca_new_def)
    have o: "openable (st_pool ?s)" using ok by (simp add: openable_def)
    from ca_init_stored [OF assms(1) o i] i ok Reopen assms(2,3) show ?thesis by (simp add: stored_ok_def a)
  qed
qed

lemma run_stored:
  assumes "driver_ok dv" and "stored_ok s" and "run_ops (op_sql dv rg km) xs s = (rs, s')"
  shows "run_ops (op_table (dv_error dv) rg km) xs (ca_abs s, keys_of (st_pool s)) = (rs, ca_abs s', keys_of (st_pool s')) \<and> stored_ok s'"
  using assms(2,3)
proof (induction xs arbitrary: s rs)
  case (Cons x xs)
  obtain r s1 where o: "op_sql dv rg km x s = (r, s1)" by fastforce
  with Cons.prems(2) obtain rs1 where x: "run_ops (op_sql dv rg km) xs s1 = (rs1, s')" and "rs = r # rs1"
    by (auto split: prod.splits)
  with op_stored [OF assms(1) Cons.prems(1) o] Cons.IH [OF _ x] show ?case by simp
qed simp

subsection \<open>Properties\<close>

text \<open>A driver that gives rows in the order of the table, sorted where the query asks for it.\<close>

definition plain_driver :: driver where
  "plain_driver = \<lparr>dv_rows = (\<lambda>q ps db. map (\<lambda>r. map (cell r) (qu_columns q))
       (case qu_desc q of None \<Rightarrow> selected q ps db | Some c \<Rightarrow> sort_key (\<lambda>r. - int_of (cell r c)) (selected q ps db))),
     dv_error = (\<lambda>e. case e of UniqueFailed tn c \<Rightarrow> ''UNIQUE constraint failed: '' @ tn @ ''.'' @ c | _ \<Rightarrow> ''constraint failed''),
     dv_decode = ''mismatched types''\<rparr>"

lemma plain_driver_ok: "driver_ok plain_driver"
proof -
  have "in_order (Some ''rotates_at'') (sort_key (\<lambda>r. - int_of (cell r ''rotates_at'')) (selected select_active_key ps db))"
    if "schema_ok db" for ps db
  proof (rule schema_table [OF that schema_members(4)])
    fix t
    assume t: "db ''broadcast_keys'' = Some t" and ok: "rows_ok broadcast_keys_columns (ta_rows t)"
    let ?rs = "sort_key (\<lambda>r. - int_of (cell r ''rotates_at'')) (selected select_active_key ps db)"
    have c: "cell r ''rotates_at'' = SInt (int_of (cell r ''rotates_at''))" if "r \<in> set ?rs" for r
    proof -
      have "r \<in> set (ta_rows t)" using that t by (auto simp: selected_def select_active_key_def)
      from rows_ok_row [OF ok this] show ?thesis by (rule key_shape) (simp add: cell_def)
    qed
    have "sorted_wrt (\<lambda>r r'. - int_of (cell r ''rotates_at'') \<le> - int_of (cell r' ''rotates_at'')) ?rs"
      using sorted_sort_key [of "\<lambda>r. - int_of (cell r ''rotates_at'')"] by (simp add: sorted_wrt_map)
    then have "sorted_wrt (\<lambda>r r'. \<not> value_less (cell r ''rotates_at'') (cell r' ''rotates_at'')) ?rs"
      by (rule sorted_wrt_mono_rel [rotated]) (metis c neg_le_iff_le not_less value_less.simps(1))
    then show ?thesis by (simp add: in_order_def)
  qed
  then have "answers select_active_key ps db (dv_rows plain_driver select_active_key ps db)" if "schema_ok db" for ps db
    using that unfolding answers_def plain_driver_def
    by (intro exI [of _ "sort_key (\<lambda>r. - int_of (cell r ''rotates_at'')) (selected select_active_key ps db)"])
      (simp add: select_active_key_def)
  moreover have "answers q ps db (dv_rows plain_driver q ps db)" if "qu_desc q = None" for q ps db
    using that unfolding answers_def plain_driver_def by (intro exI [of _ "selected q ps db"]) (simp add: in_order_def)
  moreover have "qu_desc q = None \<or> q = select_active_key" if "q \<in> set program_queries" for q
    using that by (auto simp: program_queries_def select_ca_def select_cert_def select_devices_def select_revoked_def select_identity_def)
  ultimately show ?thesis unfolding driver_ok_def by metis
qed

text \<open>
  C31: The operations of the CA service and of the key manager, as the source has them over its SQLite
  pool, do what they do on the tables of the model: from a service registered on a new database
  file, or on one that an earlier run has left, whatever calls follow, restarts included, with
  whatever errors of the driver, and whichever rows it picks where SQL leaves a choice, every call
  has the outcome it has on the tables, the rows mean the tables at the end, and the database keeps
  its schema and at most one active key.
\<close>

theorem operations_on_database:
  assumes "driver_ok dv" and "openable db" and "length (active_rows (keys_of db)) \<le> 1"
    and "ca_register_sql dv rg url_ok (Ok db) fault generated faults = Ok s"
    and "run_ops (op_sql dv rg km) xs s = (rs, s')"
  shows "\<exists>c. ca_register rg url_ok (Ok (ca_of db)) (case fault of None \<Rightarrow> Ok () | Some e \<Rightarrow> Err e) generated faults
        (dv_error dv (UniqueFailed ''ca_keys'' ''id'')) = Ok c \<and>
      run_ops (op_table (dv_error dv) rg km) xs (c, keys_of db) = (rs, ca_abs s', keys_of (st_pool s')) \<and>
      schema_ok (st_pool s') \<and> length (active_rows (keys_of (st_pool s'))) \<le> 1"
proof -
  note reg = ca_register_stored [OF assms(1,2,4)]
  then have "stored_ok s" using assms(3) by (simp add: stored_ok_def)
  from run_stored [OF assms(1) this assms(5)] reg show ?thesis
    by (intro exI [of _ "ca_abs s"]) (simp add: stored_ok_def)
qed

theorem operations_on_database_witness:
  "\<exists>s rs s'. ca_register_sql plain_driver ex_rcgen (Ok ()) (Ok Map.empty) None (Ok 3) (\<lambda>_. None) = Ok s \<and>
     run_ops (op_sql plain_driver ex_rcgen ex_km)
       [SignCsr 10 (\<lambda>_. None) ''d1'' ''csr'', Revoke (\<lambda>_. None) ''d1'', IsRevoked (\<lambda>_. None) ''d1'', Reopen None (Ok 7) (\<lambda>_. None),
        IsRevoked (\<lambda>_. None) ''d1'', KeyForCycle 1000 (ex_env 1000 1), KeyForCycle 1001 (ex_env 1001 1)] s = (rs, s') \<and>
     st_loaded s' = st_loaded s \<and> rs ! 0 = Text (Ok ''cccccc'') \<and> rs ! 4 = Flag (Ok True) \<and> rs ! 6 = rs ! 5"
proof -
  let ?xs = "[SignCsr 10 (\<lambda>_. None) ''d1'' ''csr'', Revoke (\<lambda>_. None) ''d1'', IsRevoked (\<lambda>_. None) ''d1'', Reopen None (Ok 7) (\<lambda>_. None),
    IsRevoked (\<lambda>_. None) ''d1'', KeyForCycle 1000 (ex_env 1000 1), KeyForCycle 1001 (ex_env 1001 1)]"
  have o: "openable Map.empty" "length (active_rows (keys_of Map.empty)) \<le> 1" "ca_of Map.empty = empty_ca" "keys_of Map.empty = []"
    by (simp_all add: openable_def keys_of_def rows_of_def active_rows_def ca_of_def empty_ca_def first_of_def)
  obtain r s where i: "ca_init_sql plain_driver ex_rcgen None (Ok 3) (\<lambda>_. None) \<lparr>st_loaded = None, st_pool = Map.empty\<rparr> = (r, s)" by fastforce
  have "ca_init ex_rcgen (Ok ()) (Ok 3) (\<lambda>_. None) x (ca_abs \<lparr>st_loaded = None, st_pool = Map.empty\<rparr>) =
      (Ok (), \<lparr>ca_loaded = Some \<lparr>cs_subject_cn = CA_CN, cs_cert = 3, cs_key_pair = 3\<rparr>, ca_pool = empty_ca\<lparr>db_ca_keys := Some (''ccc'', ''kkk'')\<rparr>\<rparr>)" for x
    by (simp add: ca_abs_def o(3) empty_ca_def ca_init_def load_or_generate_ca_def load_ca_from_db_def generate_and_persist_ca_def run_stmt_def
        ex_rcgen_def numeral_3_eq_3)
  with ca_init_stored [OF plain_driver_ok _ i] o(1) have "r = Ok ()" and s: "st_loaded s = Some \<lparr>cs_subject_cn = CA_CN, cs_cert = 3, cs_key_pair = 3\<rparr>"
    by (simp_all add: ca_abs_def)
  with i have reg: "ca_register_sql plain_driver ex_rcgen (Ok ()) (Ok Map.empty) None (Ok 3) (\<lambda>_. None) = Ok s"
    by (simp add: ca_register_sql_def)
  obtain rs s' where run: "run_ops (op_sql plain_driver ex_rcgen ex_km) ?xs s = (rs, s')" by fastforce
  from operations_on_database [OF plain_driver_ok o(1,2) reg run]
  have "st_loaded s' = st_loaded s \<and> rs ! 0 = Text (Ok ''cccccc'') \<and> rs ! 4 = Flag (Ok True) \<and> rs ! 6 = rs ! 5"
    unfolding s o(3,4)
    by (clarsimp simp: ca_register_def ca_new_def empty_ca_def ca_init_def load_or_generate_ca_def load_ca_from_db_def
        generate_and_persist_ca_def run_stmt_def sign_csr_def op_sign_csr_def revoke_def is_revoked_def rows_affected_def revoke_rows_def
        ex_rcgen_def ex_simps ca_abs_def eval_nat_numeral)
  with reg run show ?thesis by blast
qed

end
