(* ===== verification/Node_Stored.thy ===== *)
theory Node_Stored
  imports Stored Node_Spec
begin

section \<open>The node on its database (\<open>src/main.rs\<close>, \<open>src/app.rs\<close>)\<close>

text \<open>
  The running node of \<open>Node\<close> keeps the tables of the CA and of the keys; the program keeps them in one
  SQLite file. Each step of the node is a run of statements of the program on that file, so that
  the database follows the node from \<open>main\<close> on, and what the node promises of its tables is true of
  the rows a query finds there.
\<close>

subsection \<open>The statements of the running node\<close>

fun serving_call :: "db_call \<Rightarrow> bool" where
  "serving_call (StoreDevice d c a x) = True"
| "serving_call RetireKeys = True"
| "serving_call (StoreKey k m a p x) = True"
| "serving_call (SweepKeys now) = True"
| "serving_call _ = False"

definition db_step :: "database \<Rightarrow> database \<Rightarrow> bool" where
  "db_step db db' \<longleftrightarrow> (\<exists>c. serving_call c \<and> db' = do_call c db)"

definition stored :: "('kp, 'cert) node \<Rightarrow> database \<Rightarrow> bool" where
  "stored n db \<longleftrightarrow> schema_ok db \<and> ca_of db = ca_pool (w_ca (nd_world n)) \<and> keys_of db = nd_keys n"

lemma do_call_tables:
  assumes "schema_ok db" and "do_model c (ca_of db, keys_of db) = (d, t)"
  shows "schema_ok (do_call c db) \<and> ca_of (do_call c db) = d \<and> keys_of (do_call c db) = t"
  using do_call_ok [OF assms(1), of c] assms(2) by simp

lemma db_call:
  assumes "serving_call c" and "schema_ok db" and "do_model c (ca_of db, keys_of db) = (d, t)"
  obtains db' where "db_step\<^sup>*\<^sup>* db db'" "schema_ok db'" "ca_of db' = d" "keys_of db' = t"
proof -
  have "db_step db (do_call c db)" using assms(1) by (auto simp: db_step_def)
  with do_call_tables [OF assms(2,3)] show ?thesis by (intro that [of "do_call c db"]) simp_all
qed

text \<open>What the statements of the running node leave alone.\<close>

lemma db_step_keeps:
  assumes "schema_ok db" and "db_step\<^sup>*\<^sup>* db db'"
  shows "schema_ok db' \<and> db_ca_keys (ca_of db') = db_ca_keys (ca_of db) \<and> db_node_identity (ca_of db') = db_node_identity (ca_of db)"
  using assms(2)
proof (induction rule: rtranclp_induct)
  case (step db1 db2)
  then obtain c where c: "serving_call c" "db2 = do_call c db1" by (auto simp: db_step_def)
  obtain d t where m: "do_model c (ca_of db1, keys_of db1) = (d, t)" by fastforce
  with c(1) have "db_ca_keys d = db_ca_keys (ca_of db1)" "db_node_identity d = db_node_identity (ca_of db1)"
    by (cases c; auto simp: do_model_def split: result.splits prod.splits)+
  with step.IH do_call_tables [OF _ m] c(2) show ?case by simp
qed (use assms(1) in simp)

subsection \<open>Requests\<close>

lemma db_sign:
  assumes "schema_ok db" and "ca_of db = ca_pool c" and "sign_csr rg now faults d csr c = (res, c')"
  obtains db' where "db_step\<^sup>*\<^sup>* db db'" "schema_ok db'" "ca_of db' = ca_pool c'" "keys_of db' = keys_of db"
proof (cases "c' = c")
  case True
  then show ?thesis using assms that by blast
next
  case False
  with assms(3) obtain p a x where
    "c' = c\<lparr>ca_pool := (ca_pool c)\<lparr>db_device_certs := upsert_device d (p, a, x) (db_device_certs (ca_pool c))\<rparr>\<rparr>"
    by (auto simp: sign_csr_def split: option.splits result.splits)
  then have "do_model (StoreDevice d p a x) (ca_of db, keys_of db) = (ca_pool c', keys_of db)"
    using assms(2) by (simp add: do_model_def)
  from db_call [OF _ assms(1) this] that show ?thesis by auto
qed

lemma dispatch_ca:
  assumes "dispatch env st req w = (resp, w')"
  obtains "w_ca w' = w_ca w" | d csr res where "sign_csr (he_rcgen env) (he_now env) (he_db env) d csr (w_ca w) = (res, w_ca w')"
  using assms
  by (auto simp: dispatch_def handle_device_init_def handle_client_register_def try_send_def Let_def
      split: if_splits result.splits prod.splits)

subsection \<open>Keys\<close>

lemma db_rotate:
  assumes "schema_ok db" and "rotate_key km env (keys_of db) = (res, t)"
  obtains db' where "db_step\<^sup>*\<^sup>* db db'" "schema_ok db'" "ca_of db' = ca_of db" "keys_of db' = t"
proof -
  have "do_model RetireKeys (ca_of db, keys_of db) = (ca_of db, retire_active (keys_of db))" by (simp add: do_model_def)
  from db_call [OF _ assms(1) this] obtain db1 where
    d1: "db_step\<^sup>*\<^sup>* db db1" "schema_ok db1" "ca_of db1 = ca_of db" "keys_of db1 = retire_active (keys_of db)" by auto
  show ?thesis
  proof (cases rule: rotate_key_cases [of km env "keys_of db"])
    case (retire_failed e)
    then show ?thesis using that [of db] assms by simp
  next
    case (insert_failed e)
    with assms(2) d1(4) have "keys_of db1 = t" by simp
    with d1 that show ?thesis by blast
  next
    case rotated
    let ?k = "new_row km env"
    let ?c = "StoreKey (kr_key_id ?k) (kr_key_material ?k) (kr_created_at ?k) (kr_rotates_at ?k) (kr_expires_at ?k)"
    have k: "\<lparr>kr_key_id = kr_key_id ?k, kr_key_material = kr_key_material ?k, kr_created_at = kr_created_at ?k,
        kr_rotates_at = kr_rotates_at ?k, kr_expires_at = kr_expires_at ?k, kr_is_active = 1\<rparr> = ?k" by (simp add: new_row_def)
    have "kr_key_id ?k \<notin> kr_key_id ` set (retire_active (keys_of db))"
      using rotated(1) by (metis key_ids_retire set_map key_row.select_convs(1) new_row_def)
    then have "do_model ?c (ca_of db1, keys_of db1) = (ca_of db1, t)"
      using rotated(3) assms(2) d1(4) k by (simp add: do_model_def insert_key_def)
    from db_call [OF _ d1(2) this] d1 that show ?thesis by (metis rtranclp_trans serving_call.simps(3))
  qed
qed

lemma db_get_or_rotate:
  assumes "schema_ok db" and "get_or_rotate_key km now env (keys_of db) = (res, t)"
  obtains db' where "db_step\<^sup>*\<^sup>* db db'" "schema_ok db'" "ca_of db' = ca_of db" "keys_of db' = t"
proof (cases "t = keys_of db")
  case False
  then have "rotate_key km env (keys_of db) = (res, t)"
    using assms(2) by (auto simp: get_or_rotate_key_def split: option.splits)
  from db_rotate [OF assms(1) this] that show ?thesis by blast
qed (use assms(1) that in blast)

lemma db_sweep:
  assumes "schema_ok db"
  obtains db' where "db_step\<^sup>*\<^sup>* db db'" "schema_ok db'" "ca_of db' = ca_of db" "keys_of db' = snd (sweep_expired now faults (keys_of db))"
proof (cases "faults DeleteExpired")
  case None
  then have "do_model (SweepKeys now) (ca_of db, keys_of db) = (ca_of db, snd (sweep_expired now faults (keys_of db)))"
    by (simp add: do_model_def sweep_expired_def Let_def)
  from db_call [OF _ assms this] that show ?thesis by auto
qed (use assms that in \<open>auto simp: sweep_expired_def\<close>)

subsection \<open>The node\<close>

lemma node_db_step:
  assumes "stored n db" and "node_step P U n n'"
  shows "\<exists>db'. db_step\<^sup>*\<^sup>* db db' \<and> stored n' db'"
proof -
  have s: "schema_ok db" "ca_of db = ca_pool (w_ca (nd_world n))" "keys_of db = nd_keys n" using assms(1) by (simp_all add: stored_def)
  from assms(2) show ?thesis
  proof (cases rule: node_step.cases)
    case (serve env req resp w')
    from serve(3) show ?thesis
    proof (cases rule: dispatch_ca)
      case 1
      then show ?thesis using s serve(1) by (intro exI [of _ db]) (simp add: stored_def)
    next
      case (2 d csr res)
      from db_sign [OF s(1,2) 2] serve(1) s(3) show ?thesis by (auto simp: stored_def)
    qed
  next
    case (cycle_skipped env e keys)
    then obtain db1 where "db_step\<^sup>*\<^sup>* db db1" "schema_ok db1" "ca_of db1 = ca_of db" "keys_of db1 = keys"
      using db_get_or_rotate [OF s(1), of _ _ "cy_rotate env" "Err e" keys] s(3) by metis
    with s cycle_skipped(1) show ?thesis by (intro exI [of _ db1]) (auto simp: stored_def)
  next
    case (cycle_starts env key keys payload)
    then obtain db1 where d: "db_step\<^sup>*\<^sup>* db db1" "schema_ok db1" "ca_of db1 = ca_of db" "keys_of db1 = keys"
      using db_get_or_rotate [OF s(1), of _ _ "cy_rotate env" "Ok key" keys] s(3) by metis
    from db_sweep [OF d(2)] obtain db2 where "db_step\<^sup>*\<^sup>* db1 db2" "schema_ok db2" "ca_of db2 = ca_of db1"
      "keys_of db2 = snd (sweep_expired (cy_now_sweep env) (cy_sweep_faults env) keys)" using d(4) by metis
    with d s cycle_starts(1) show ?thesis by (intro exI [of _ db2]) (auto simp: stored_def)
  qed (use assms(1) in \<open>auto simp: stored_def\<close>)
qed

interpretation node_db: simulation "node_step P U" db_step stored for P U
  using node_db_step by unfold_locales blast

subsection \<open>Start\<close>

lemma main_ca:
  assumes "main_node ie config fs keys = Some (n0, bs)" and "ie_ca ie = Ok ca"
  obtains ca1 fs' where "n0 = node_init ca1 fs' (gr_gateway_url (cf_gateway_registration config)) keys"
    "ca1 = ca \<or> (\<exists>r. ensure_node_identity (ie_rcgen ie) (ie_node_key ie) (ie_now ie) (ie_db ie) ca = (r, ca1))"
proof -
  obtain sv subs ca1 fs1 km where i: "initialize ie config fs = Initialized sv subs ca1 fs1 km"
    and n0: "n0 = node_init ca1 fs1 (gr_gateway_url (cf_gateway_registration config)) keys"
    using assms(1) by (auto simp: main_node_def split: init_outcome.splits)
  have "ca1 = ca \<or> (\<exists>r. ensure_node_identity (ie_rcgen ie) (ie_node_key ie) (ie_now ie) (ie_db ie) ca = (r, ca1))"
    using i assms(2) by (auto simp: initialize_def provision_node_identity_def Let_def
        split: result.splits prod.splits if_splits option.splits)
  with n0 that show ?thesis by blast
qed

lemma db_identity:
  assumes "schema_ok db" and "ca_of db = ca_pool c" and "ensure_node_identity rg generated now faults c = (r, c')"
  obtains db' where "db' = db \<or> (\<exists>p k a x. db' = do_call (StoreIdentity p k a x) db)" "schema_ok db'" "ca_of db' = ca_pool c'"
    "keys_of db' = keys_of db" "db_ca_keys (ca_of db') = db_ca_keys (ca_of db)"
proof (cases "c' = c")
  case True
  then show ?thesis using assms that [of db] by simp
next
  case False
  with assms(3) obtain p k a x where "db_node_identity (ca_pool c) = None"
    "c' = c\<lparr>ca_pool := (ca_pool c)\<lparr>db_node_identity := Some \<lparr>ni_cert_pem = p, ni_key_pem = k, ni_issued_at = a, ni_expires_at = x\<rparr>\<rparr>\<rparr>"
    by (auto simp: ensure_node_identity_def split: option.splits result.splits)
  then have "do_model (StoreIdentity p k a x) (ca_of db, keys_of db) = (ca_pool c', keys_of db)"
    "db_ca_keys (ca_pool c') = db_ca_keys (ca_pool c)"
    using assms(2) by (simp_all add: do_model_def)
  with do_call_tables [OF assms(1) this(1)] assms(2) that [of "do_call (StoreIdentity p k a x) db"] show ?thesis by auto
qed

subsection \<open>Properties\<close>

text \<open>
  C29: The database follows the node from \<open>main\<close> on: whatever requests, messages, timeouts, failures and
  broadcasts are interleaved, the tables of the node are those of a database that start-up has at
  most stored a node identity in and that the node has since changed by its own statements only
  (storing device certificates, retiring, storing and sweeping keys); the CA key is the one start-up
  found, at most one key is active, a next start finds nothing to migrate, and for every topic the
  node has published to the query for the certificate of the beacon's host finds one.
\<close>

theorem node_on_database:
  assumes "stored_ok s" and "ie_ca ie = Ok (ca_abs s)" and "main_node ie config fs (keys_of (st_pool s)) = Some (n0, bs)"
    and "np_broadcast P = bs" and "key_wf (bs_key_management bs) (keys_of (st_pool s))" and "node_reach P U n0 n"
  shows "\<exists>db1 db. (db1 = st_pool s \<or> (\<exists>p k a x. db1 = do_call (StoreIdentity p k a x) (st_pool s))) \<and>
    db_step\<^sup>*\<^sup>* db1 db \<and> stored n db \<and> migrate db = Ok db \<and> length (active_rows (keys_of db)) \<le> 1 \<and>
    db_ca_keys (ca_of db) = db_ca_keys (ca_of (st_pool s)) \<and>
    (\<forall>(topic, payload)\<in>set (nd_published n). \<exists>bid host pem. topic = bid @ ''/cast'' \<and> (bid, host) \<in> set (nd_issued n) \<and>
       answers select_cert [SText host] db [[SText pem]])"
proof -
  have ok: "schema_ok (st_pool s)" using assms(1) by (simp add: stored_ok_def)
  obtain ca1 fs' where n0: "n0 = node_init ca1 fs' (gr_gateway_url (cf_gateway_registration config)) (keys_of (st_pool s))"
    and ca1: "ca1 = ca_abs s \<or> (\<exists>r. ensure_node_identity (ie_rcgen ie) (ie_node_key ie) (ie_now ie) (ie_db ie) (ca_abs s) = (r, ca1))"
    using main_ca [OF assms(3,2)] .
  obtain db1 where db1: "db1 = st_pool s \<or> (\<exists>p k a x. db1 = do_call (StoreIdentity p k a x) (st_pool s))" "schema_ok db1"
    "ca_of db1 = ca_pool ca1" "keys_of db1 = keys_of (st_pool s)" "db_ca_keys (ca_of db1) = db_ca_keys (ca_of (st_pool s))"
    using ca1
  proof
    assume "\<exists>r. ensure_node_identity (ie_rcgen ie) (ie_node_key ie) (ie_now ie) (ie_db ie) (ca_abs s) = (r, ca1)"
    with db_identity [OF ok] that show ?thesis by (metis ca_abs_simps(2))
  qed (use that [of "st_pool s"] ok in simp)
  then have "stored n0 db1" by (simp add: stored_def n0 node_init_def)
  then obtain db where db: "db_step\<^sup>*\<^sup>* db1 db" "stored n db"
    using node_db.sim_run [OF node_reach_steps [OF assms(6)]] by blast
  have inv: "node_inv P (gr_gateway_url (cf_gateway_registration config)) n"
    using assms(4-6) n0 by (intro node_inv_reach) auto
  have sdb: "schema_ok db" "ca_of db = ca_pool (w_ca (nd_world n))" "keys_of db = nd_keys n" using db(2) by (simp_all add: stored_def)
  have "\<exists>pem. answers select_cert [SText host] db [[SText pem]]" if c: "certified n host" for host
  proof -
    obtain r where "find_device (db_device_certs (ca_of db)) host = Some r" using c sdb(2) by (auto simp: certified_def)
    then have "answers select_cert [SText host] db [[SText (dr_cert_pem r)]]"
      by (subst device_query [OF sdb(1)]) (auto elim!: device_shape simp: select_cert_def device_of_def cell_def)
    then show ?thesis ..
  qed
  then have "\<forall>(topic, payload)\<in>set (nd_published n). \<exists>bid host pem. topic = bid @ ''/cast'' \<and> (bid, host) \<in> set (nd_issued n) \<and>
      answers select_cert [SText host] db [[SText pem]]"
    using inv by (fastforce simp: node_inv_def list_all_iff cast_of_def ids_def)
  moreover have "length (active_rows (keys_of db)) \<le> 1" using inv sdb(3) by (simp add: node_inv_def key_wf_def)
  moreover have "db_ca_keys (ca_of db) = db_ca_keys (ca_of (st_pool s))" using db_step_keeps [OF db1(2) db(1)] db1(5) by simp
  ultimately show ?thesis using db1(1) db migrate_again [OF sdb(1)] by blast
qed

theorem node_on_database_witness:
  "\<exists>(s :: (nat, nat \<times> nat) ca_stored) n0 bs n db host pem. stored_ok s \<and> ie_ca (demo_init False) = Ok (ca_abs s) \<and>
     main_node (demo_init False) demo_config Map.empty (keys_of (st_pool s)) = Some (n0, bs) \<and>
     node_reach (demo_params bs) demo_requests n0 n \<and> stored n db \<and> (''u1/cast'', ''beacon'') \<in> set (nd_published n) \<and>
     (''u1'', host) \<in> set (nd_issued n) \<and> answers select_cert [SText host] db [[SText pem]]"
proof (rule demo_registered)
  fix n0 n1 n2 :: "(nat, nat \<times> nat) node" and bs ts
  assume m: "main_node (demo_init False) demo_config Map.empty [] = Some (n0, bs)" and k: "key_wf (bs_key_management bs) []"
    and r1: "node_reach (demo_params bs) demo_requests n0 n1" and r2: "(node_step (demo_params bs) demo_requests)\<^sup>*\<^sup>* n1 n2"
    and ts: "nd_round n2 = Some (ts, ''beacon'')" "''u1/cast'' \<in> set ts"
  obtain n where n: "(node_step (demo_params bs) demo_requests)\<^sup>*\<^sup>* n1 n" and p: "(''u1/cast'', ''beacon'') \<in> set (nd_published n)"
    using reach_beacon [OF r2 ts] by blast
  have r: "node_reach (demo_params bs) demo_requests n0 n" using n r1 by (rule node_reach_run)
  let ?s = "\<lparr>st_loaded = ca_loaded demo_ca, st_pool = fresh_db\<rparr>"
  have s: "stored_ok ?s" "keys_of (st_pool ?s) = []" "ie_ca (demo_init False) = Ok (ca_abs ?s)"
    using fresh_db_ok by (simp_all add: stored_ok_def active_rows_def ca_abs_def empty_ca_def demo_init_def demo_ca_def)
  from node_on_database [OF s(1,3), unfolded s(2), OF m demo_np k r] p
  obtain db bid host pem where d: "stored n db" "''u1/cast'' = bid @ ''/cast''" "(bid, host) \<in> set (nd_issued n)"
    "answers select_cert [SText host] db [[SText pem]]" by fast
  from d(2) have "bid = ''u1''" by (cases bid; cases "tl bid"; auto simp: append_eq_Cons_conv)
  with s m r d p show ?thesis by (intro exI [of _ ?s]) auto
qed

end
