(* ===== verification/Runtime.thy ===== *)
theory Runtime
  imports App Transitions
begin

section \<open>The tasks behind the services (\<open>src/main.rs\<close>, \<open>src/supervisor.rs\<close>, \<open>src/services/\<close>)\<close>

text \<open>
  The supervisor keeps services; what runs is the tasks their starts have spawned. Here both are one
  state. A task is kept under the shutdown channel whose receiver it owns, with the body it has in
  the theory of its service. It sees its shutdown when no service holds the sender any more: the
  sender was used by a stop or dropped. The supervisor answers one command after the other while
  the tasks go on; a restart is a stop and a start between which they go on too.

  The message loop owns the only handle of the supervisor, and the supervisor, in the MQTT client
  service, a sender of the channel the message loop reads. \<open>main\<close> waits for ctrl-c and returns,
  which ends the process.
\<close>

subsection \<open>State\<close>

datatype task =
    AcceptTask string app_state
  | EventTask loop_state
  | CommandTask "(mqtt_command \<times> unit res) list"
  | WsTask string cg_task
  | GatewayMqttTask gateway_mqtt_config gm_task

definition gateway_addr :: "gateway_service \<Rightarrow> string" where
  "gateway_addr g = hc_host (gs_config g) @ '':'' @ show_u16 (hc_port (gs_config g))"

text \<open>The tasks of a service.\<close>

fun task_of :: "service \<Rightarrow> task \<Rightarrow> bool" where
  "task_of (SGateway g) (AcceptTask addr st) \<longleftrightarrow>
     addr = gateway_addr g \<and> st = gs_state g"
| "task_of (SMqttClient c) (EventTask s) \<longleftrightarrow> True"
| "task_of (SMqttClient c) (CommandTask as) \<longleftrightarrow> True"
| "task_of (SCloudGateway c) (WsTask u t) \<longleftrightarrow> u = cg_server_url c"
| "task_of (SGatewayMqtt c) (GatewayMqttTask cfg t) \<longleftrightarrow> cfg = gm_config c"
| "task_of _ _ \<longleftrightarrow> False"

fun service_kind :: "service \<Rightarrow> service_id" where
  "service_kind (SGateway g) = Gateway"
| "service_kind (SMosquitto m) = Mosquitto"
| "service_kind (SMqttClient c) = MqttClient"
| "service_kind (SCloudGateway c) = CloudGateway"
| "service_kind (SGatewayMqtt c) = GatewayMqttClient"

text \<open>The shutdown senders a service holds, and its child process.\<close>

fun service_senders :: "service \<Rightarrow> chan set" where
  "service_senders (SGateway g) = set_option (gs_shutdown_tx g)"
| "service_senders (SMosquitto m) = {}"
| "service_senders (SMqttClient c) = set_option (ms_shutdown_tx c) \<union> set_option (ms_cmd_shutdown_tx c)"
| "service_senders (SCloudGateway c) = set_option (cg_shutdown_tx c)"
| "service_senders (SGatewayMqtt c) = set_option (gm_shutdown_tx c)"

fun service_child :: "service \<Rightarrow> 32 word set" where
  "service_child (SMosquitto m) = set_option (mq_child m)"
| "service_child _ = {}"

definition held_by :: "service_id \<Rightarrow> service supervisor \<Rightarrow> chan set" where
  "held_by sid sv = (case services sv sid of None \<Rightarrow> {} | Some s \<Rightarrow> service_senders s)"

definition children :: "service supervisor \<Rightarrow> 32 word set" where
  "children sv = (\<Union>s\<in>ran (services sv). service_child s)"

datatype life = Up | LoopOver | ShutDown | Exited

record runtime =
  rt_sup :: "service supervisor"
  rt_restarting :: "service_id option"
  rt_tasks :: "chan \<rightharpoonup> task"
  rt_conns :: "app_state list"
  rt_procs :: "32 word set"
  rt_used :: "chan set"
  rt_life :: life

definition runtime_init :: "service supervisor \<Rightarrow> runtime" where
  "runtime_init sv = \<lparr>rt_sup = sv, rt_restarting = None, rt_tasks = Map.empty, rt_conns = [], rt_procs = {},
     rt_used = {}, rt_life = Up\<rparr>"

subsection \<open>What a start spawns\<close>

text \<open>
  Of a service before and after a start that succeeded; the broker's task only copies its log.
\<close>

definition gateway_spawns :: "gateway_service \<Rightarrow> (chan \<times> task) list" where
  "gateway_spawns g = (case gs_shutdown_tx g of Some c \<Rightarrow> [(c, AcceptTask (gateway_addr g) (gs_state g))] | None \<Rightarrow> [])"

definition mqtt_client_spawns :: "mqtt_client_service \<Rightarrow> mqtt_client_service \<Rightarrow> (chan \<times> task) list" where
  "mqtt_client_spawns c c' =
     (case (ms_connected_tx c, ms_shutdown_tx c', ms_cmd_shutdown_tx c') of
        (Some connected_tx, Some shutdown, Some cmd_shutdown) \<Rightarrow>
          [(shutdown, EventTask (loop_init connected_tx)), (cmd_shutdown, CommandTask [])]
      | _ \<Rightarrow> [])"

definition cloud_gateway_spawns :: "cloud_gateway_service \<Rightarrow> (chan \<times> task) list" where
  "cloud_gateway_spawns c = (case cg_shutdown_tx c of Some sd \<Rightarrow> [(sd, WsTask (cg_server_url c) cg_init)] | None \<Rightarrow> [])"

definition gateway_mqtt_spawns :: "gateway_mqtt_service \<Rightarrow> (chan \<times> task) list" where
  "gateway_mqtt_spawns c =
     (case gm_shutdown_tx c of Some sd \<Rightarrow> [(sd, GatewayMqttTask (gm_config c) (gm_init (gm_config c)))] | None \<Rightarrow> [])"

fun service_spawns :: "service \<Rightarrow> service \<Rightarrow> (chan \<times> task) list" where
  "service_spawns (SGateway g) (SGateway g') = gateway_spawns g'"
| "service_spawns (SMqttClient c) (SMqttClient c') = mqtt_client_spawns c c'"
| "service_spawns (SCloudGateway c) (SCloudGateway c') = cloud_gateway_spawns c'"
| "service_spawns (SGatewayMqtt c) (SGatewayMqtt c') = gateway_mqtt_spawns c'"
| "service_spawns _ _ = []"

definition start_spawns ::
  "('kp, 'cert, 'csr, 'der, 'key, 'cfg, 'root) service_env \<Rightarrow> service_id \<Rightarrow> service supervisor \<Rightarrow> (chan \<times> task) list" where
  "start_spawns e sid sv =
     (case handle_start services_vt e sid sv of
        (Ok _, sv') \<Rightarrow> service_spawns (the (services sv sid)) (the (services sv' sid))
      | (Err _, sv') \<Rightarrow> [])"

text \<open>
  The supervisor has gone on to another state: new tasks run, a child that a service now has was
  spawned, and one that it no longer has was waited for or killed.
\<close>

definition supervised :: "service supervisor \<Rightarrow> (chan \<times> task) list \<Rightarrow> runtime \<Rightarrow> runtime" where
  "supervised sv' new r =
     r\<lparr>rt_sup := sv', rt_tasks := rt_tasks r ++ map_of new,
       rt_procs := (rt_procs r - (children (rt_sup r) - children sv')) \<union> (children sv' - children (rt_sup r)),
       rt_used := rt_used r \<union> (\<Union>sid. held_by sid sv')\<rparr>"

definition start_run ::
  "('kp, 'cert, 'csr, 'der, 'key, 'cfg, 'root) service_env \<Rightarrow> service_id \<Rightarrow> runtime \<Rightarrow> runtime" where
  "start_run e sid r = supervised (snd (handle_start services_vt e sid (rt_sup r))) (start_spawns e sid (rt_sup r)) r"

definition stop_run ::
  "('kp, 'cert, 'csr, 'der, 'key, 'cfg, 'root) service_env \<Rightarrow> service_id \<Rightarrow> runtime \<Rightarrow> runtime" where
  "stop_run e sid r = supervised (snd (handle_stop services_vt e sid (rt_sup r))) [] r"

subsection \<open>Steps\<close>

text \<open>
  What the environment of a start promises: its channels are new; a bind fails while a listener on
  the address is open, unless the port is 0, with which the system chooses one; a new process has a
  process id that no other has.
\<close>

definition os_laws :: "runtime \<Rightarrow> ('kp, 'cert, 'csr, 'der, 'key, 'cfg, 'root) service_env \<Rightarrow> bool" where
  "os_laws r e \<longleftrightarrow>
     {ge_shutdown (en_gateway e), ce_shutdown (en_client e), ce_cmd_shutdown (en_client e), en_chan e} \<inter> rt_used r = {} \<and>
     ce_shutdown (en_client e) \<noteq> ce_cmd_shutdown (en_client e) \<and>
     (\<forall>c addr st. rt_tasks r c = Some (AcceptTask addr st) \<longrightarrow>
        ends_with addr '':0'' \<or> (\<exists>x. ge_bind (en_gateway e) addr = Err x)) \<and>
     (\<forall>bin args pid. me_spawn (en_mosquitto e) bin args = Ok (Some pid) \<longrightarrow> pid \<notin> rt_procs r)"

text \<open>
  What a task does while its shutdown has not come, and whether it stands where it sees it.
\<close>

record codec =
  co_ser :: "json \<Rightarrow> string res"
  co_parse :: "string \<Rightarrow> json option"
  co_bytes :: "json \<Rightarrow> byte list res"

inductive task_runs :: "codec \<Rightarrow> task \<Rightarrow> task \<Rightarrow> bool" for J where
  event: "ev \<noteq> LoopShutdown \<Longrightarrow> task_runs J (EventTask s) (EventTask (loop_step ev s))"
| command: "task_runs J (CommandTask as) (CommandTask (as @ command_task client [TaskCommand cmd]))"
| ws: "cg_step (co_ser J) (co_parse J) u ev t = Some t' \<Longrightarrow> ev \<noteq> EvShutdown \<Longrightarrow> task_runs J (WsTask u t) (WsTask u t')"
| gateway_mqtt: "gm_step (co_bytes J) c (ev :: byte list gm_event) t = Some t' \<Longrightarrow> ev \<noteq> GmShutdown \<Longrightarrow>
     task_runs J (GatewayMqttTask c t) (GatewayMqttTask c t')"

fun sees_shutdown :: "codec \<Rightarrow> task \<Rightarrow> bool" where
  "sees_shutdown J (WsTask u t) \<longleftrightarrow> cg_step (co_ser J) (co_parse J) u EvShutdown t \<noteq> None"
| "sees_shutdown J (GatewayMqttTask c t) \<longleftrightarrow> gm_step (co_bytes J) c (GmShutdown :: byte list gm_event) t \<noteq> None"
| "sees_shutdown J _ \<longleftrightarrow> True"

text \<open>The senders of the channel the message loop reads: the service's own and the event loop task's.\<close>

definition inbound_open :: "runtime \<Rightarrow> bool" where
  "inbound_open r \<longleftrightarrow> (\<exists>c. services (rt_sup r) MqttClient = Some (SMqttClient c)) \<or>
     (\<exists>c s. rt_tasks r c = Some (EventTask s))"

text \<open>The supervisor's loop goes on as long as it may have commands to answer.\<close>

definition supervising :: "runtime \<Rightarrow> bool" where
  "supervising r \<longleftrightarrow> rt_life r = Up \<or> rt_life r = LoopOver"

definition exit_run :: "runtime \<Rightarrow> runtime" where
  "exit_run r = r\<lparr>rt_life := Exited, rt_tasks := Map.empty, rt_conns := [], rt_procs := rt_procs r - children (rt_sup r)\<rparr>"

inductive rt_step ::
  "codec \<Rightarrow> (('kp, 'cert, 'csr, 'der, 'key, 'cfg, 'root) service_env \<Rightarrow> bool) \<Rightarrow> runtime \<Rightarrow> runtime \<Rightarrow> bool"
  for J E where
  start: "supervising r \<Longrightarrow> rt_restarting r = None \<Longrightarrow> E e \<Longrightarrow> os_laws r e \<Longrightarrow> rt_step J E r (start_run e sid r)"
| stop: "supervising r \<Longrightarrow> rt_restarting r = None \<Longrightarrow> E e \<Longrightarrow> rt_step J E r (stop_run e sid r)"
| restart_stops: "supervising r \<Longrightarrow> rt_restarting r = None \<Longrightarrow> E e \<Longrightarrow> statuses (rt_sup r) sid = Some (Running pid) \<Longrightarrow>
     rt_step J E r ((stop_run e sid r)\<lparr>rt_restarting := Some sid\<rparr>)"
| restart_idle: "supervising r \<Longrightarrow> rt_restarting r = None \<Longrightarrow> \<forall>pid. statuses (rt_sup r) sid \<noteq> Some (Running pid) \<Longrightarrow>
     rt_step J E r (r\<lparr>rt_restarting := Some sid\<rparr>)"
| restart_starts: "supervising r \<Longrightarrow> rt_restarting r = Some sid \<Longrightarrow> E e \<Longrightarrow> os_laws r e \<Longrightarrow>
     rt_step J E r ((start_run e sid r)\<lparr>rt_restarting := None\<rparr>)"
| runs: "rt_life r \<noteq> Exited \<Longrightarrow> rt_tasks r c = Some t \<Longrightarrow> task_runs J t t' \<Longrightarrow>
     rt_step J E r (r\<lparr>rt_tasks := (rt_tasks r)(c \<mapsto> t')\<rparr>)"
| accepts: "rt_life r \<noteq> Exited \<Longrightarrow> rt_tasks r c = Some (AcceptTask addr st) \<Longrightarrow>
     rt_step J E r (r\<lparr>rt_conns := rt_conns r @ [st]\<rparr>)"
| closes: "rt_life r \<noteq> Exited \<Longrightarrow> rt_conns r = cs @ st # cs' \<Longrightarrow> rt_step J E r (r\<lparr>rt_conns := cs @ cs'\<rparr>)"
| ends: "rt_life r \<noteq> Exited \<Longrightarrow> rt_tasks r c = Some t \<Longrightarrow> \<forall>sid. c \<notin> held_by sid (rt_sup r) \<Longrightarrow> sees_shutdown J t \<Longrightarrow>
     rt_step J E r (r\<lparr>rt_tasks := (rt_tasks r)(c := None)\<rparr>)"
| child_dies: "rt_life r \<noteq> Exited \<Longrightarrow> rt_step J E r (r\<lparr>rt_procs := rt_procs r - {pid}\<rparr>)"
| loop_breaks: "rt_life r = Up \<Longrightarrow> \<not> inbound_open r \<Longrightarrow> rt_step J E r (r\<lparr>rt_life := LoopOver\<rparr>)"
| shuts_down: "rt_life r = LoopOver \<Longrightarrow> rt_restarting r = None \<Longrightarrow> distinct (map fst order) \<Longrightarrow>
     fst ` set order = dom (services (rt_sup r)) \<Longrightarrow> \<forall>(sid, e)\<in>set order. E e \<Longrightarrow>
     rt_step J E r ((supervised ((shutdown_services services_vt order (rt_sup r))\<lparr>services := Map.empty\<rparr>) [] r)\<lparr>rt_life := ShutDown\<rparr>)"
| ctrl_c: "rt_life r \<noteq> Exited \<Longrightarrow> rt_step J E r (exit_run r)"

subsection \<open>What starts and stops do to the senders\<close>

definition new_chans :: "('kp, 'cert, 'csr, 'der, 'key, 'cfg, 'root) service_env \<Rightarrow> chan set" where
  "new_chans e = {ge_shutdown (en_gateway e), ce_shutdown (en_client e), ce_cmd_shutdown (en_client e), en_chan e}"

lemmas spawns_defs = gateway_spawns_def mqtt_client_spawns_def cloud_gateway_spawns_def gateway_mqtt_spawns_def

lemmas all_svc_defs = gateway_svc_defs mosquitto_svc_defs client_svc_defs cloud_svc_defs gmqtt_svc_defs

lemma start_spawned:
  assumes "service_start e s = (Ok pid, s')"
  shows "service_kind s' = service_kind s" "fst ` set (service_spawns s s') = service_senders s'"
    "service_senders s' \<subseteq> new_chans e" "\<forall>(c, t)\<in>set (service_spawns s s'). task_of s' t"
  using assms
  by (cases s; auto simp: service_start_def wrap_result all_svc_defs spawns_defs gateway_addr_def new_chans_def Let_def
      split: option.splits result.splits if_splits)+

lemma task_of_config:
  "gs_config g' = gs_config g \<Longrightarrow> gs_state g' = gs_state g \<Longrightarrow> task_of (SGateway g') t = task_of (SGateway g) t"
  "task_of (SMqttClient c') t = task_of (SMqttClient c) t"
  "cg_server_url d' = cg_server_url d \<Longrightarrow> task_of (SCloudGateway d') t = task_of (SCloudGateway d) t"
  "gm_config m' = gm_config m \<Longrightarrow> task_of (SGatewayMqtt m') t = task_of (SGatewayMqtt m) t"
  "task_of (SMosquitto q') t = task_of (SMosquitto q) t"
  by (cases t; simp add: gateway_addr_def)+

lemma start_failed:
  assumes "service_start e s = (Err er, s')"
  shows "service_kind s' = service_kind s" "service_senders s' \<subseteq> service_senders s \<or> service_senders s' \<subseteq> new_chans e"
    "task_of s' t = task_of s t"
  using assms
  by (cases s; auto simp: service_start_def wrap_result all_svc_defs new_chans_def Let_def
      split: option.splits result.splits if_splits intro!: task_of_config)+

lemma stop_senders:
  assumes "service_stop e s = (res, s')"
  shows "service_kind s' = service_kind s" "service_senders s' \<subseteq> service_senders s" "task_of s' t = task_of s t"
  using assms
  by (cases s; auto simp: service_stop_def wrap_result all_svc_defs split: option.splits intro!: task_of_config)+

text \<open>A service that is not up holds no sender.\<close>

definition no_leftover :: "service \<Rightarrow> bool" where
  "no_leftover s \<longleftrightarrow> service_up s \<or> service_senders s = {}"

lemma no_leftover_start: "no_leftover s \<Longrightarrow> no_leftover (snd (service_start e s))"
  by (cases s) (auto simp: no_leftover_def service_start_def all_svc_defs Let_def split: option.splits result.splits if_splits)

lemma no_leftover_stop: "no_leftover s \<Longrightarrow> no_leftover (snd (service_stop e s))"
  by (cases s) (auto simp: no_leftover_def service_stop_def all_svc_defs split: option.splits)

definition wired :: "service supervisor \<Rightarrow> bool" where
  "wired sv \<longleftrightarrow> (\<forall>sid s. services sv sid = Some s \<longrightarrow> service_kind s = sid \<and> no_leftover s) \<and>
     (\<exists>c. services sv MqttClient = Some (SMqttClient c))"

lemma start_binds:
  assumes "service_start e s = (Ok pid, s')" and "(c, AcceptTask addr st) \<in> set (service_spawns s s')"
  shows "ge_bind (en_gateway e) addr = Ok ()" "service_spawns s s' = [(c, AcceptTask addr st)]"
  using assms
  by (cases s; auto simp: service_start_def wrap_result all_svc_defs spawns_defs gateway_addr_def Let_def
      split: option.splits result.splits if_splits)+

subsection \<open>The invariant\<close>

definition sole_listeners :: "(chan \<rightharpoonup> task) \<Rightarrow> bool" where
  "sole_listeners ts \<longleftrightarrow> (\<forall>c c' addr st st'. ts c = Some (AcceptTask addr st) \<longrightarrow> ts c' = Some (AcceptTask addr st') \<longrightarrow>
     ends_with addr '':0'' \<or> c = c')"

definition tasks_inv :: "service supervisor \<Rightarrow> (chan \<rightharpoonup> task) \<Rightarrow> chan set \<Rightarrow> bool" where
  "tasks_inv sv ts used \<longleftrightarrow> dom ts \<subseteq> used \<and> (\<forall>sid. held_by sid sv \<subseteq> used) \<and>
     (\<forall>c sid sid'. c \<in> held_by sid sv \<longrightarrow> c \<in> held_by sid' sv \<longrightarrow> sid = sid') \<and>
     (\<forall>sid s c t. services sv sid = Some s \<longrightarrow> c \<in> service_senders s \<longrightarrow> ts c = Some t \<longrightarrow> task_of s t) \<and>
     (\<forall>sid pid. statuses sv sid = Some (Running pid) \<longrightarrow> held_by sid sv \<subseteq> dom ts) \<and> sole_listeners ts"

definition rt_inv :: "runtime \<Rightarrow> bool" where
  "rt_inv r \<longleftrightarrow>
     (if rt_life r = Exited then rt_tasks r = Map.empty \<and> rt_conns r = [] \<and> rt_procs r = {}
      else rt_life r = Up \<and> all_services.sup_agrees (rt_sup r) \<and> wired (rt_sup r) \<and>
        tasks_inv (rt_sup r) (rt_tasks r) (rt_used r) \<and> rt_procs r \<subseteq> children (rt_sup r))"

lemma held_by_update [simp]:
  "held_by sid' (sv\<lparr>services := (services sv)(sid \<mapsto> s), statuses := ss\<rparr>) = (if sid' = sid then service_senders s else held_by sid' sv)"
  by (simp add: held_by_def)

lemma wired_update:
  "wired sv \<Longrightarrow> service_kind s = sid \<Longrightarrow> no_leftover s \<Longrightarrow> wired (sv\<lparr>services := (services sv)(sid \<mapsto> s), statuses := ss\<rparr>)"
  by (cases s) (auto simp: wired_def)

text \<open>A service gives up senders and spawns nothing.\<close>

lemma tasks_inv_shrink:
  assumes "tasks_inv sv ts used" and "services sv sid = Some s" and "service_senders s' \<subseteq> service_senders s"
    and "\<forall>pid. st \<noteq> Running pid" and "\<And>t. task_of s' t = task_of s t"
  shows "tasks_inv (sv\<lparr>services := (services sv)(sid \<mapsto> s'), statuses := (statuses sv)(sid \<mapsto> st)\<rparr>) ts used"
proof -
  let ?sv = "sv\<lparr>services := (services sv)(sid \<mapsto> s'), statuses := (statuses sv)(sid \<mapsto> st)\<rparr>"
  have sub: "held_by i ?sv \<subseteq> held_by i sv" for i using assms(2,3) by (simp add: held_by_def)
  have "held_by i ?sv \<subseteq> dom ts" if "statuses ?sv i = Some (Running pid)" for i pid
    using that assms(1,4) by (auto simp: tasks_inv_def split: if_splits)
  moreover have "task_of s1 t" if "services ?sv i = Some s1" "c \<in> service_senders s1" "ts c = Some t" for i s1 c t
    using that assms by (auto simp: tasks_inv_def split: if_splits)
  ultimately show ?thesis using assms(1) sub unfolding tasks_inv_def by (meson subsetD subset_trans)
qed

text \<open>A service gets new senders and spawns tasks for all of them, or fails.\<close>

lemma tasks_inv_fresh:
  assumes "tasks_inv sv ts used" and "service_senders s' \<inter> used = {}"
    and "fst ` set new \<subseteq> service_senders s'" and "\<forall>(c, t)\<in>set new. task_of s' t"
    and "\<forall>pid. st = Running pid \<longrightarrow> fst ` set new = service_senders s'" and "sole_listeners (ts ++ map_of new)"
  shows "tasks_inv (sv\<lparr>services := (services sv)(sid \<mapsto> s'), statuses := (statuses sv)(sid \<mapsto> st)\<rparr>) (ts ++ map_of new)
    (used \<union> service_senders s')"
proof -
  let ?sv = "sv\<lparr>services := (services sv)(sid \<mapsto> s'), statuses := (statuses sv)(sid \<mapsto> st)\<rparr>"
  have d: "dom (ts ++ map_of new) = fst ` set new \<union> dom ts" by (simp add: dom_map_of_conv_image_fst)
  have h: "held_by i ?sv = (if i = sid then service_senders s' else held_by i sv)" for i by simp
  have u: "dom ts \<subseteq> used" "\<And>i. held_by i sv \<subseteq> used" using assms(1) by (auto simp: tasks_inv_def)
  have old: "(ts ++ map_of new) c = ts c" if "c \<in> used" for c
    using that assms(2,3) by (intro map_add_dom_app_simps(3)) (auto simp: dom_map_of_conv_image_fst)
  have own: "task_of s1 t" if "services ?sv i = Some s1" "c \<in> service_senders s1" "(ts ++ map_of new) c = Some t" for i s1 c t
  proof (cases "i = sid")
    case True
    then have s1: "s1 = s'" using that(1) by simp
    then have "c \<notin> dom ts" using that(2) u(1) assms(2) by auto
    then have "map_of new c = Some t" using that(3) by (auto simp: map_add_Some_iff)
    then show ?thesis using assms(4) s1 map_of_SomeD by fastforce
  next
    case False
    then have s1: "services sv i = Some s1" using that(1) by simp
    then have "c \<in> used" using that(2) u(2) [of i] by (auto simp: held_by_def)
    then have "ts c = Some t" using that(3) old [of c] by simp
    with s1 that(2) show ?thesis using assms(1) unfolding tasks_inv_def by blast
  qed
  have one: "i = j" if "c \<in> held_by i ?sv" "c \<in> held_by j ?sv" for c i j
    using that u(2) assms(1,2) by (auto simp: tasks_inv_def split: if_splits)
  have run: "held_by i ?sv \<subseteq> dom (ts ++ map_of new)" if "statuses ?sv i = Some (Running pid)" for i pid
    using that assms(1,5) unfolding d h by (auto simp: tasks_inv_def split: if_splits)
  show ?thesis unfolding tasks_inv_def
  proof (intro conjI)
    show "dom (ts ++ map_of new) \<subseteq> used \<union> service_senders s'" using d u(1) assms(3) by auto
    show "\<forall>i. held_by i ?sv \<subseteq> used \<union> service_senders s'" using u(2) by auto
  qed (use own one run assms(6) in blast)+
qed

lemma sole_listeners_add:
  assumes "sole_listeners ts"
    and "\<And>c addr st. (c, AcceptTask addr st) \<in> set new \<Longrightarrow> new = [(c, AcceptTask addr st)] \<and>
      (\<forall>c' st'. ts c' = Some (AcceptTask addr st') \<longrightarrow> ends_with addr '':0'')"
  shows "sole_listeners (ts ++ map_of new)"
  unfolding sole_listeners_def
proof (intro allI impI)
  fix c c' addr st st'
  assume a: "(ts ++ map_of new) c = Some (AcceptTask addr st)" "(ts ++ map_of new) c' = Some (AcceptTask addr st')"
  show "ends_with addr '':0'' \<or> c = c'"
  proof (cases "map_of new c = None \<and> map_of new c' = None")
    case True
    then show ?thesis using a assms(1) unfolding sole_listeners_def by (metis map_add_find_right map_add_None map_add_Some_iff)
  next
    case False
    then obtain c1 st1 where "(c1, AcceptTask addr st1) \<in> set new" using a by (auto simp: map_add_Some_iff dest: map_of_SomeD)
    from assms(2) [OF this] a show ?thesis by (auto split: if_splits)
  qed
qed

lemma procs_supervised:
  "rt_procs r \<subseteq> children (rt_sup r) \<Longrightarrow> rt_procs (supervised sv' new r) \<subseteq> children sv'"
  by (auto simp: supervised_def)

lemma supervised_simps [simp]:
  "rt_sup (supervised sv' new r) = sv'" "rt_tasks (supervised sv' new r) = rt_tasks r ++ map_of new"
  "rt_life (supervised sv' new r) = rt_life r" "rt_conns (supervised sv' new r) = rt_conns r"
  "rt_used (supervised sv' new r) = rt_used r \<union> (\<Union>sid. held_by sid sv')"
  "rt_restarting (supervised sv' new r) = rt_restarting r"
  by (simp_all add: supervised_def)

lemma used_update:
  assumes "\<forall>i. held_by i sv \<subseteq> used"
  shows "used \<union> (\<Union>i. held_by i (sv\<lparr>services := (services sv)(sid \<mapsto> s), statuses := ss\<rparr>)) = used \<union> service_senders s"
  using assms by auto

lemma tasks_inv_used: "tasks_inv sv ts used \<Longrightarrow> used \<union> (\<Union>i. held_by i sv) = used"
  by (auto simp: tasks_inv_def)

lemma start_run_inv:
  assumes "all_services.sup_agrees (rt_sup r)" and "wired (rt_sup r)" and "tasks_inv (rt_sup r) (rt_tasks r) (rt_used r)"
    and "os_laws r e"
    and "r' = start_run e sid r"
  shows "wired (rt_sup r') \<and> tasks_inv (rt_sup r') (rt_tasks r') (rt_used r')"
proof -
  let ?sv = "rt_sup r"
  have wf: "sup_wf ?sv" using assms(1) by (simp add: all_services.sup_agrees_def)
  have u: "\<forall>i. held_by i ?sv \<subseteq> rt_used r" "sole_listeners (rt_tasks r)" using assms(3) by (auto simp: tasks_inv_def)
  have n: "new_chans e \<inter> rt_used r = {}" using assms(4) by (simp add: os_laws_def new_chans_def)
  from wf show ?thesis
  proof (cases rule: handle_start_cases [of ?sv sid services_vt e])
    case (refused msg)
    then show ?thesis using assms(2,3) by (simp add: assms(5) start_run_def start_spawns_def tasks_inv_used)
  next
    case (started s pid s')
    have st: "service_start e s = (Ok pid, s')" using started(3) by (simp add: services_vt_def)
    note sp = start_spawned [OF st]
    have k: "service_kind s = sid" "no_leftover s" using assms(2) started(2) by (simp_all add: wired_def)
    have new: "start_spawns e sid ?sv = service_spawns s s'" by (simp add: start_spawns_def started)
    have "sole_listeners (rt_tasks r ++ map_of (service_spawns s s'))"
      using u(2)
    proof (rule sole_listeners_add)
      fix c addr st0
      assume "(c, AcceptTask addr st0) \<in> set (service_spawns s s')"
      from start_binds [OF st this] assms(4)
      show "service_spawns s s' = [(c, AcceptTask addr st0)] \<and> (\<forall>c' st'. rt_tasks r c' = Some (AcceptTask addr st') \<longrightarrow> ends_with addr '':0'')"
        by (fastforce simp: os_laws_def)
    qed
    then have "tasks_inv (?sv\<lparr>services := (services ?sv)(sid \<mapsto> s'), statuses := (statuses ?sv)(sid \<mapsto> Running pid)\<rparr>)
        (rt_tasks r ++ map_of (service_spawns s s')) (rt_used r \<union> service_senders s')"
      using sp n k by (intro tasks_inv_fresh [OF assms(3)]) auto
    then show ?thesis using wired_update [OF assms(2), of s' sid] sp(1) k(1) no_leftover_start [OF k(2), of e] st
      by (simp add: assms(5) start_run_def new started used_update [OF u(1)] del: held_by_update)
  next
    case (failed s er s')
    have st: "service_start e s = (Err er, s')" using failed(3) by (simp add: services_vt_def)
    note sf = start_failed [OF st]
    have k: "service_kind s = sid" "no_leftover s" using assms(2) failed(2) by (simp_all add: wired_def)
    have new: "start_spawns e sid ?sv = []" by (simp add: start_spawns_def failed)
    let ?sv' = "?sv\<lparr>services := (services ?sv)(sid \<mapsto> s'), statuses := (statuses ?sv)(sid \<mapsto> Failed er)\<rparr>"
    have "tasks_inv ?sv' (rt_tasks r) (rt_used r \<union> service_senders s')"
      using sf(2)
    proof
      assume a: "service_senders s' \<subseteq> service_senders s"
      then have "service_senders s' \<subseteq> rt_used r" using u(1) failed(2) by (fastforce simp: held_by_def split: option.splits)
      then have "rt_used r \<union> service_senders s' = rt_used r" by auto
      then show ?thesis using tasks_inv_shrink [OF assms(3) failed(2) a, of "Failed er"] sf(3) by simp
    next
      assume "service_senders s' \<subseteq> new_chans e"
      then show ?thesis using n u(2) tasks_inv_fresh [OF assms(3), of s' "[]" "Failed er" sid] by auto
    qed
    then show ?thesis using wired_update [OF assms(2), of s' sid] sf(1) k(1) no_leftover_start [OF k(2), of e] st
      by (simp add: assms(5) start_run_def new failed used_update [OF u(1)] del: held_by_update)
  qed
qed

lemma stop_run_inv:
  assumes "all_services.sup_agrees (rt_sup r)" and "wired (rt_sup r)" and "tasks_inv (rt_sup r) (rt_tasks r) (rt_used r)"
    and "r' = stop_run e sid r"
  shows "wired (rt_sup r') \<and> tasks_inv (rt_sup r') (rt_tasks r') (rt_used r')"
proof -
  let ?sv = "rt_sup r"
  have wf: "sup_wf ?sv" using assms(1) by (simp add: all_services.sup_agrees_def)
  from wf show ?thesis
  proof (cases rule: handle_stop_cases [of ?sv sid services_vt e])
    case (refused msg)
    then show ?thesis using assms(2,3) by (simp add: assms(4) stop_run_def tasks_inv_used)
  next
    case (stopped s s')
    have so: "service_stop e s = (Ok (), s')" using stopped(3) by (simp add: services_vt_def)
    note st = stop_senders [OF so]
    have "service_kind s = sid" "no_leftover s" using assms(2) stopped(2) by (simp_all add: wired_def)
    moreover have t: "tasks_inv (?sv\<lparr>services := (services ?sv)(sid \<mapsto> s'), statuses := (statuses ?sv)(sid \<mapsto> Stopped)\<rparr>) (rt_tasks r) (rt_used r)"
      using tasks_inv_shrink [OF assms(3) stopped(2) st(2), of Stopped] st(3) by simp
    ultimately show ?thesis using wired_update [OF assms(2), of s' sid] st(1) no_leftover_stop [of s e] so
      by (simp add: assms(4) stop_run_def stopped tasks_inv_used [OF t] del: held_by_update)
  next
    case (failed s er s')
    then have "s' = s" using all_services.stop_err all_services.sup_agrees_ok [OF assms(1)] by blast
    with failed have "snd (handle_stop services_vt e sid ?sv) = ?sv" by (simp add: fun_upd_idem)
    then show ?thesis using assms(2,3) by (simp add: assms(4) stop_run_def tasks_inv_used)
  qed
qed

lemma start_run_simps [simp]:
  "rt_sup (start_run e sid r) = snd (handle_start services_vt e sid (rt_sup r))" "rt_life (start_run e sid r) = rt_life r"
  "rt_sup (stop_run e sid r) = snd (handle_stop services_vt e sid (rt_sup r))" "rt_life (stop_run e sid r) = rt_life r"
  "rt_tasks (stop_run e sid r) = rt_tasks r" "rt_conns (stop_run e sid r) = rt_conns r"
  "rt_restarting (start_run e sid r) = rt_restarting r" "rt_restarting (stop_run e sid r) = rt_restarting r"
  by (simp_all add: start_run_def stop_run_def)

lemma rt_inv_start:
  assumes "rt_inv r" and "supervising r" and "os_laws r e"
  shows "rt_inv (start_run e sid r)"
proof -
  have r: "rt_life r = Up" "all_services.sup_agrees (rt_sup r)" "wired (rt_sup r)" "tasks_inv (rt_sup r) (rt_tasks r) (rt_used r)"
    "rt_procs r \<subseteq> children (rt_sup r)"
    using assms(1,2) by (auto simp: rt_inv_def supervising_def split: if_splits)
  have "rt_procs (start_run e sid r) \<subseteq> children (rt_sup (start_run e sid r))"
    using procs_supervised [OF r(5)] by (simp add: start_run_def)
  then show ?thesis using r(1) start_run_inv [OF r(2-4) assms(3) refl] all_services.sup_agrees_start [OF r(2)] by (simp add: rt_inv_def)
qed

lemma rt_inv_stop:
  assumes "rt_inv r" and "supervising r"
  shows "rt_inv (stop_run e sid r)"
proof -
  have r: "rt_life r = Up" "all_services.sup_agrees (rt_sup r)" "wired (rt_sup r)" "tasks_inv (rt_sup r) (rt_tasks r) (rt_used r)"
    "rt_procs r \<subseteq> children (rt_sup r)"
    using assms(1,2) by (auto simp: rt_inv_def supervising_def split: if_splits)
  have "rt_procs (stop_run e sid r) \<subseteq> children (rt_sup (stop_run e sid r))"
    using procs_supervised [OF r(5)] by (simp add: stop_run_def)
  then show ?thesis using r(1) stop_run_inv [OF r(2-4) refl, of e sid] all_services.sup_agrees_stop [OF r(2), of e sid] by (simp add: rt_inv_def)
qed

lemma rt_inv_restarting [simp]: "rt_inv (r\<lparr>rt_restarting := x\<rparr>) = rt_inv r"
  by (simp add: rt_inv_def)

lemma task_runs_shape:
  assumes "task_runs J t t'"
  shows "task_of s t' = task_of s t" "t \<noteq> AcceptTask addr st" "t' \<noteq> AcceptTask addr st"
  using assms by (cases s; cases rule: task_runs.cases; simp)+

lemma tasks_inv_change:
  assumes "tasks_inv sv ts used" and "dom ts' \<subseteq> dom ts" and "\<And>c sid. c \<in> held_by sid sv \<Longrightarrow> c \<in> dom ts \<Longrightarrow> c \<in> dom ts'"
    and "\<And>sid s c t. services sv sid = Some s \<Longrightarrow> c \<in> service_senders s \<Longrightarrow> ts' c = Some t \<Longrightarrow> task_of s t" and "sole_listeners ts'"
  shows "tasks_inv sv ts' used"
  unfolding tasks_inv_def
proof (intro conjI)
  show "dom ts' \<subseteq> used" using assms(1,2) by (auto simp: tasks_inv_def)
  show "\<forall>sid pid. statuses sv sid = Some (Running pid) \<longrightarrow> held_by sid sv \<subseteq> dom ts'"
    using assms(1,3) unfolding tasks_inv_def by blast
qed (use assms in \<open>simp_all add: tasks_inv_def\<close>)

lemma tasks_inv_runs:
  assumes "tasks_inv sv ts used" and "ts c = Some t" and "task_runs J t t'"
  shows "tasks_inv sv (ts(c \<mapsto> t')) used"
proof -
  have "sole_listeners (ts(c \<mapsto> t'))"
    using assms(1) task_runs_shape(3) [OF assms(3)] unfolding tasks_inv_def sole_listeners_def by (auto split: if_splits)
  moreover have "task_of s t1" if "services sv sid = Some s" "c1 \<in> service_senders s" "(ts(c \<mapsto> t')) c1 = Some t1" for sid s c1 t1
  proof (cases "c1 = c")
    case True
    then have "task_of s t" using that(1,2) assms(1,2) unfolding tasks_inv_def by blast
    with True that(3) show ?thesis using task_runs_shape(1) [OF assms(3)] by simp
  next
    case False
    then show ?thesis using that assms(1) by (auto simp: tasks_inv_def)
  qed
  ultimately show ?thesis using assms(2) by (intro tasks_inv_change [OF assms(1)]) auto
qed

lemma tasks_inv_ends:
  assumes "tasks_inv sv ts used" and "\<forall>sid. c \<notin> held_by sid sv"
  shows "tasks_inv sv (ts(c := None)) used"
proof -
  have "sole_listeners (ts(c := None))" using assms(1) unfolding tasks_inv_def sole_listeners_def by auto
  moreover have "task_of s t" if "services sv sid = Some s" "c1 \<in> service_senders s" "(ts(c := None)) c1 = Some t" for sid s c1 t
    using that assms(1) by (auto simp: tasks_inv_def split: if_splits)
  ultimately show ?thesis using assms(2) by (intro tasks_inv_change [OF assms(1)]) auto
qed

lemma rt_inv_step:
  assumes "rt_inv r" and "rt_step J E r r'"
  shows "rt_inv r'"
  using assms(2)
proof (cases rule: rt_step.cases)
  case (start e sid)
  then show ?thesis using rt_inv_start [OF assms(1)] by simp
next
  case (stop e sid)
  then show ?thesis using rt_inv_stop [OF assms(1)] by simp
next
  case (restart_stops e sid pid)
  then show ?thesis using rt_inv_stop [OF assms(1)] by simp
next
  case (restart_starts sid e)
  then show ?thesis using rt_inv_start [OF assms(1)] by simp
next
  case (runs c t t')
  then show ?thesis using assms(1) tasks_inv_runs [of "rt_sup r" "rt_tasks r" "rt_used r" c t J t'] by (auto simp: rt_inv_def)
next
  case (ends c t)
  then show ?thesis using assms(1) tasks_inv_ends [of "rt_sup r" "rt_tasks r" "rt_used r" c] by (auto simp: rt_inv_def)
next
  case loop_breaks
  then have "wired (rt_sup r)" using assms(1) by (simp add: rt_inv_def)
  with loop_breaks(3) show ?thesis by (auto simp: inbound_open_def wired_def)
next
  case (shuts_down order)
  then show ?thesis using assms(1) by (simp add: rt_inv_def)
next
  case ctrl_c
  then show ?thesis using assms(1) by (auto simp: rt_inv_def exit_run_def)
qed (use assms(1) in \<open>auto simp: rt_inv_def\<close>)

interpretation supervised_tasks: step_invariant "rt_step J E" rt_inv for J E
  using rt_inv_step by unfold_locales blast

subsection \<open>The supervisor inside the process\<close>

definition sup_step ::
  "(('kp, 'cert, 'csr, 'der, 'key, 'cfg, 'root) service_env \<Rightarrow> bool) \<Rightarrow> service supervisor \<Rightarrow> service supervisor \<Rightarrow> bool" where
  "sup_step E sv sv' \<longleftrightarrow> (\<exists>e cmd. E e \<and> sv' = snd (handle_command services_vt (e, e) cmd sv))"

lemma sup_step_start: "E e \<Longrightarrow> sup_step E sv (snd (handle_start services_vt e sid sv))"
  unfolding sup_step_def by (intro exI [of _ e] exI [of _ "Start sid"]) (simp add: handle_command_snd)

lemma sup_step_stop: "E e \<Longrightarrow> sup_step E sv (snd (handle_stop services_vt e sid sv))"
  unfolding sup_step_def by (intro exI [of _ e] exI [of _ "Stop sid"]) (simp add: handle_command_snd)

lemma rt_sup_step: "rt_inv r \<Longrightarrow> rt_step J E r r' \<Longrightarrow> (sup_step E)\<^sup>*\<^sup>* (rt_sup r) (rt_sup r')"
  by (erule rt_step.cases) (auto simp: rt_inv_def exit_run_def intro: sup_step_start sup_step_stop)

interpretation rt_supervisor: projection "rt_step J E" rt_inv "sup_step E" rt_sup for J E
  using rt_sup_step by unfold_locales blast

lemma sup_steps_loop:
  "(sup_step E)\<^sup>*\<^sup>* sv sv' \<Longrightarrow> \<exists>cmds. (\<forall>(e, cmd)\<in>set cmds. E (fst e) \<and> E (snd e)) \<and> sv' = snd (supervisor_loop services_vt cmds sv)"
proof (induction rule: converse_rtranclp_induct)
  case base
  then show ?case by (intro exI [of _ "[]"]) simp
next
  case (step sv sv1)
  then obtain cmds e cmd where "\<forall>(e, cmd)\<in>set cmds. E (fst e) \<and> E (snd e)" "sv' = snd (supervisor_loop services_vt cmds sv1)"
    "E e" "sv1 = snd (handle_command services_vt (e, e) cmd sv)"
    by (auto simp: sup_step_def)
  then show ?case by (intro exI [of _ "((e, e), cmd) # cmds"]) (simp add: supervisor_loop_Cons_snd del: supervisor_loop.simps(2))
qed

end
