(* ===== verification/Lifecycle.thy ===== *)
theory Lifecycle
  imports Runtime
begin

section \<open>Services and their tasks from start-up to ctrl-c\<close>

text \<open>
  What the supervisor's answers mean for the tasks that run, in every state the process can reach
  from the supervisor that \<open>App::initialize\<close> assembles: the tasks of running and of stopped services,
  the listener across a restart, and how the process comes to its end.
\<close>

subsection \<open>Start\<close>

lemma assemble_wired:
  assumes "assemble ie config caps ca_pem fs = (available, cloud, sv, fs')"
  shows "wired sv" "held_by sid sv = {}"
  using assms
  by (auto simp: assemble_def brokerage_register_onto_def gateway_register_onto_def mqtt_client_register_onto_def
      gateway_mqtt_register_onto_def register_def supervisor_new_def wired_def no_leftover_def held_by_def Let_def
      brokerage_service_of_def mosquitto_new_def gateway_new_def mqtt_client_new_def gateway_mqtt_new_def
      split: option.splits if_splits prod.splits)

lemma rt_inv_init:
  assumes "assemble ie config caps ca_pem fs = (available, cloud, sv, fs')"
  shows "rt_inv (runtime_init sv)"
  using assembled_agrees [OF assembled_assemble [OF assms]] assemble_wired [OF assms]
  by (auto simp: rt_inv_def runtime_init_def tasks_inv_def sole_listeners_def held_by_def split: option.splits)

lemma rt_inv_run:
  assumes "assemble ie config caps ca_pem fs = (available, cloud, sv, fs')" and "(rt_step J E)\<^sup>*\<^sup>* (runtime_init sv) r"
  shows "rt_inv r"
  using supervised_tasks.inv_run [OF assms(2) rt_inv_init [OF assms(1)]] .

lemma wired_kind: "wired sv \<Longrightarrow> services sv sid = Some s \<Longrightarrow> service_kind s = sid"
  by (simp add: wired_def)

lemma running_tasks:
  assumes "rt_inv r" and "rt_life r \<noteq> Exited" and "statuses (rt_sup r) sid = Some (Running pid)" and "sid \<noteq> Mosquitto"
  shows "\<exists>s. services (rt_sup r) sid = Some s \<and> service_senders s \<noteq> {} \<and>
    (\<forall>c\<in>service_senders s. \<exists>t. rt_tasks r c = Some t \<and> task_of s t)"
proof -
  have inv: "all_services.sup_agrees (rt_sup r)" "wired (rt_sup r)" "tasks_inv (rt_sup r) (rt_tasks r) (rt_used r)"
    using assms(1,2) by (simp_all add: rt_inv_def)
  obtain s where s: "services (rt_sup r) sid = Some s" "service_up s" using agrees_statuses(3) [OF inv(1) assms(3)] by blast
  then have "service_kind s \<noteq> Mosquitto" using inv(2) assms(4) by (auto simp: wired_def)
  with s(2) have "service_senders s \<noteq> {}"
    by (cases s) (auto simp: gateway_up_def client_up_def cloud_up_def gmqtt_up_def)
  moreover have "held_by sid (rt_sup r) \<subseteq> dom (rt_tasks r)" using inv(3) assms(3) unfolding tasks_inv_def by blast
  then have "\<exists>t. rt_tasks r c = Some t \<and> task_of s t" if "c \<in> service_senders s" for c
    using that s(1) inv(3) unfolding tasks_inv_def by (auto simp: held_by_def)
  ultimately show ?thesis using s(1) by blast
qed

lemma stopped_tasks:
  assumes "rt_inv r" and "rt_life r \<noteq> Exited" and "statuses (rt_sup r) sid = Some Stopped"
  shows "held_by sid (rt_sup r) = {}"
proof -
  have inv: "all_services.sup_agrees (rt_sup r)" "wired (rt_sup r)" using assms(1,2) by (simp_all add: rt_inv_def)
  then obtain s where "services (rt_sup r) sid = Some s" "\<not> service_up s" "no_leftover s"
    using agrees_statuses(4) [OF inv(1) assms(3)] by (auto simp: wired_def)
  then show ?thesis by (simp add: no_leftover_def held_by_def)
qed

lemma children_one: "wired sv \<Longrightarrow> \<exists>pid. children sv \<subseteq> {pid}"
proof -
  assume w: "wired sv"
  have "service_child s = {}" if "services sv sid = Some s" "sid \<noteq> Mosquitto" for sid s
    using wired_kind [OF w that(1)] that(2) by (cases s) auto
  then have "children sv = (case services sv Mosquitto of None \<Rightarrow> {} | Some s \<Rightarrow> service_child s)"
    by (fastforce simp: children_def ran_def split: option.splits)
  moreover have "\<exists>pid. service_child s \<subseteq> {pid}" for s
  proof (cases s)
    case (SMosquitto m)
    then show ?thesis by (cases "mq_child m") auto
  qed auto
  ultimately show ?thesis by (auto split: option.splits)
qed

subsection \<open>A process with a running gateway\<close>

definition demo_codec :: codec where
  "demo_codec = \<lparr>co_ser = (\<lambda>j. Ok []), co_parse = (\<lambda>s. None), co_bytes = (\<lambda>j. Ok [])\<rparr>"

definition demo_taken :: "(nat, nat \<times> nat, string, nat, nat, unit, nat) service_env" where
  "demo_taken = demo_senv\<lparr>en_gateway := demo_genv\<lparr>ge_bind := (\<lambda>addr. Err ''in use''), ge_shutdown := 2\<rparr>\<rparr>"

lemma demo_gateway_up:
  obtains ie config caps ca_pem fs available cloud sv fs' r g where
    "assemble (ie :: (nat, nat \<times> nat, string, nat, nat, unit, nat) init_env) config caps ca_pem fs = (available, cloud, sv, fs')"
    "(rt_step demo_codec (\<lambda>_ :: (nat, nat \<times> nat, string, nat, nat, unit, nat) service_env. True))\<^sup>*\<^sup>* (runtime_init sv) r"
    "rt_life r = Up" "rt_restarting r = None" "services (rt_sup r) Gateway = Some (SGateway g)"
    "statuses (rt_sup r) Gateway = Some (Running 0)" "gateway_addr g = ''0.0.0.0:8080''" "rt_used r = {1}" "rt_procs r = {}"
    "gs_shutdown_tx g = Some 1"
proof (rule demo_assemble [of False])
  fix cloud sv fs2
  assume as: "assemble (demo_init False) demo_config (detect_capabilities (ie_run (demo_init False)) [''mosquitto'', ''mosquitto_passwd''])
    ''cc/ii'' Map.empty = (False, cloud, sv, fs2)"
  let ?init = "runtime_init sv"
  have sv: "\<exists>g. services sv Gateway = Some (SGateway g) \<and> gs_config g = cf_http demo_config \<and> gs_shutdown_tx g = None \<and>
      statuses sv Gateway = Some Stopped"
    using as by (auto simp: assemble_def brokerage_register_onto_def gateway_register_onto_def mqtt_client_register_onto_def
      gateway_mqtt_register_onto_def register_def gateway_new_def Let_def split: option.splits if_splits prod.splits)
  then obtain g where g: "services sv Gateway = Some (SGateway g)" "gs_config g = cf_http demo_config" "gs_shutdown_tx g = None"
    "statuses sv Gateway = Some Stopped" by blast
  have h: "handle_start services_vt demo_senv Gateway sv = (Ok (), sv\<lparr>services := (services sv)(Gateway \<mapsto> SGateway (g\<lparr>gs_shutdown_tx := Some 1\<rparr>)),
      statuses := (statuses sv)(Gateway \<mapsto> Running 0)\<rparr>)"
    using g by (simp add: handle_start_def services_vt_def service_start_def gateway_start_def gateway_initialize_def demo_senv_def
        demo_genv_def demo_config_def Let_def)
  let ?E = "\<lambda>_ :: (nat, nat \<times> nat, string, nat, nat, unit, nat) service_env. True" and ?r = "start_run demo_senv Gateway ?init"
  have "rt_step demo_codec ?E ?init ?r"
    by (rule rt_step.start) (simp_all add: supervising_def runtime_init_def os_laws_def demo_senv_def)
  moreover have "show_nat 8080 = ''8080''" by (simp add: show_nat.simps digit_char_def char_of_def bit_0)
  then have "gateway_addr (g\<lparr>gs_shutdown_tx := Some 1\<rparr>) = ''0.0.0.0:8080''"
    using g(2) by (simp add: gateway_addr_def demo_config_def show_u16_def)
  moreover have "held_by sid sv = {}" for sid using assemble_wired(2) [OF as] .
  then have "rt_used ?r = {1}" by (auto simp: start_run_def h runtime_init_def split: if_splits)
  moreover have "children (rt_sup ?r) \<subseteq> children sv"
    by (auto simp: h runtime_init_def children_def ran_def split: if_splits)
  then have "rt_procs ?r = {}" by (auto simp: start_run_def supervised_def runtime_init_def)
  ultimately show ?thesis
    using that [OF as, of ?r "g\<lparr>gs_shutdown_tx := Some 1\<rparr>"] by (auto simp: h runtime_init_def)
qed

subsection \<open>Properties\<close>

text \<open>
  C6: What the supervisor reports is true of the tasks, whatever commands arrive, however the services
  fail and however their tasks interleave, as long as the process lives: a service reported running holds
  its shutdown senders and under each of them its own task runs; for one reported stopped every
  sender is gone, so that what is left of its tasks has been told to end; no two accept loops
  listen on the same address; at most one broker process runs, the child of the service.
\<close>

theorem statuses_true_of_tasks:
  assumes "assemble ie config caps ca_pem fs = (available, cloud, sv, fs')"
    and "(rt_step J E)\<^sup>*\<^sup>* (runtime_init sv) r" and "rt_life r \<noteq> Exited"
  shows "(\<forall>sid pid. statuses (rt_sup r) sid = Some (Running pid) \<longrightarrow> sid \<noteq> Mosquitto \<longrightarrow>
      (\<exists>s. services (rt_sup r) sid = Some s \<and> service_senders s \<noteq> {} \<and>
        (\<forall>c\<in>service_senders s. \<exists>t. rt_tasks r c = Some t \<and> task_of s t))) \<and>
    (\<forall>sid. statuses (rt_sup r) sid = Some Stopped \<longrightarrow> held_by sid (rt_sup r) = {}) \<and>
    sole_listeners (rt_tasks r) \<and> (\<exists>pid. rt_procs r \<subseteq> children (rt_sup r) \<and> children (rt_sup r) \<subseteq> {pid})"
proof -
  have inv: "rt_inv r" using assms(1,2) by (rule rt_inv_run)
  then have "sole_listeners (rt_tasks r)" "rt_procs r \<subseteq> children (rt_sup r)" "wired (rt_sup r)"
    using assms(3) by (simp_all add: rt_inv_def tasks_inv_def)
  then show ?thesis using running_tasks [OF inv assms(3)] stopped_tasks [OF inv assms(3)] children_one by blast
qed

theorem statuses_true_of_tasks_witness:
  "\<exists>sv r s. (rt_step demo_codec (\<lambda>_ :: (nat, nat \<times> nat, string, nat, nat, unit, nat) service_env. True))\<^sup>*\<^sup>* (runtime_init sv) r \<and>
     statuses (rt_sup r) Gateway = Some (Running 0) \<and> services (rt_sup r) Gateway = Some s \<and> service_senders s \<noteq> {} \<and>
     (\<forall>c\<in>service_senders s. \<exists>t. rt_tasks r c = Some t \<and> task_of s t)"
proof (rule demo_gateway_up)
  fix ie :: "(nat, nat \<times> nat, string, nat, nat, unit, nat) init_env" and config caps ca_pem fs available cloud sv fs' r
  assume "assemble ie config caps ca_pem fs = (available, cloud, sv, fs')"
    and r: "(rt_step demo_codec (\<lambda>_ :: (nat, nat \<times> nat, string, nat, nat, unit, nat) service_env. True))\<^sup>*\<^sup>* (runtime_init sv) r"
    and "rt_life r = Up" and st: "statuses (rt_sup r) Gateway = Some (Running 0)"
  from statuses_true_of_tasks [OF this(1,2)] this(3) st have "\<exists>s. services (rt_sup r) Gateway = Some s \<and> service_senders s \<noteq> {} \<and>
      (\<forall>c\<in>service_senders s. \<exists>t. rt_tasks r c = Some t \<and> task_of s t)" by auto
  with r st show ?thesis by blast
qed

text \<open>
  The supervisor inside the process is the supervisor by itself: whatever the tasks do, and
  although they go on between the stop and the start of a restart, its services and statuses are those
  that some sequence of commands gives.
\<close>

theorem runtime_refines_supervisor:
  assumes "assemble ie config caps ca_pem fs = (available, cloud, sv, fs')" and "(rt_step J E)\<^sup>*\<^sup>* (runtime_init sv) r"
  shows "\<exists>cmds. (\<forall>(e, cmd)\<in>set cmds. E (fst e) \<and> E (snd e)) \<and> rt_sup r = snd (supervisor_loop services_vt cmds sv)"
  using sup_steps_loop [OF rt_supervisor.proj_run [OF assms(2) rt_inv_init [OF assms(1)]]] by (simp add: runtime_init_def)

theorem runtime_refines_supervisor_witness:
  "\<exists>sv (r :: runtime) cmds :: (((nat, nat \<times> nat, string, nat, nat, unit, nat) service_env \<times> _) \<times> supervisor_command) list.
     statuses (rt_sup r) Gateway = Some (Running 0) \<and> rt_sup r = snd (supervisor_loop services_vt cmds sv)"
proof (rule demo_gateway_up)
  fix ie :: "(nat, nat \<times> nat, string, nat, nat, unit, nat) init_env" and config caps ca_pem fs available cloud sv fs' r
  assume "assemble ie config caps ca_pem fs = (available, cloud, sv, fs')"
    and "(rt_step demo_codec (\<lambda>_ :: (nat, nat \<times> nat, string, nat, nat, unit, nat) service_env. True))\<^sup>*\<^sup>* (runtime_init sv) r"
    and "statuses (rt_sup r) Gateway = Some (Running 0)"
  with runtime_refines_supervisor [OF this(1,2)] show ?thesis by blast
qed



text \<open>
  A restart is a stop and a start: without anything in between it is \<open>handle_restart\<close>.
\<close>

lemma restart_at_once:
  assumes "statuses (rt_sup r) sid = Some (Running pid)"
  shows "rt_sup (start_run e2 sid ((stop_run e1 sid r)\<lparr>rt_restarting := Some sid\<rparr>)) = snd (handle_restart services_vt e1 e2 sid (rt_sup r))"
  using assms by (simp add: handle_restart_def)

lemma gateway_stopped:
  assumes "services sv Gateway = Some (SGateway g)" and "statuses sv Gateway = Some (Running pid)" and "gs_shutdown_tx g = Some c"
  shows "snd (handle_stop services_vt e Gateway sv) = sv\<lparr>services := (services sv)(Gateway \<mapsto> SGateway (g\<lparr>gs_shutdown_tx := None\<rparr>)),
    statuses := (statuses sv)(Gateway \<mapsto> Stopped)\<rparr>"
  using assms by (simp add: handle_stop_def services_vt_def service_stop_def gateway_stop_def)

lemma gateway_start_failed:
  assumes "services sv Gateway = Some (SGateway g)" and "statuses sv Gateway = Some Stopped" and "gateway_start (en_gateway e) g = (Err er, g)"
  shows "handle_start services_vt e Gateway sv = (Err er, sv\<lparr>statuses := (statuses sv)(Gateway \<mapsto> Failed er)\<rparr>)"
  using assms by (simp add: handle_start_def services_vt_def service_start_def Let_def fun_upd_idem)

lemma gateway_bind_fails:
  assumes "gs_shutdown_tx g = None" and "ge_bind env (gateway_addr g) = Err x"
  shows "gateway_start env g = (Err (''Failed to bind listener on '' @ gateway_addr g @ '': '' @ x), g)"
  using assms by (simp add: gateway_start_def gateway_initialize_def gateway_addr_def)

text \<open>Of a stopped gateway, whatever accept loop is left has been told to end.\<close>

lemma no_listener_held:
  assumes "tasks_inv sv ts used" and "wired sv" and "services sv Gateway = Some (SGateway g)" and "gs_shutdown_tx g = None"
    and "ts d = Some (AcceptTask addr st)"
  shows "d \<notin> held_by sid sv"
proof (cases "sid = Gateway")
  case False
  have "\<not> task_of s (AcceptTask addr st)" if "services sv sid = Some s" for s
    using wired_kind [OF assms(2) that] False by (cases s) auto
  with assms(1,5) show ?thesis unfolding tasks_inv_def held_by_def by (auto split: option.split)
qed (simp add: assms(3,4) held_by_def)



end
