(* ===== verification/Sweep_Timer.thy ===== *)
theory Sweep_Timer
  imports Beacon_Loop
begin

section \<open>The sweep over time (\<open>check_timeouts\<close> and its timer, \<open>registry.rs\<close>)\<close>

text \<open>
  The message loop's inputs with the times at which its timer lets it sweep. Of
  \<open>tokio::time::interval\<close> with \<open>MissedTickBehavior::Delay\<close> the documented behaviour is used: after a
  tick the next one is due one period later at most, and it is taken as late as the loop is busy.
\<close>

definition BEACON_TIMEOUT_CHECK_INTERVAL :: nat where
  "BEACON_TIMEOUT_CHECK_INTERVAL = 30 * 10 ^ 9"

text \<open>Each tick, taken at most \<open>late\<close> after it is due, given the time of the tick before.\<close>

fun timeout_ticks :: "nat \<Rightarrow> nat \<Rightarrow> loop_input list \<Rightarrow> bool" where
  "timeout_ticks late before [] = True"
| "timeout_ticks late before (TimeoutSweep order now budget # is) =
     (before \<le> now \<and> now \<le> before + BEACON_TIMEOUT_CHECK_INTERVAL + late \<and> timeout_ticks late now is)"
| "timeout_ticks late before (i # is) = timeout_ticks late before is"

text \<open>Sweeps that run to their end and visit every record of the map.\<close>

fun sweeps_complete :: "payload_env \<Rightarrow> string \<Rightarrow> beacon_loop \<Rightarrow> loop_input list \<Rightarrow> bool" where
  "sweeps_complete pv server_url s [] = True"
| "sweeps_complete pv server_url s (i # is) =
     ((case i of TimeoutSweep order now budget \<Rightarrow> budget = None \<and> set order = dom (rr_records (bl_registry s)) | _ \<Rightarrow> True) \<and>
      sweeps_complete pv server_url (beacon_step pv server_url i s) is)"

fun is_message_of :: "string \<Rightarrow> loop_input \<Rightarrow> bool" where
  "is_message_of bid (Inbound now msg) = (mm_topic msg = bid @ ''/rec'')"
| "is_message_of bid _ = False"

fun is_sweep_after :: "nat \<Rightarrow> loop_input \<Rightarrow> bool" where
  "is_sweep_after t (TimeoutSweep order now budget) = (t < now)"
| "is_sweep_after t _ = False"

subsection \<open>When a beacon was last heard\<close>

definition last_heard :: "registry \<Rightarrow> string \<Rightarrow> nat option" where
  "last_heard reg bid = map_option br_last_seen (rr_records reg bid)"

lemma last_heard_update:
  "(\<And>r. br_last_seen (f r) = br_last_seen r) \<Longrightarrow> last_heard (update_record b f reg) bid = last_heard reg bid"
  by (auto simp: last_heard_def update_record_def split: option.split)

lemma last_heard_ensure: "last_heard reg bid = Some t \<Longrightarrow> last_heard (ensure_record b now reg) bid = Some t"
  by (auto simp: last_heard_def ensure_record_def split: option.split)

lemma last_heard_push [simp]: "last_heard (push_topic x reg) bid = last_heard reg bid"
  by (simp add: last_heard_def push_topic_def)

lemma last_heard_register:
  "last_heard reg bid = Some t \<Longrightarrow> last_heard (register_channel subscribe now ch reg) bid = Some t"
  by (simp add: register_channel_def Let_def last_heard_update last_heard_ensure split: topic_type.split result.split)

lemma last_heard_touch:
  assumes "topic \<noteq> bid @ ''/rec''"
  shows "last_heard (touch now topic reg) bid = last_heard reg bid"
proof (cases "strip_suffix topic ''/rec''")
  case (Some b)
  then have "b \<noteq> bid" using assms by (auto simp: strip_suffix_Some_iff)
  with Some show ?thesis by (simp add: touch_def update_last_seen_def last_heard_def update_record_def split: option.split)
qed (simp add: touch_def)

lemma last_heard_open:
  "last_heard (bl_registry (open_gateway server_url topic u payload s)) bid = last_heard (bl_registry s) bid"
proof -
  have "last_heard (insert_gateway u (bl_registry s)) bid = last_heard (bl_registry s) bid"
    by (simp add: last_heard_def insert_gateway_def)
  then show ?thesis by (simp add: open_gateway_def associate_gateway_def Let_def last_heard_update split: option.split)
qed

lemma last_heard_message:
  "mm_topic msg \<noteq> bid @ ''/rec'' \<Longrightarrow>
   last_heard (bl_registry (beacon_message pv server_url now msg s)) bid = last_heard (bl_registry s) bid"
  by (simp add: beacon_message_def Let_def last_heard_open last_heard_touch split: option.split)

lemma last_heard_early_sweep:
  assumes "last_heard reg bid = Some t" and "now \<le> t + BEACON_TIMEOUT"
  shows "last_heard (check_timeouts order now budget reg) bid = Some t"
proof -
  have "bid \<notin> set (stale_ids order now reg)" using assms by (auto simp: stale_ids_def is_stale_def last_heard_def)
  with assms(1) show ?thesis by (simp add: check_timeouts_def last_heard_def deregister_all_keeps)
qed

lemma deregister_complete: "fst (deregister b r None reg) = Some None"
  by (simp add: deregister_def Let_def)

lemma deregister_all_removes:
  "bid \<in> set bids \<Longrightarrow> rr_records (deregister_all bids None reg) bid = None"
proof (induction bids arbitrary: reg)
  case (Cons b bids)
  show ?case
  proof (cases "rr_records reg b")
    case None
    then show ?thesis using Cons deregister_all_keeps [of bid bids None reg] by (cases "bid \<in> set bids") auto
  next
    case (Some r)
    obtain reg' where d: "deregister b r None reg = (Some None, reg')" using deregister_complete by (metis prod.collapse)
    have "rr_records reg' b = None" using deregister_records [of b r None reg] d by simp
    then show ?thesis
      using Some d Cons deregister_all_keeps [of bid bids None reg'] by (cases "bid \<in> set bids") auto
  qed
qed simp

lemma late_sweep_removes:
  assumes "last_heard reg bid = Some t" and "t + BEACON_TIMEOUT < now" and "set order = dom (rr_records reg)"
  shows "rr_records (check_timeouts order now None reg) bid = None"
proof -
  have "bid \<in> set (stale_ids order now reg)" using assms by (auto simp: stale_ids_def is_stale_def last_heard_def)
  then show ?thesis unfolding check_timeouts_def by (rule deregister_all_removes)
qed

subsection \<open>Property\<close>

lemma silent_removed:
  assumes "last_heard (bl_registry s) bid = Some t" and "before \<le> t + BEACON_TIMEOUT"
    and "timeout_ticks late before inputs" and "sweeps_complete pv server_url s inputs"
    and "list_all (\<lambda>i. \<not> is_message_of bid i) inputs" and "list_ex (is_sweep_after (t + BEACON_TIMEOUT)) inputs"
  shows "\<exists>pre order now post. inputs = pre @ TimeoutSweep order now None # post \<and>
    now \<le> t + BEACON_TIMEOUT + BEACON_TIMEOUT_CHECK_INTERVAL + late \<and>
    rr_records (bl_registry (fold (beacon_step pv server_url) (pre @ [TimeoutSweep order now None]) s)) bid = None"
  using assms
proof (induction inputs arbitrary: s before)
  case (Cons i inputs)
  let ?s = "beacon_step pv server_url i s"
  have step: ?case
    if keeps: "last_heard (bl_registry ?s) bid = Some t" "b \<le> t + BEACON_TIMEOUT" "timeout_ticks late b inputs"
      "list_ex (is_sweep_after (t + BEACON_TIMEOUT)) inputs" for b
  proof -
    obtain pre order now post where "inputs = pre @ TimeoutSweep order now None # post"
      "now \<le> t + BEACON_TIMEOUT + BEACON_TIMEOUT_CHECK_INTERVAL + late"
      "rr_records (bl_registry (fold (beacon_step pv server_url) (pre @ [TimeoutSweep order now None]) ?s)) bid = None"
      using Cons.IH [OF keeps(1-3) _ _ keeps(4)] Cons.prems(4,5) by auto
    then show ?thesis by (intro exI [of _ "i # pre"] exI [of _ order] exI [of _ now] exI [of _ post]) simp
  qed
  show ?case
  proof (cases i)
    case (NewChannel subscribe now ch)
    then show ?thesis using Cons.prems last_heard_register by (intro step [of before]) auto
  next
    case (Inbound now msg)
    then show ?thesis using Cons.prems last_heard_message by (intro step [of before]) auto
  next
    case (TimeoutSweep order now budget)
    then have b: "budget = None" "set order = dom (rr_records (bl_registry s))"
      and now: "now \<le> before + BEACON_TIMEOUT_CHECK_INTERVAL + late" using Cons.prems by auto
    show ?thesis
    proof (cases "t + BEACON_TIMEOUT < now")
      case True
      with late_sweep_removes [OF Cons.prems(1) True b(2)] TimeoutSweep b now Cons.prems(2) show ?thesis
        by (intro exI [of _ "[]"] exI [of _ order] exI [of _ now] exI [of _ inputs]) simp
    next
      case False
      with TimeoutSweep Cons.prems last_heard_early_sweep show ?thesis by (intro step [of now]) auto
    qed
  qed
qed simp



end
