(* ===== verification/Gateway_Outbox.thy ===== *)
theory Gateway_Outbox
  imports Gateway_Mqtt "HOL-Library.Sublist"
begin

section \<open>The queues of the cloud gateway MQTT task (\<open>src/services/gateway_mqtt/\<close>)\<close>

text \<open>
  \<open>GatewayMqttHandle::publish\<close> puts a message into the task's outbound queue; the task takes it in a
  branch of its \<open>select!\<close> and hands it to the \<open>rumqttc\<close> client, whose request queue the task empties
  in another branch, by polling the event loop. While a branch waits for room in the request queue
  nothing else of the task runs. The client, with its queue, is new for each connection.

  Of the queues only the documented behaviour is used: first in, first out, a send waits while the
  queue is full and fails once the receiver is gone. \<open>valid\<close> says which requests the client accepts.
\<close>

subsection \<open>State and steps\<close>

definition OUTBOUND_CAPACITY :: nat where "OUTBOUND_CAPACITY = 64"
definition CLIENT_CAPACITY :: nat where "CLIENT_CAPACITY = 10"

text \<open>
  \<open>ob_awaiting\<close> has what the branch under way has still to hand to the client; \<open>ob_sent\<close>,
  \<open>ob_accepted\<close> and \<open>ob_taken\<close> record the requests polled, the messages the handle accepted and those
  the task took.
\<close>

record outbox =
  ob_queue :: "mqtt_message list"
  ob_task :: gm_task
  ob_awaiting :: "gm_action list"
  ob_requests :: "gm_action list"
  ob_sent :: "gm_action list"
  ob_accepted :: "mqtt_message list"
  ob_taken :: "mqtt_message list"

definition outbox_init :: "gateway_mqtt_config \<Rightarrow> outbox" where
  "outbox_init config = \<lparr>ob_queue = [], ob_task = gm_init config, ob_awaiting = [], ob_requests = [], ob_sent = [],
     ob_accepted = [], ob_taken = []\<rparr>"

definition ended :: "outbox \<Rightarrow> bool" where
  "ended s \<longleftrightarrow> gt_phase (ob_task s) = Finished \<and> ob_awaiting s = []"

text \<open>The handle: \<open>None\<close> while the call waits for room.\<close>

definition gateway_publish :: "string \<Rightarrow> byte list \<Rightarrow> outbox \<Rightarrow> (unit res \<times> outbox) option" where
  "gateway_publish topic payload s =
     (if ended s then Some (Err ''gateway mqtt channel closed'', s)
      else if length (ob_queue s) < OUTBOUND_CAPACITY
      then (let m = \<lparr>mm_topic = topic, mm_payload = payload\<rparr> in
        Some (Ok (), s\<lparr>ob_queue := ob_queue s @ [m], ob_accepted := ob_accepted s @ [m]\<rparr>))
      else None)"

definition to_client :: "gm_action list \<Rightarrow> gm_action list" where
  "to_client as = filter (\<lambda>a. \<not> is_login a) as"

text \<open>The requests an event of the task makes; leaving \<open>Serving\<close> for the backoff drops the client.\<close>

definition task_moves :: "gm_task \<Rightarrow> outbox \<Rightarrow> outbox" where
  "task_moves t s =
     s\<lparr>ob_task := t, ob_awaiting := to_client (drop (length (gt_actions (ob_task s))) (gt_actions t)),
       ob_requests := (if gt_phase t \<in> {Serving, Finished} then ob_requests s else [])\<rparr>"

inductive outbox_step ::
  "(json \<Rightarrow> byte list res) \<Rightarrow> gateway_mqtt_config \<Rightarrow> (gm_action \<Rightarrow> bool) \<Rightarrow> 'cert itself \<Rightarrow> outbox \<Rightarrow> outbox \<Rightarrow> bool"
  for ser config valid c where
  handle: "gateway_publish topic payload s = Some (r, s') \<Longrightarrow> outbox_step ser config valid c s s'"
| take_outbound: "ob_awaiting s = [] \<Longrightarrow> ob_queue s = m # q \<Longrightarrow>
     gm_step ser config (GmOutbound m ok :: 'cert gm_event) (ob_task s) = Some t \<Longrightarrow>
     outbox_step ser config valid c s ((task_moves t s)\<lparr>ob_queue := q, ob_taken := ob_taken s @ [m]\<rparr>)"
| event: "ob_awaiting s = [] \<Longrightarrow> \<forall>m ok. ev \<noteq> GmOutbound m ok \<Longrightarrow>
     gm_step ser config (ev :: 'cert gm_event) (ob_task s) = Some t \<Longrightarrow>
     outbox_step ser config valid c s (task_moves t s)"
| hand_over: "ob_awaiting s = a # rest \<Longrightarrow> valid a \<Longrightarrow> length (ob_requests s) < CLIENT_CAPACITY \<Longrightarrow>
     outbox_step ser config valid c s (s\<lparr>ob_awaiting := rest, ob_requests := ob_requests s @ [a]\<rparr>)"
| refuse: "ob_awaiting s = a # rest \<Longrightarrow> \<not> valid a \<Longrightarrow>
     outbox_step ser config valid c s (s\<lparr>ob_awaiting := rest\<rparr>)"
| poll: "ob_awaiting s = [] \<Longrightarrow> gt_phase (ob_task s) = Serving \<Longrightarrow> ob_requests s = a # q \<Longrightarrow>
     outbox_step ser config valid c s (s\<lparr>ob_requests := q, ob_sent := ob_sent s @ [a]\<rparr>)"

inductive_cases outbox_stepE: "outbox_step ser config valid c s s'"

subsection \<open>Order and bounds\<close>

definition publication_of :: "mqtt_message \<Rightarrow> gm_action" where
  "publication_of m = DoPublish (mm_topic m) AtLeastOnce (mm_payload m)"

definition outbox_inv :: "outbox \<Rightarrow> bool" where
  "outbox_inv s \<longleftrightarrow> length (ob_queue s) \<le> OUTBOUND_CAPACITY \<and> length (ob_requests s) \<le> CLIENT_CAPACITY \<and>
     ob_accepted s = ob_taken s @ ob_queue s \<and>
     subseq (map publication_of (ob_taken s)) (to_client (gt_actions (ob_task s))) \<and>
     subseq (ob_sent s @ ob_requests s @ ob_awaiting s) (to_client (gt_actions (ob_task s)))"

lemma gm_step_prefix:
  assumes "gm_step ser config ev t = Some t'"
  shows "\<exists>as. gt_actions t' = gt_actions t @ as"
  using assms by (cases "gt_phase t"; cases ev) (auto simp: gm_step_simps split: gm_splits)

lemma to_client_append [simp]: "to_client (as @ bs) = to_client as @ to_client bs"
  by (simp add: to_client_def)

lemma to_client_grows:
  assumes "gm_step ser config ev t = Some t'" and "subseq xs (to_client (gt_actions t))"
  shows "subseq (xs @ to_client (drop (length (gt_actions t)) (gt_actions t'))) (to_client (gt_actions t'))"
    and "subseq xs (to_client (gt_actions t'))"
proof -
  obtain as where as: "gt_actions t' = gt_actions t @ as" using gm_step_prefix [OF assms(1)] by blast
  then show "subseq (xs @ to_client (drop (length (gt_actions t)) (gt_actions t'))) (to_client (gt_actions t'))"
    using list_emb_append_mono [OF assms(2) subseq_order.refl, of "to_client as"] by simp
  show "subseq xs (to_client (gt_actions t'))" using assms(2) as by (auto intro: subseq_order.trans [OF _ prefix_imp_subseq])
qed

lemma outbox_inv_moves:
  assumes "outbox_inv s" and "ob_awaiting s = []" and "gm_step ser config ev (ob_task s) = Some t"
  shows "outbox_inv (task_moves t s)"
proof -
  have r: "subseq (ob_sent s @ ob_requests s) (to_client (gt_actions (ob_task s)))"
    and q: "subseq (map publication_of (ob_taken s)) (to_client (gt_actions (ob_task s)))"
    using assms(1,2) by (simp_all add: outbox_inv_def)
  have "subseq (ob_sent s) (ob_sent s @ ob_requests s)" by (rule prefix_imp_subseq) simp
  then have "subseq (ob_sent s) (to_client (gt_actions (ob_task s)))" using r by (rule subseq_order.trans)
  from to_client_grows(1) [OF assms(3) this] to_client_grows(1) [OF assms(3) r] to_client_grows(2) [OF assms(3) q]
  show ?thesis using assms(1) by (simp add: outbox_inv_def task_moves_def)
qed

lemma outbox_inv_take:
  assumes "outbox_inv s" and "ob_awaiting s = []" and "ob_queue s = m # q"
    and "gm_step ser config (GmOutbound m ok) (ob_task s) = Some t"
  shows "outbox_inv ((task_moves t s)\<lparr>ob_queue := q, ob_taken := ob_taken s @ [m]\<rparr>)"
proof -
  have "gt_actions t = gt_actions (ob_task s) @ [publication_of m]"
    using assms(4) by (cases "gt_phase (ob_task s)") (auto simp: gm_step_def publication_of_def)
  then have d: "to_client (drop (length (gt_actions (ob_task s))) (gt_actions t)) = [publication_of m]"
    by (simp add: to_client_def publication_of_def)
  have "subseq (map publication_of (ob_taken s)) (to_client (gt_actions (ob_task s)))"
    using assms(1) by (simp add: outbox_inv_def)
  from to_client_grows(1) [OF assms(4) this] outbox_inv_moves [OF assms(1,2,4)] show ?thesis
    using assms(1,3) d by (simp add: outbox_inv_def task_moves_def)
qed

lemma outbox_inv_step:
  assumes "outbox_inv s" and "outbox_step ser config valid c s s'"
  shows "outbox_inv s'"
  using assms(2)
proof (cases rule: outbox_step.cases)
  case (handle topic payload r)
  then show ?thesis using assms(1) by (auto simp: gateway_publish_def outbox_inv_def Let_def split: if_splits)
next
  case (take_outbound m q ok t)
  then show ?thesis using outbox_inv_take [OF assms(1) take_outbound(2-4)] by simp
next
  case (event ev t)
  then show ?thesis using outbox_inv_moves [OF assms(1)] by simp
next
  case (refuse a rest)
  have "subseq (ob_sent s @ ob_requests s @ rest) (ob_sent s @ ob_requests s @ a # rest)"
    by (simp add: subseq_append' list_emb_Cons)
  then show ?thesis using assms(1) refuse(1,2) by (auto simp: outbox_inv_def intro: subseq_order.trans)
qed (use assms(1) in \<open>auto simp: outbox_inv_def\<close>)

lemma outbox_inv_run: "(outbox_step ser config valid c)\<^sup>*\<^sup>* s s' \<Longrightarrow> outbox_inv s \<Longrightarrow> outbox_inv s'"
  by (induction rule: rtranclp_induct) (auto intro: outbox_inv_step)

lemma outbox_inv_init: "outbox_inv (outbox_init config)"
  by (simp add: outbox_inv_def outbox_init_def)

subsection \<open>A task that waits for itself\<close>

definition stuck :: "(gm_action \<Rightarrow> bool) \<Rightarrow> outbox \<Rightarrow> bool" where
  "stuck valid s \<longleftrightarrow> (\<exists>a rest. ob_awaiting s = a # rest \<and> valid a) \<and> length (ob_requests s) = CLIENT_CAPACITY"

lemma stuck_step:
  assumes "stuck valid s" and "outbox_step ser config valid c s s'"
  shows "stuck valid s' \<and> ob_task s' = ob_task s \<and> ob_sent s' = ob_sent s \<and> ob_taken s' = ob_taken s"
  using assms(2,1) by (cases rule: outbox_step.cases) (auto simp: stuck_def gateway_publish_def Let_def split: if_splits)

lemma stuck_run:
  assumes "(outbox_step ser config valid c)\<^sup>*\<^sup>* s s'" and "stuck valid s"
  shows "stuck valid s' \<and> ob_task s' = ob_task s \<and> ob_sent s' = ob_sent s \<and> ob_taken s' = ob_taken s"
  using assms by (induction rule: rtranclp_induct) (auto dest: stuck_step)

definition serving :: "nat \<Rightarrow> outbox \<Rightarrow> bool" where
  "serving k s \<longleftrightarrow> gt_phase (ob_task s) = Serving \<and> ob_queue s = [] \<and> ob_awaiting s = [] \<and>
     length (ob_requests s) = k \<and> length (ob_taken s) = k"

text \<open>One call of the handle, taken by the task: the client is asked to publish.\<close>

lemma serving_takes:
  assumes "serving k s"
  obtains s' where "(outbox_step ser config valid (c :: 'cert itself))\<^sup>*\<^sup>* s s'"
    "gt_phase (ob_task s') = Serving" "ob_queue s' = []" "ob_awaiting s' = [DoPublish topic AtLeastOnce payload]"
    "ob_requests s' = ob_requests s" "length (ob_taken s') = Suc (length (ob_taken s))"
proof -
  let ?m = "\<lparr>mm_topic = topic, mm_payload = payload\<rparr>"
  let ?s1 = "s\<lparr>ob_queue := [?m], ob_accepted := ob_accepted s @ [?m]\<rparr>"
  let ?t = "(ob_task s)\<lparr>gt_actions := gt_actions (ob_task s) @ [DoPublish topic AtLeastOnce payload]\<rparr>"
  let ?s2 = "(task_moves ?t ?s1)\<lparr>ob_queue := [], ob_taken := ob_taken ?s1 @ [?m]\<rparr>"
  have s: "gt_phase (ob_task s) = Serving" "ob_queue s = []" "ob_awaiting s = []" using assms by (simp_all add: serving_def)
  have "outbox_step ser config valid c s ?s1"
    by (rule outbox_step.handle [of topic payload _ "Ok ()"])
      (simp add: gateway_publish_def ended_def OUTBOUND_CAPACITY_def s Let_def)
  moreover have "outbox_step ser config valid c ?s1 ?s2"
    by (rule outbox_step.take_outbound [where ok = True]) (simp_all add: s gm_step_def)
  ultimately have "(outbox_step ser config valid c)\<^sup>*\<^sup>* s ?s2" by (meson r_into_rtranclp rtranclp_trans)
  then show ?thesis by (rule that) (simp_all add: task_moves_def s to_client_def)
qed

lemma serving_fills:
  assumes "valid (DoPublish topic AtLeastOnce payload)" and "serving 0 s" and "k \<le> CLIENT_CAPACITY"
  shows "\<exists>s'. (outbox_step ser config valid (c :: 'cert itself))\<^sup>*\<^sup>* s s' \<and> serving k s'"
  using assms(3)
proof (induction k)
  case (Suc k)
  then obtain s1 where s1: "(outbox_step ser config valid c)\<^sup>*\<^sup>* s s1" "serving k s1" by auto
  obtain s2 where s2: "(outbox_step ser config valid c)\<^sup>*\<^sup>* s1 s2" "gt_phase (ob_task s2) = Serving" "ob_queue s2 = []"
    "ob_awaiting s2 = [DoPublish topic AtLeastOnce payload]" "ob_requests s2 = ob_requests s1"
    "length (ob_taken s2) = Suc (length (ob_taken s1))"
    using s1(2) by (rule serving_takes)
  let ?s3 = "s2\<lparr>ob_awaiting := [], ob_requests := ob_requests s2 @ [DoPublish topic AtLeastOnce payload]\<rparr>"
  have "outbox_step ser config valid c s2 ?s3"
    using s2(4) assms(1) by (rule outbox_step.hand_over) (use Suc.prems s1(2) s2(5) in \<open>simp add: serving_def\<close>)
  then have "(outbox_step ser config valid c)\<^sup>*\<^sup>* s ?s3" using s1(1) s2(1) by (meson rtranclp.rtrancl_into_rtrancl rtranclp_trans)
  moreover have "serving (Suc k) ?s3" using s1(2) s2 by (simp add: serving_def)
  ultimately show ?case by blast
qed (use assms(2) in blast)

lemma reach_serving:
  assumes "attempt_login config (le :: 'cert login_env) = Ok resp" and "build_mqtt_opts (te :: 'cert tls_env) (client_cfg config resp) = Ok opts"
  shows "\<exists>s. (outbox_step ser config valid (c :: 'cert itself))\<^sup>*\<^sup>* (outbox_init config) s \<and> serving 0 s"
proof -
  let ?t1 = "(gm_init config)\<lparr>gt_cached := Some resp, gt_phase := Building\<rparr>"
  let ?s1 = "task_moves ?t1 (outbox_init config)" and ?s2 = "task_moves (?t1\<lparr>gt_phase := Serving\<rparr>) (task_moves ?t1 (outbox_init config))"
  have "outbox_step ser config valid c (outbox_init config) ?s1"
    by (rule outbox_step.event [where ev = "GmLogin le"]) (simp_all add: outbox_init_def gm_step_def gm_init_def reconnect_def assms(1))
  moreover have "outbox_step ser config valid c ?s1 ?s2"
    by (rule outbox_step.event [where ev = "GmBuilt te"])
      (simp_all add: outbox_init_def task_moves_def gm_step_def gm_init_def reconnect_def to_client_def assms(2))
  ultimately have "(outbox_step ser config valid c)\<^sup>*\<^sup>* (outbox_init config) ?s2" by (meson r_into_rtranclp rtranclp_trans)
  moreover have "serving 0 ?s2" by (simp add: serving_def task_moves_def outbox_init_def to_client_def)
  ultimately show ?thesis by blast
qed

subsection \<open>Properties\<close>

text \<open>
  C36: However calls of the handle, connections, failures and the shutdown interleave, the queues keep
  their bounds; the messages accepted by the handle are those the task has taken and those still
  queued, in the order of the calls; the task asks the client to publish what it has taken, in that
  order; and what has reached the broker or is on its way there is an ordered part of what the task
  asked for, nothing twice.
\<close>

theorem outbox_in_order:
  assumes "(outbox_step ser config valid (c :: 'cert itself))\<^sup>*\<^sup>* (outbox_init config) s"
  shows "length (ob_queue s) \<le> 64 \<and> length (ob_requests s) \<le> 10 \<and> ob_accepted s = ob_taken s @ ob_queue s \<and>
    subseq (map (\<lambda>m. DoPublish (mm_topic m) AtLeastOnce (mm_payload m)) (ob_taken s)) (gt_actions (ob_task s)) \<and>
    subseq (ob_sent s @ ob_requests s @ ob_awaiting s) (gt_actions (ob_task s))"
proof -
  have "outbox_inv s" using assms outbox_inv_init by (rule outbox_inv_run)
  moreover have "subseq (to_client as) as" for as by (simp add: to_client_def)
  ultimately show ?thesis
    unfolding outbox_inv_def OUTBOUND_CAPACITY_def CLIENT_CAPACITY_def publication_of_def
    by (blast intro: subseq_order.trans)
qed

text \<open>
  The task can hang for good: once logged in, eleven messages that the handle has accepted before
  the client's connection is polled leave the task waiting for room in the request queue that only
  it empties. From then on it takes no message and sends nothing, whatever happens, and a shutdown
  does not end it.
\<close>

theorem outbox_hangs:
  assumes "attempt_login config (le :: 'cert login_env) = Ok resp" and "build_mqtt_opts (te :: 'cert tls_env) (client_cfg config resp) = Ok opts"
    and "valid (DoPublish topic AtLeastOnce payload)"
  shows "\<exists>s. (outbox_step ser config valid (c :: 'cert itself))\<^sup>*\<^sup>* (outbox_init config) s \<and> length (ob_taken s) = 11 \<and>
    (\<forall>s'. (outbox_step ser config valid c)\<^sup>*\<^sup>* s s' \<longrightarrow> \<not> ended s' \<and> ob_sent s' = ob_sent s \<and> ob_taken s' = ob_taken s)"
proof -
  obtain s0 where s0: "(outbox_step ser config valid c)\<^sup>*\<^sup>* (outbox_init config) s0" "serving 0 s0"
    using reach_serving [OF assms(1,2), of ser valid c] by blast
  obtain s1 where s1: "(outbox_step ser config valid c)\<^sup>*\<^sup>* s0 s1" "serving CLIENT_CAPACITY s1"
    using serving_fills [of valid topic payload s0 CLIENT_CAPACITY ser config c] assms(3) s0(2) by blast
  obtain s where s: "(outbox_step ser config valid c)\<^sup>*\<^sup>* s1 s" "ob_awaiting s = [DoPublish topic AtLeastOnce payload]"
    "ob_requests s = ob_requests s1" "length (ob_taken s) = Suc (length (ob_taken s1))"
    using s1(2) by (rule serving_takes)
  have "stuck valid s" using s s1(2) assms(3) by (simp add: stuck_def serving_def)
  moreover have "\<not> ended s'" if "stuck valid s'" for s' using that by (auto simp: stuck_def ended_def)
  moreover have "(outbox_step ser config valid c)\<^sup>*\<^sup>* (outbox_init config) s" using s0(1) s1(1) s(1) by (meson rtranclp_trans)
  moreover have "length (ob_taken s) = 11" using s(4) s1(2) by (simp add: serving_def CLIENT_CAPACITY_def)
  ultimately show ?thesis using stuck_run by blast
qed

lemma demo_built:
  obtains resp opts where "attempt_login demo_gmqtt (demo_login 200) = Ok resp"
    "build_mqtt_opts (le_tls (demo_login 200)) (client_cfg demo_gmqtt resp) = Ok opts"
proof -
  obtain resp where r: "attempt_login demo_gmqtt (demo_login 200) = Ok resp" using demo_attempt(1) by blast
  moreover have "\<exists>opts. build_mqtt_opts (le_tls (demo_login 200)) (client_cfg demo_gmqtt resp) = Ok opts"
    by (simp add: build_mqtt_opts_def client_cfg_def demo_gmqtt_def build_server_tls_def Let_def)
  ultimately show ?thesis using that by blast
qed

theorem outbox_in_order_witness:
  "\<exists>s. (outbox_step (\<lambda>j. Ok []) demo_gmqtt (\<lambda>_. True) (TYPE(nat)))\<^sup>*\<^sup>* (outbox_init demo_gmqtt) s \<and>
     length (ob_taken s) = 10 \<and> subseq (map (\<lambda>m. DoPublish (mm_topic m) AtLeastOnce (mm_payload m)) (ob_taken s)) (gt_actions (ob_task s))"
proof -
  obtain s0 where s0: "(outbox_step (\<lambda>j. Ok []) demo_gmqtt (\<lambda>_. True) (TYPE(nat)))\<^sup>*\<^sup>* (outbox_init demo_gmqtt) s0" "serving 0 s0"
    using demo_built reach_serving by metis
  obtain s where s: "(outbox_step (\<lambda>j. Ok []) demo_gmqtt (\<lambda>_. True) (TYPE(nat)))\<^sup>*\<^sup>* s0 s" "serving 10 s"
    using serving_fills [of "\<lambda>_. True" _ _ s0 10 "\<lambda>j. Ok []" demo_gmqtt "TYPE(nat)"] s0(2) by (auto simp: CLIENT_CAPACITY_def)
  from rtranclp_trans [OF s0(1) s(1)] have r: "(outbox_step (\<lambda>j. Ok []) demo_gmqtt (\<lambda>_. True) (TYPE(nat)))\<^sup>*\<^sup>* (outbox_init demo_gmqtt) s" .
  from outbox_in_order [OF r] r s(2) show ?thesis by (auto simp: serving_def)
qed

theorem outbox_hangs_witness:
  "\<exists>s. (outbox_step (\<lambda>j. Ok []) demo_gmqtt (\<lambda>_. True) (TYPE(nat)))\<^sup>*\<^sup>* (outbox_init demo_gmqtt) s \<and> length (ob_taken s) = 11 \<and> \<not> ended s"
proof (rule demo_built)
  fix resp opts
  assume a: "attempt_login demo_gmqtt (demo_login 200) = Ok resp"
    "build_mqtt_opts (le_tls (demo_login 200)) (client_cfg demo_gmqtt resp) = Ok opts"
  from outbox_hangs [OF a, of "\<lambda>_. True" _ _ "\<lambda>j. Ok []" "TYPE(nat)"] show ?thesis by blast
qed

end
