(* ===== verification/Peer.thy ===== *)
theory Peer
  imports Prelude
begin

section \<open>Messages to peer nodes (\<open>src/services/peer/peer_service.rs\<close>)\<close>

text \<open>
  \<open>send_message\<close> posts a text to another Hamlet. The URI parser and the HTTP client of
  \<open>hyper\<close> are arguments: the parser, and one outcome per stage of the exchange. The long dash
  of the last error message is written as a hyphen.
\<close>

record uri =
  ur_host :: "string option"
  ur_port :: "16 word option"
  ur_path_and_query :: "string option"

record http_request =
  rq_method :: string
  rq_uri :: string
  rq_headers :: "(string \<times> string) list"
  rq_body :: string

record peer_env =
  pe_parse :: "string \<Rightarrow> uri res"
  pe_connect :: "string \<Rightarrow> unit res"
  pe_handshake :: "unit res"
  pe_build :: "http_request \<Rightarrow> unit res"
  pe_send :: "http_request \<Rightarrow> nat res"
  pe_body :: "string res"

definition is_success :: "nat \<Rightarrow> bool" where
  "is_success status \<longleftrightarrow> 200 \<le> status \<and> status < 300"

definition peer_request :: "string \<Rightarrow> uri \<Rightarrow> string \<Rightarrow> 16 word \<Rightarrow> http_request" where
  "peer_request message u host port =
     \<lparr>rq_method = ''POST'',
      rq_uri = unwrap_or (ur_path_and_query u) ''/peer/message'',
      rq_headers = [(''host'', host @ '':'' @ show_u16 port), (''content-type'', ''text/plain'')],
      rq_body = message\<rparr>"

definition send_message :: "(nat \<Rightarrow> string) \<Rightarrow> peer_env \<Rightarrow> string \<Rightarrow> string \<Rightarrow> unit res" where
  "send_message show_status pe base_url message =
     (case pe_parse pe (base_url @ ''/peer/message'') of Err e \<Rightarrow> Err (''Invalid peer URL: '' @ e) | Ok u \<Rightarrow>
      case ur_host u of None \<Rightarrow> Err ''Peer URL has no host'' | Some host \<Rightarrow>
      let port = unwrap_or (ur_port u) 80;
          addr = host @ '':'' @ show_u16 port;
          request = peer_request message u host port in
      case pe_connect pe addr of
        Err e \<Rightarrow> Err (''Failed to connect to peer '' @ addr @ '': '' @ e) | Ok _ \<Rightarrow>
      case pe_handshake pe of Err e \<Rightarrow> Err (''HTTP handshake failed: '' @ e) | Ok _ \<Rightarrow>
      case pe_build pe request of Err e \<Rightarrow> Err (''Failed to build request: '' @ e) | Ok _ \<Rightarrow>
      case pe_send pe request of Err e \<Rightarrow> Err (''Failed to send request to peer: '' @ e) | Ok status \<Rightarrow>
      case pe_body pe of Err e \<Rightarrow> Err (''Failed to read peer response body: '' @ e) | Ok body \<Rightarrow>
      if is_success status then Ok ()
      else Err (''Peer returned '' @ show_status status @ '' - '' @ body))"

text \<open>
  \<open>Ok\<close> means that a 2xx response was received in full to a request posted to the peer's
  own address: the address connected to is the one named in the \<open>host\<close> header, with port 80
  when the URL names none.
\<close>

theorem send_message_delivered:
  assumes "send_message show_status pe base_url message = Ok ()"
  shows "\<exists>u host status body. pe_parse pe (base_url @ ''/peer/message'') = Ok u \<and> ur_host u = Some host \<and>
    (let port = unwrap_or (ur_port u) 80; addr = host @ '':'' @ show_u16 port;
         request = peer_request message u host port in
     pe_connect pe addr = Ok () \<and> (''host'', addr) \<in> set (rq_headers request) \<and> rq_body request = message \<and>
     pe_send pe request = Ok status \<and> is_success status \<and> pe_body pe = Ok body)"
  using assms
  by (auto simp: send_message_def peer_request_def Let_def split: result.splits option.splits if_splits)

theorem send_message_delivered_witness:
  "\<exists>(pe :: peer_env) u host status body. pe_parse pe (''http://p'' @ ''/peer/message'') = Ok u \<and> ur_host u = Some host \<and>
    (let port = unwrap_or (ur_port u) 80; addr = host @ '':'' @ show_u16 port;
         request = peer_request ''hi'' u host port in
     pe_connect pe addr = Ok () \<and> (''host'', addr) \<in> set (rq_headers request) \<and> rq_body request = ''hi'' \<and>
     pe_send pe request = Ok status \<and> is_success status \<and> pe_body pe = Ok body)"
proof -
  let ?pe = "\<lparr>pe_parse = (\<lambda>s. Ok \<lparr>ur_host = Some ''p'', ur_port = None, ur_path_and_query = Some ''/peer/message''\<rparr>),
     pe_connect = (\<lambda>a. Ok ()), pe_handshake = Ok (), pe_build = (\<lambda>r. Ok ()), pe_send = (\<lambda>r. Ok 200), pe_body = Ok []\<rparr>"
  have "send_message show_nat ?pe ''http://p'' ''hi'' = Ok ()"
    by (simp add: send_message_def is_success_def Let_def)
  from send_message_delivered [OF this] show ?thesis by (rule exI [where x = ?pe])
qed

end
