(* ===== verification/Spec2Isabelle.thy ===== *)
theory Spec2Isabelle
  imports Node_Wire Node_Lock Node_Stored Lifecycle Sweep_Timer Gateway_Outbox Peer
begin

text \<open>
  A verification library of the PlaceNet Hamlet: the Rust program of \<open>src/src/\<close>, a home node
  that devices (beacons) register with, that runs an MQTT broker for them, broadcasts to them
  and links them to gateways in the cloud. The theories model the program component by
  component and prove what makes it correct.

  \<^bold>\<open>The program.\<close> \<open>main\<close> reads the configuration and calls \<open>App::initialize\<close>, which detects the
  installed binaries, opens the certificate authority (CA), writes certificates, registers the
  services on a supervisor and starts them. A device then shakes hands with the HTTP gateway: its
  certificate request is signed by the CA, its certificate is put beside the broker's and two
  topic channels are queued for the beacon message loop. That loop owns the beacon registry: it
  subscribes to the beacon's topic, takes its messages, drops beacons that are silent for too
  long and opens a connection to each gateway a beacon advertises. A second loop periodically
  publishes the node's address with a rotating key to every registered beacon. Two more
  services keep a connection to a cloud gateway, one over WebSocket, one over MQTT.

  \<^bold>\<open>Theories and sources.\<close>
  \<^item> \<open>Prelude\<close>: results, Rust string functions, decimal and hexadecimal text, 64-bit wrap-around,
    Unix paths, files with write errors, JSON values.
  \<^item> \<open>Config\<close> (\<open>config.rs\<close>): the configuration records, each \<open>from_env\<close> over an environment map,
    and \<open>mosquitto.conf\<close> as rendered by \<open>write_config\<close>.
  \<^item> \<open>Supervisor\<close> (\<open>supervisor.rs\<close>): statuses, commands, \<open>handle_start\<close>, \<open>handle_stop\<close>,
    \<open>handle_restart\<close>, the command loop and the shutdown, over any table of service methods. The
    locale \<open>managed_laws\<close> is the contract of a service, \<open>one_shot\<close> that of a service whose
    channel ends can be taken once.
  \<^item> \<open>Key_Management\<close> (\<open>beacon_management/key_management.rs\<close>): the table of broadcast keys, its
    rotation and sweep, tokens. The locale \<open>key_store\<close> is the interface of the table.
  \<^item> \<open>Ca\<close> (\<open>infra/ca/\<close>): the CA's key, the node identity and the device certificates. The locale
    \<open>cert_store\<close> is the interface of the device table.
  \<^item> \<open>Mqtt_Client\<close> (\<open>services/mqtt_client/\<close>): connection options, the handle, the service, the
    event loop and the command task.
  \<^item> \<open>Registry\<close> (\<open>beacon_management/registry.rs\<close>): records, topics, known gateways and the timeout
    sweep with its await points.
  \<^item> \<open>Capabilities\<close> (\<open>services/capabilities.rs\<close>), \<open>Peer\<close> (\<open>services/peer/\<close>).
  \<^item> \<open>Mqtt_Brokerage\<close> (\<open>services/mqtt_brokerage/\<close>): broker certificate, device identities,
    passwords and the broker process.
  \<^item> \<open>Gateway_Http\<close> (\<open>beacon_management/\<close>: \<open>internals/\<close>, \<open>tasks.rs\<close>, \<open>gateway_service.rs\<close>,
    \<open>manager.rs\<close>): request decoding, handlers, dispatch, proxying, TLS, accept loops, service.
  \<^item> \<open>Reconnect\<close>: the reconnect delay the two cloud clients share and runs of event machines; the
    locale \<open>reconnector\<close> is the contract of the delay.
  \<^item> \<open>Cloud_Gateway\<close> (\<open>services/cloud_gateway/\<close>), \<open>Gateway_Mqtt\<close> (\<open>services/gateway_mqtt/\<close>): codecs,
    URLs, login, services, and the connection tasks as step functions on events.
  \<^item> \<open>Services\<close>: the five services as one type with one method table, and the supervisor run on it.
  \<^item> \<open>Beacon_Loop\<close>, \<open>App\<close> (\<open>app.rs\<close>): the broadcast loop, the beacon message loop; registration
    and start sequence of \<open>App::initialize\<close>.
  \<^item> \<open>Broadcast_Schedule\<close> (\<open>run_broadcast_loop\<close>), \<open>Sweep_Timer\<close> (\<open>registry.rs\<close>): the cycles of the
    broadcast loop and the sweeps of the message loop under their timers, in nanoseconds.
  \<^item> \<open>Mqtt_Flow\<close> (\<open>services/mqtt_client/\<close>): the event loop task, the command task and the two loops
    that call the handle, with the bounded queues between them, as step relations.
  \<^item> \<open>Gateway_Outbox\<close> (\<open>services/gateway_mqtt/\<close>): the gateway MQTT task with its outbound queue and the
    request queue of its client.
  \<^item> \<open>Connections\<close> (\<open>app.rs\<close>, \<open>cloud_gateway_service.rs\<close>): the message loop together with the
    WebSocket tasks it opens; a task is shut down when its sender is dropped from the registry.
  \<^item> \<open>Node\<close> (\<open>main.rs\<close>, \<open>app.rs\<close>): the running node from \<open>main\<close> on. HTTP requests, the message loop, its
    connections and the broadcast loop interleave on one state: queue, topic list and its lock, key
    table, CA.
  \<^item> \<open>Transitions\<close>: invariants and simulations of step relations, as the locales \<open>step_invariant\<close>,
    \<open>simulation\<close> and \<open>projection\<close>. \<open>Node_Spec\<close>: the abstract beacon service and the node as its
    implementation.
  \<^item> \<open>Node_Flow\<close> (\<open>app.rs\<close>, \<open>registry.rs\<close>, \<open>mqtt_client_service.rs\<close>): the node on the MQTT tasks of
    \<open>Mqtt_Flow\<close>. The two loops make their calls and wait for the replies and for the lock of the
    topic list; a sweep is dropped at its waits. The system projects to a run of the node and to a
    run of the MQTT tasks. \<open>Node_Wire\<close>: what of the node's publications reaches the broker.
    \<open>Node_Lock\<close>: how the lock can stop everything, in a run from the start of \<open>main\<close>.
  \<^item> \<open>Runtime\<close>, \<open>Lifecycle\<close> (\<open>main.rs\<close>, \<open>supervisor.rs\<close>, \<open>services/\<close>): the tasks the services have spawned,
    each under the shutdown channel it listens to, with connections and the broker process, while the
    supervisor starts, stops and restarts services, up to ctrl-c.
  \<^item> \<open>Sql\<close>, \<open>Database\<close> (\<open>migrations/\<close>, \<open>infra/ca/\<close>, \<open>key_management.rs\<close>): tables with constraints, the SQL
    the program uses, the migrations and all statements of the program as they stand in the source,
    and their meaning as the tables of \<open>Ca\<close> and \<open>Key_Management\<close>. \<open>Stored\<close> (\<open>infra/ca/\<close>,
    \<open>key_management.rs\<close>): the operations of the CA service and the key manager written on that database,
    through the driver. \<open>Node_Stored\<close>: the running node with its database.
  \<^item> This theory: properties that span components.

  \<^bold>\<open>How the code is modelled.\<close> Structs are records, enums are datatypes, a \<open>Result\<close> is \<open>result\<close>
  with the source's error text, a database table is the list of its rows, a hash map is a map
  whose iteration order, where it matters, is an argument. Integers keep their width where they
  can wrap or are cut. State is passed explicitly. An \<open>async\<close> task whose \<open>select!\<close> races several
  futures is a step function on the events it can take, so that every interleaving is a list
  of events. Code outside the repository (\<open>rcgen\<close>, \<open>rustls\<close>, \<open>hyper\<close>, \<open>rumqttc\<close>, \<open>sqlx\<close>,
  HMAC-SHA256, processes, the file system's failures, clock and random generator) is an argument or
  a field of an environment record that gives the outcome of each call: every theorem holds for
  all outcomes, and what it relies on is a hypothesis. All definitions are executable and total;
  no fuel is used, as loops run over lists of inputs or events, which are as long as one likes.

  The theories of concurrent parts have a step relation per way of interleaving and the states
  reachable by it; their invariants are proved by rule induction over the components' own
  invariants.

  \<^bold>\<open>What is proved.\<close>
  \<^item> The node as a whole: it publishes only to certified devices (C1), and so does what reaches the
    broker through the MQTT tasks (C2); it implements the abstract service (C3), also on its MQTT
    client (C4); it can stop for good at the lock of the topic list (C5). A cycle goes through the
    topic list as it was when the cycle began (C7), topics are distinct and the queue bounded (C9),
    a queued beacon can be reached (C15).
  \<^item> Supervisor: the reported statuses are true of the tasks that run (C6), client services start once
    only (C21), only ctrl-c ends the process, and without the supervisor's shutdown (C22), a restart of the
    HTTP gateway races with its own accept loop (C33).
  \<^item> Beacons: at most one connection per gateway (C10), what a sweep removes (C12), a beacon that is
    heard stays (C13), a silent one is gone in bounded time (C14).
  \<^item> Gateway connections: tasks agree with the registry (C11), a dropped connection ends (C34).
  \<^item> HTTP gateway: accepted and refused handshakes (C16, C17).
  \<^item> MQTT tasks: order and bounds of the queues (C18), the tasks come to rest (C19), and the cyclic
    wait in which they may do so without having finished (C20).
  \<^item> Keys and broadcasts: the table's invariant (C8), the key in force and its stability (C23, C24),
    the publications of a run of the loop (C25) and its schedule (C26).
  \<^item> CA: refinement of the device table (C27), restart (C32).
  \<^item> Database: the statements do what the model's tables do (C28), the queries answer what the model's
    lookups give (C30), so the operations have on the database the outcomes they have on the tables
    (C31), and the database follows the running node (C29).
  \<^item> Cloud gateway clients: delivery of the WebSocket task (C35); the queues of the MQTT task (C36), its
    logins (C37), the message codec (C38).
  \<^item> Settings and start-up: defaults of client and broker that disagree (C39), what start-up leaves
    running (C40).
  Further theorems, stated with a text block and used nowhere else, cover single branches: from
  handshake to broadcast, client registration, the supervisor by itself and its shutdown, the supervisor
  inside the process, the CA over a connection, a stable node identity, the constraints of the
  migrations, the event loop alone and its stop, URL parsing, the
  login, device identity files, broker certificates, the advertised port, gateways that are lost,
  start-up that waits, retention of keys, the gateway MQTT task that waits for itself, and others.

  \<^bold>\<open>What is not modelled.\<close> Of \<open>main.rs\<close> the set-up of logging and of the crypto provider; the text
  of log messages, the delays of start-up, JSON text (values are modelled,
  the serialiser is an argument), bytes above Latin-1 in strings. Of SQLite the value of an
  automatic row id, which no statement reads, is one of those its documentation admits, type
  affinities are left out, as every value is bound with the type of its column, and a statement
  that fails in the driver changes nothing; that the two statements of a key rotation are not one
  transaction is modelled in \<open>Key_Management\<close>, two programs on one database are not.
  The tests of the sources and the module files have nothing to model. What the map leaves out of the
  implementation is comments, imports, type aliases, functions that only log, handles that only wrap
  the sender of a channel and derived traits.
\<close>

section \<open>Properties that span components\<close>

subsection \<open>Broker and client settings\<close>

lemmas setting_defs = config_from_env_def mqtt_client_from_env_def mqtt_brokerage_from_env_def env_or_def
  listener_port_def Let_def

text \<open>
  When \<open>MQTT_TLS_ENABLED\<close> is set, to whatever value, the MQTT client and the broker agree:
  mutual TLS on the client exactly when the broker requires certificates, the same port, the
  same CA file and the same user name and password.
\<close>

theorem tls_setting_shared:
  assumes "env ''MQTT_TLS_ENABLED'' = Some v"
    and "c = config_from_env parse_ip current_dir env"
  shows "(mc_tls_mode (cf_mqtt_client c) = Mutual \<longleftrightarrow> mb_tls_enabled (cf_mqtt_brokerage c)) \<and>
    mc_tls_mode (cf_mqtt_client c) \<noteq> ServerOnly \<and>
    mc_port (cf_mqtt_client c) = listener_port (cf_mqtt_brokerage c) \<and>
    mc_cafile (cf_mqtt_client c) = Some (mb_cafile (cf_mqtt_brokerage c)) \<and>
    mc_username (cf_mqtt_client c) = mb_username (cf_mqtt_brokerage c) \<and>
    mc_password (cf_mqtt_client c) = mb_password (cf_mqtt_brokerage c)"
  using assms by (simp add: setting_defs)

theorem tls_setting_shared_witness:
  "mc_port (cf_mqtt_client (config_from_env (\<lambda>s. None :: nat option) ''/srv'' [''MQTT_TLS_ENABLED'' \<mapsto> ''true''])) =
     listener_port (cf_mqtt_brokerage (config_from_env (\<lambda>s. None :: nat option) ''/srv'' [''MQTT_TLS_ENABLED'' \<mapsto> ''true'']))"
  using tls_setting_shared [of "[''MQTT_TLS_ENABLED'' \<mapsto> ''true'']" "''true''" _ "\<lambda>s. None :: nat option" "''/srv''", OF _ refl]
  by simp

text \<open>
  C39: When \<open>MQTT_TLS_ENABLED\<close> is not set the two defaults disagree: the broker is configured
  for TLS and its configuration file has the TLS port as its only listener, while the client
  connects in plain text to the other port, so that it never connects when the ports differ.
\<close>

theorem tls_setting_unset:
  assumes "env ''MQTT_TLS_ENABLED'' = None"
    and "c = config_from_env parse_ip current_dir env"
    and "paths_one_line (cf_mqtt_brokerage c)"
  shows "mb_tls_enabled (cf_mqtt_brokerage c) \<and> mc_tls_mode (cf_mqtt_client c) = TlsNone \<and>
    filter (\<lambda>l. starts_with l ''listener '') (lines_of (render_config (cf_mqtt_brokerage c))) =
      [''listener '' @ show_u16 (mb_mqtts_port (cf_mqtt_brokerage c))] \<and>
    mc_port (cf_mqtt_client c) = mb_port (cf_mqtt_brokerage c)"
proof -
  have "flag_true ''true''" "\<not> flag_true ''false''"
    by (simp_all add: flag_true_def eq_ignore_ascii_case_def trim_def trim_end_by_def is_whitespace_def
        chr_code_def ascii_lower_def)
  then have t: "mb_tls_enabled (cf_mqtt_brokerage c)" "mc_tls_mode (cf_mqtt_client c) = TlsNone"
    "mc_port (cf_mqtt_client c) = mb_port (cf_mqtt_brokerage c)"
    using assms(1,2) by (simp_all add: setting_defs)
  moreover have "filter (\<lambda>l. starts_with l ''listener '') (lines_of (render_config (cf_mqtt_brokerage c))) =
      [''listener '' @ show_u16 (mb_mqtts_port (cf_mqtt_brokerage c))]"
    unfolding lines_render_config [OF assms(3)] using t(1) by (simp add: starts_with_def)
  ultimately show ?thesis by blast
qed

lemma default_paths_one_line:
  "paths_one_line (cf_mqtt_brokerage (config_from_env parse_ip ''/srv'' Map.empty))"
  by (simp add: paths_one_line_def setting_defs path_join_def is_absolute_def starts_with_def ends_with_def)

theorem tls_setting_unset_witness:
  "mb_tls_enabled (cf_mqtt_brokerage (config_from_env (\<lambda>s. None :: nat option) ''/srv'' Map.empty)) \<and>
   mc_tls_mode (cf_mqtt_client (config_from_env (\<lambda>s. None :: nat option) ''/srv'' Map.empty)) = TlsNone"
  using tls_setting_unset [OF _ refl default_paths_one_line, of "\<lambda>s. None :: nat option"] by simp

subsection \<open>From the handshake to the broadcast\<close>

text \<open>
  End to end: when a device is accepted and the queue takes both channels, then after the
  message loop has taken them from the queue the device's beacon is registered with the
  broadcast topic that its handshake assigned, and the next broadcast cycle with a key publishes
  to that topic.
\<close>

theorem handshake_to_broadcast:
  assumes "handle_device_init env st req w = (resp, w')" and "rs_status resp = 200"
    and "as_has_topic_tx st" and "he_accepts env (w_queue w)" "he_accepts env (w_queue w @ [c1])"
    and "w_queue w' = w_queue w @ [c1, c2]"
    and "rr_records (bl_registry s) (he_uuid env) = None"
    and "s' = fold (beacon_step pv server_url) [NewChannel subscribe tlisten c1, NewChannel subscribe tcast c2] s"
    and "fst (get_or_rotate_key (bs_key_management bst) (cy_now_key cy) (cy_rotate cy) t) = Ok key"
  shows "(\<exists>r. rr_records (bl_registry s') (he_uuid env) = Some r \<and> br_broadcast_topic r = he_uuid env @ ''/cast'' \<and>
      (is_ok (subscribe (he_uuid env @ ''/rec'') AtLeastOnce) \<longrightarrow> br_listen_topic r = he_uuid env @ ''/rec'')) \<and>
    he_uuid env @ ''/cast'' \<in>
      fst ` set (fst (broadcast_cycle render bst cy (rr_broadcast_topics (bl_registry s')) t))"
proof -
  let ?u = "he_uuid env"
  have c: "c1 = beacon_channel ?u (?u @ ''/rec'') Listen" "c2 = beacon_channel ?u (?u @ ''/cast'') Broadcast"
    using device_init_channels [OF assms(1-6)] by simp_all
  have reg: "rr_records (bl_registry s') ?u =
      Some \<lparr>br_listen_topic = (if is_ok (subscribe (?u @ ''/rec'') AtLeastOnce) then ?u @ ''/rec'' else []),
        br_broadcast_topic = ?u @ ''/cast'', br_last_seen = tlisten, br_gateway_url = None, br_gateway_shutdown_tx = None\<rparr>"
    "rr_broadcast_topics (bl_registry s') = rr_broadcast_topics (bl_registry s) @ [?u @ ''/cast'']"
    using assms(7,8) by (simp_all add: c beacon_channel_def register_channel_def registry_defs Let_def split: result.splits)
  obtain t1' where g: "get_or_rotate_key (bs_key_management bst) (cy_now_key cy) (cy_rotate cy) t = (Ok key, t1')"
    using assms(9) by (metis prod.collapse)
  then have "?u @ ''/cast'' \<in> fst ` set (fst (broadcast_cycle render bst cy (rr_broadcast_topics (bl_registry s')) t))"
    by (auto simp: broadcast_cycle_def reg(2) Let_def image_image)
  with reg(1) show ?thesis by simp
qed

theorem handshake_to_broadcast_witness:
  "''u1/cast'' \<in> fst ` set (fst (broadcast_cycle (\<lambda>j. ''p'') demo_bstate demo_cycle
     (rr_broadcast_topics (bl_registry (fold (beacon_step demo_pv ''http://me'')
        [NewChannel (\<lambda>t q. Ok ()) 1 (beacon_channel ''u1'' ''u1/rec'' Listen),
         NewChannel (\<lambda>t q. Ok ()) 2 (beacon_channel ''u1'' ''u1/cast'' Broadcast)] (beacon_loop_init None [])))) []))"
proof -
  let ?c1 = "beacon_channel ''u1'' ''u1/rec'' Listen" and ?c2 = "beacon_channel ''u1'' ''u1/cast'' Broadcast"
  have u: "he_uuid (demo_env 64) = ''u1''" by (simp add: demo_env_def)
  have acc: "as_has_topic_tx demo_state" "he_accepts (demo_env 64) (w_queue demo_world)"
    "he_accepts (demo_env 64) (w_queue demo_world @ [?c1])"
    by (simp_all add: demo_state_def demo_env_def demo_world_def)
  have q: "w_queue (snd (handle_device_init (demo_env 64) demo_state demo_request demo_world)) = w_queue demo_world @ [?c1, ?c2]"
    by (rule device_init_queue [OF demo_status acc(1) _ _ acc(2,3)]) (simp_all add: u)
  have r: "rr_records (bl_registry (beacon_loop_init None [])) (he_uuid (demo_env 64)) = None"
    by (simp add: beacon_loop_init_def registry_new_def)
  have "\<exists>key. fst (get_or_rotate_key (bs_key_management demo_bstate) (cy_now_key demo_cycle) (cy_rotate demo_cycle) []) = Ok key"
    by (simp add: demo_bstate_def demo_cycle_def ex_simps)
  then obtain key where k:
    "fst (get_or_rotate_key (bs_key_management demo_bstate) (cy_now_key demo_cycle) (cy_rotate demo_cycle) []) = Ok key" by blast
  from handshake_to_broadcast [OF prod.collapse [symmetric] demo_status acc q r refl k,
      where pv = demo_pv and server_url = "''http://me''" and subscribe = "\<lambda>t q. Ok ()" and tlisten = 1 and tcast = 2
        and render = "\<lambda>j. ''p''"] u show ?thesis by simp
qed

end
